(* ===== verification/Prelude.thy ===== *)
theory Prelude
  imports Main "HOL-Library.Multiset" "HOL-Library.List_Lexorder"
    "HOL-Library.Char_ord" "HOL-Library.Product_Lexorder"
begin

text \<open>
  Shared vocabulary of the development: helpers for nullable values, decimal printing,
  Go's truncated division, and the generic facts on lists (first hit of a search, sorted
  prefixes, updates of a keyed list) that the component theories rest on.

  The collection \<open>sql\<close> holds the defining equations of the SQL three-valued tests, and
  \<open>keeps\<close> the introduction rules of the compositional frame proofs of the Go methods.
\<close>

named_theorems sql "three-valued comparisons on nullable columns"
named_theorems keeps "frame rules for effectful operations"

section \<open>Nullable values\<close>

fun opt_list :: "'a option \<Rightarrow> 'a list" where
  "opt_list None = []"
| "opt_list (Some x) = [x]"

lemma set_opt_list [simp]: "set (opt_list x) = set_option x"
  by (cases x) auto

lemma opt_list_Nil_iff [simp]: "opt_list x = [] \<longleftrightarrow> x = None"
  by (cases x) auto

fun first_some :: "'a option list \<Rightarrow> 'a option" where
  "first_some [] = None"
| "first_some (None # xs) = first_some xs"
| "first_some (Some x # xs) = Some x"

lemma first_some_None_iff: "first_some xs = None \<longleftrightarrow> (\<forall>x \<in> set xs. x = None)"
  by (induction xs rule: first_some.induct) auto

lemma first_some_append:
  "first_some (xs @ ys) = (case first_some xs of None \<Rightarrow> first_some ys | Some x \<Rightarrow> Some x)"
  by (induction xs rule: first_some.induct) auto

lemma first_some_in: "first_some xs = Some x \<Longrightarrow> Some x \<in> set xs"
  by (induction xs rule: first_some.induct) auto

text \<open>A comparison with a NULL column is unknown, which a WHERE clause treats as false.\<close>

definition lt_null :: "int option \<Rightarrow> int \<Rightarrow> bool" where
  "lt_null x y = (case x of None \<Rightarrow> False | Some v \<Rightarrow> v < y)"

definition gt_null :: "int option \<Rightarrow> int \<Rightarrow> bool" where
  "gt_null x y = (case x of None \<Rightarrow> False | Some v \<Rightarrow> y < v)"

lemma lt_null_simps [simp, sql]:
  "lt_null None y = False" "lt_null (Some v) y = (v < y)"
  by (simp_all add: lt_null_def)

lemma gt_null_simps [simp, sql]:
  "gt_null None y = False" "gt_null (Some v) y = (y < v)"
  by (simp_all add: gt_null_def)

lemma lt_gt_null_disjoint: "lt_null x a \<Longrightarrow> gt_null x b \<Longrightarrow> b < a"
  by (cases x) auto

section \<open>Numbers\<close>

text \<open>Decimal printing of Go's \<open>%d\<close> verb.\<close>

definition digit_char :: "nat \<Rightarrow> char" where
  "digit_char d = char_of (48 + d)"

fun show_nat :: "nat \<Rightarrow> string" where
  "show_nat n = (if n < 10 then [digit_char n] else show_nat (n div 10) @ [digit_char (n mod 10)])"

declare show_nat.simps [simp del]

definition show_int :: "int \<Rightarrow> string" where
  "show_int i = (if i < 0 then CHR ''-'' # show_nat (nat (- i)) else show_nat (nat i))"

lemma show_nat_nonempty [simp]: "show_nat n \<noteq> []"
  by (subst show_nat.simps) simp

lemma show_int_nonempty [simp]: "show_int i \<noteq> []"
  by (simp add: show_int_def)

text \<open>Go's integer division truncates towards zero.\<close>

definition quot :: "int \<Rightarrow> int \<Rightarrow> int" where
  "quot a b = (if (a < 0) = (b < 0) then \<bar>a\<bar> div \<bar>b\<bar> else - (\<bar>a\<bar> div \<bar>b\<bar>))"

lemma quot_pos: "0 \<le> a \<Longrightarrow> 0 < b \<Longrightarrow> quot a b = a div b"
  by (simp add: quot_def)

section \<open>Lists\<close>

lemma find_append:
  "List.find P (xs @ ys) = (case List.find P xs of None \<Rightarrow> List.find P ys | Some x \<Rightarrow> Some x)"
  by (induction xs) auto

lemma find_concat: "List.find P (concat xss) = first_some (map (List.find P) xss)"
  by (induction xss) (auto simp: find_append split: option.splits)

lemma set_take_sorted_prefix:
  assumes "sorted (map f xs)" and "x \<in> set (take n xs)" and "y \<in> set (drop n xs)"
  shows "f x \<le> f y"
proof -
  have "sorted (map f (take n xs) @ map f (drop n xs))"
    using assms(1) by (simp flip: map_append)
  then show ?thesis using assms(2,3) by (auto simp: sorted_append)
qed

lemma sorted_map_filter: "sorted (map f xs) \<Longrightarrow> sorted (map f (filter P xs))"
  by (rule sorted_filter)

lemma length_take_full: "y \<in> set (drop n xs) \<Longrightarrow> length (take n xs) = n"
  by (cases "length xs \<le> n") auto

lemma distinct_map_take_filter:
  "distinct (map f xs) \<Longrightarrow> distinct (map f (take n (filter P xs)))"
  by (simp add: distinct_map_filter flip: take_map)

text \<open>A table is a list of rows; an operation that rewrites the rows satisfying a test is a map.\<close>

lemma map_if_filter:
  "filter P (map (\<lambda>x. if Q x then f x else x) xs)
    = map (\<lambda>x. if Q x then f x else x) (filter (\<lambda>x. P (if Q x then f x else x)) xs)"
  by (induction xs) auto

lemma mset_set_eq: "mset xs = mset ys \<Longrightarrow> set xs = set ys"
  by (rule mset_eq_setD)

lemma distinct_map_sort_key: "distinct (map f (sort_key g xs)) = distinct (map f xs)"
proof -
  have "mset (map f (sort_key g xs)) = mset (map f xs)" by simp
  then show ?thesis by (metis mset_eq_imp_distinct_iff)
qed

lemma sum_list_less:
  fixes f g :: "'a \<Rightarrow> nat"
  assumes "\<And>x. x \<in> set xs \<Longrightarrow> f x \<le> g x" and "y \<in> set xs" and "f y < g y"
  shows "sum_list (map f xs) < sum_list (map g xs)"
  using assms
proof (induction xs)
  case Nil
  then show ?case by simp
next
  case (Cons a xs)
  have le: "sum_list (map f xs) \<le> sum_list (map g xs)"
    using Cons.prems(1) by (intro sum_list_mono) auto
  show ?case
  proof (cases "y = a")
    case True
    then show ?thesis using le Cons.prems(3) by simp
  next
    case False
    then have "sum_list (map f xs) < sum_list (map g xs)"
      using Cons by auto
    moreover have "f a \<le> g a" using Cons.prems(1) by simp
    ultimately show ?thesis by simp
  qed
qed

end
