(* ===== verification/Outcome.thy ===== *)
theory Outcome
  imports Prelude
begin

text \<open>
  Go error values and the publisher's outcome controls (\<^verbatim>\<open>port/outcome.go\<close>), with the
  standard library's \<open>errors.As\<close>, \<open>errors.Join\<close> and the texts \<open>Error()\<close> produces. An
  \<open>error\<close> interface value is a \<open>goerr option\<close>, nil being \<open>None\<close>. A Go map that is
  only read is an association list in the order one iteration visits it.
\<close>

section \<open>Error values\<close>

text \<open>
  \<open>Plain\<close> is a leaf (\<open>errors.New\<close>, an error of a driver or an application), \<open>Wrapped\<close> a
  \<open>fmt.Errorf\<close> with one \<open>%w\<close> and its full text, \<open>Joined\<close> an \<open>errors.Join\<close>. A panic
  value is an error (\<open>Inl\<close>) or any other value, kept as its \<open>%v\<close> text. \<open>FatalError\<close> is the
  relay's private \<open>fatalError\<close>, which has no \<open>Unwrap\<close> method. \<open>PanicError\<close> leaves the
  stack out.
\<close>

datatype goerr =
    Plain string
  | Wrapped string goerr
  | Joined "goerr list"
  | PermanentError "goerr option"
  | RetryAfterError "goerr option" int
  | DiscardError "goerr option"
  | BatchError "(string \<times> goerr option) list" "goerr option"
  | AbortError "goerr option"
  | PanicError "goerr + string"
  | FatalError goerr

type_synonym goval = "goerr + string"

definition ErrLeaseLost :: goerr where
  "ErrLeaseLost = Plain ''outbox: lease lost''"

text \<open>The constructors of the public API.\<close>

definition Permanent :: "goerr option \<Rightarrow> goerr option" where
  "Permanent err = Some (PermanentError err)"

definition RetryAfter :: "goerr option \<Rightarrow> int \<Rightarrow> goerr option" where
  "RetryAfter err delay = Some (RetryAfterError err delay)"

definition Discard :: "goerr option \<Rightarrow> goerr option" where
  "Discard reason = Some (DiscardError reason)"

definition PerMessage :: "(string \<times> goerr option) list \<Rightarrow> goerr option \<Rightarrow> goerr option" where
  "PerMessage outcomes others = Some (BatchError outcomes others)"

definition Abort :: "goerr option \<Rightarrow> goerr option" where
  "Abort err = Some (AbortError err)"

section \<open>Unwrapping\<close>

text \<open>The non-nil errors one call of the value's \<open>Unwrap\<close> method yields, in its order.\<close>

fun unwrap :: "goerr \<Rightarrow> goerr list" where
  "unwrap (Plain _) = []"
| "unwrap (Wrapped _ e) = [e]"
| "unwrap (Joined es) = es"
| "unwrap (PermanentError e) = opt_list e"
| "unwrap (RetryAfterError e _) = opt_list e"
| "unwrap (DiscardError e) = opt_list e"
| "unwrap (BatchError outcomes e) = opt_list e @ concat (map (\<lambda>(_, err). opt_list err) outcomes)"
| "unwrap (AbortError e) = opt_list e"
| "unwrap (PanicError v) = (case v of Inl e \<Rightarrow> [e] | Inr _ \<Rightarrow> [])"
| "unwrap (FatalError _) = []"

lemma size_outcome_less:
  "(k, Some x) \<in> set outcomes \<Longrightarrow>
    size x < size_list (size_prod (\<lambda>_. 0) (size_option size)) outcomes + Suc n"
  by (induction outcomes) auto

lemma unwrap_size: "x \<in> set (unwrap e) \<Longrightarrow> size x < size e"
proof (cases e)
  case (Joined es)
  then show "x \<in> set (unwrap e) \<Longrightarrow> size x < size e"
    using size_list_estimation' [of x es "size x" size] by auto
next
  case (BatchError outcomes err)
  then show "x \<in> set (unwrap e) \<Longrightarrow> size x < size e"
    by (auto split: prod.splits dest: size_outcome_less)
qed (auto split: sum.splits option.splits)

text \<open>
  \<open>errors.As\<close>: the value itself if it has the wanted type, else the first hit in what it
  unwraps to, depth first. The type test is the predicate \<open>p\<close>.
\<close>

function errors_as :: "(goerr \<Rightarrow> bool) \<Rightarrow> goerr \<Rightarrow> goerr option" where
  "errors_as p e = (if p e then Some e else first_some (map (errors_as p) (unwrap e)))"
  by pat_completeness auto
termination
  by (relation "measure (\<lambda>(p, e). size e)") (auto dest: unwrap_size)

declare errors_as.simps [simp del]

text \<open>The nodes of the tree the \<open>Unwrap\<close> methods span, in preorder; \<open>errors.As\<close> finds the first.\<close>

function err_nodes :: "goerr \<Rightarrow> goerr list" where
  "err_nodes e = e # concat (map err_nodes (unwrap e))"
  by pat_completeness auto
termination
  by (relation "measure size") (auto dest: unwrap_size)

declare err_nodes.simps [simp del]

lemma self_in_nodes [simp]: "e \<in> set (err_nodes e)"
  by (subst err_nodes.simps) simp

lemma unwrap_nodes:
  "x \<in> set (unwrap e) \<Longrightarrow> y \<in> set (err_nodes x) \<Longrightarrow> y \<in> set (err_nodes e)"
  by (subst err_nodes.simps) auto

lemma err_nodes_trans: "y \<in> set (err_nodes x) \<Longrightarrow> x \<in> set (err_nodes e) \<Longrightarrow> y \<in> set (err_nodes e)"
proof (induction e rule: err_nodes.induct)
  case (1 e)
  consider "x = e" | z where "z \<in> set (unwrap e)" "x \<in> set (err_nodes z)"
    using 1(3) by (subst (asm) err_nodes.simps) auto
  then show ?case
    using 1(1,2) by cases (auto intro: unwrap_nodes)
qed

lemma errors_as_eq_find: "errors_as p e = List.find p (err_nodes e)"
proof (induction p e rule: errors_as.induct)
  case (1 p e)
  then have "map (errors_as p) (unwrap e) = map (List.find p) (map err_nodes (unwrap e))" if "\<not> p e"
    using that by auto
  then show ?case
    by (simp add: errors_as.simps [of p e] err_nodes.simps [of e] find_concat del: map_map)
qed

lemma errors_as_None_iff: "errors_as p e = None \<longleftrightarrow> (\<forall>x \<in> set (err_nodes e). \<not> p x)"
  by (auto simp: errors_as_eq_find find_None_iff)

lemma errors_as_SomeD: "errors_as p e = Some x \<Longrightarrow> p x \<and> x \<in> set (err_nodes e)"
  by (auto simp: errors_as_eq_find find_Some_iff)

definition has_as :: "(goerr \<Rightarrow> bool) \<Rightarrow> goerr \<Rightarrow> bool" where
  "has_as p e = (errors_as p e \<noteq> None)"

lemma has_as_iff: "has_as p e \<longleftrightarrow> (\<exists>x \<in> set (err_nodes e). p x)"
  by (auto simp: has_as_def errors_as_None_iff)

lemma has_as_self: "p e \<Longrightarrow> has_as p e"
  by (auto simp: has_as_iff)

lemma has_as_unwrap: "x \<in> set (unwrap e) \<Longrightarrow> has_as p x \<Longrightarrow> has_as p e"
  by (auto simp: has_as_iff intro: unwrap_nodes)

text \<open>
  Specification, without reference to \<open>unwrap\<close>: the errors a value is built from, constructor by
  constructor, as the documentation of the outcome types promises ("supports errors.Is and errors.As
  over Err and every outcome"). A panic shows the error it was raised with, and nothing shows
  through a \<open>fatalError\<close>.
\<close>

function error_tree :: "goerr \<Rightarrow> goerr list" where
  "error_tree (Plain s) = [Plain s]"
| "error_tree (Wrapped s e) = Wrapped s e # error_tree e"
| "error_tree (Joined es) = Joined es # concat (map error_tree es)"
| "error_tree (PermanentError e) = PermanentError e # (case e of None \<Rightarrow> [] | Some x \<Rightarrow> error_tree x)"
| "error_tree (RetryAfterError e d) = RetryAfterError e d # (case e of None \<Rightarrow> [] | Some x \<Rightarrow> error_tree x)"
| "error_tree (DiscardError e) = DiscardError e # (case e of None \<Rightarrow> [] | Some x \<Rightarrow> error_tree x)"
| "error_tree (BatchError outcomes e) = BatchError outcomes e # (case e of None \<Rightarrow> [] | Some x \<Rightarrow> error_tree x) @
     concat (map (\<lambda>(_, err). case err of None \<Rightarrow> [] | Some x \<Rightarrow> error_tree x) outcomes)"
| "error_tree (AbortError e) = AbortError e # (case e of None \<Rightarrow> [] | Some x \<Rightarrow> error_tree x)"
| "error_tree (PanicError v) = PanicError v # (case v of Inl e \<Rightarrow> error_tree e | Inr _ \<Rightarrow> [])"
| "error_tree (FatalError e) = [FatalError e]"
  by pat_completeness auto
termination
proof (relation "measure size")
  fix es :: "goerr list" and x assume "x \<in> set es"
  then show "(x, Joined es) \<in> measure size" using size_list_estimation' [of x es "size x" size] by auto
next
  fix outcomes :: "(string \<times> goerr option) list" and e p k err x
  assume "p \<in> set outcomes" "(k, err) = p" "err = Some x"
  then show "(x, BatchError outcomes e) \<in> measure size" using size_outcome_less [of k x outcomes] by auto
qed auto

lemma err_nodes_tree: "err_nodes e = error_tree e"
proof (induction e rule: error_tree.induct)
  case (7 outcomes e)
  have "concat (map err_nodes (concat (map (\<lambda>(_, err). opt_list err) xs))) =
      concat (map (\<lambda>(_, err). case err of None \<Rightarrow> [] | Some x \<Rightarrow> error_tree x) xs)"
    if "set xs \<subseteq> set outcomes" for xs
    using that 7(2) by (induction xs) (auto split: option.splits)
  then show ?case using 7(1) by (subst err_nodes.simps) (auto split: option.splits)
qed (subst err_nodes.simps, auto split: option.splits sum.splits cong: map_cong)+

section \<open>The marker tests\<close>

fun is_permanent :: "goerr \<Rightarrow> bool" where
  "is_permanent (PermanentError _) = True" | "is_permanent _ = False"

fun is_retry :: "goerr \<Rightarrow> bool" where
  "is_retry (RetryAfterError _ _) = True" | "is_retry _ = False"

fun is_discard :: "goerr \<Rightarrow> bool" where
  "is_discard (DiscardError _) = True" | "is_discard _ = False"

fun is_batch :: "goerr \<Rightarrow> bool" where
  "is_batch (BatchError _ _) = True" | "is_batch _ = False"

fun is_abort :: "goerr \<Rightarrow> bool" where
  "is_abort (AbortError _) = True" | "is_abort _ = False"

fun is_panic :: "goerr \<Rightarrow> bool" where
  "is_panic (PanicError _) = True" | "is_panic _ = False"

fun is_fatal_error :: "goerr \<Rightarrow> bool" where
  "is_fatal_error (FatalError _) = True" | "is_fatal_error _ = False"

section \<open>Texts\<close>

fun join_lines :: "string list \<Rightarrow> string" where
  "join_lines [] = []"
| "join_lines [s] = s"
| "join_lines (s # ss) = s @ CHR 0x0A # join_lines ss"

definition count_failed :: "(string \<times> goerr option) list \<Rightarrow> nat" where
  "count_failed outcomes = length (filter (\<lambda>(_, err). err \<noteq> None) outcomes)"

text \<open>The \<open>Error()\<close> methods.\<close>

definition permanent_text :: "string option \<Rightarrow> string" where
  "permanent_text err = (case err of None \<Rightarrow> ''outbox: permanent publish failure'' | Some s \<Rightarrow> s)"

definition retry_text :: "string option \<Rightarrow> string" where
  "retry_text err = (case err of None \<Rightarrow> ''outbox: retry requested'' | Some s \<Rightarrow> s)"

definition discard_text :: "string option \<Rightarrow> string" where
  "discard_text err = (case err of None \<Rightarrow> ''outbox: discarded'' | Some s \<Rightarrow> s)"

definition batch_text :: "(string \<times> goerr option) list \<Rightarrow> string option \<Rightarrow> string" where
  "batch_text outcomes err =
     (let msg = ''outbox: '' @ show_nat (count_failed outcomes) @ '' message(s) failed''
      in case err of None \<Rightarrow> msg | Some s \<Rightarrow> msg @ ''; others: '' @ s)"

definition abort_text :: "string option \<Rightarrow> string" where
  "abort_text err = (case err of None \<Rightarrow> ''outbox: relay aborted'' | Some s \<Rightarrow> s)"

text \<open>\<open>%v\<close> of a panic value that is an error is its \<open>Error()\<close>.\<close>

fun error_text :: "goerr \<Rightarrow> string" where
  "error_text (Plain s) = s"
| "error_text (Wrapped s _) = s"
| "error_text (Joined es) = join_lines (map error_text es)"
| "error_text (PermanentError e) = permanent_text (map_option error_text e)"
| "error_text (RetryAfterError e _) = retry_text (map_option error_text e)"
| "error_text (DiscardError e) = discard_text (map_option error_text e)"
| "error_text (BatchError outcomes e) = batch_text outcomes (map_option error_text e)"
| "error_text (AbortError e) = abort_text (map_option error_text e)"
| "error_text (PanicError v) =
     ''outbox: panic: '' @ (case v of Inl e \<Rightarrow> error_text e | Inr s \<Rightarrow> s)"
| "error_text (FatalError e) = error_text e"

text \<open>\<open>errors.Join\<close> drops nils and is nil when nothing is left.\<close>

definition errors_join :: "goerr option list \<Rightarrow> goerr option" where
  "errors_join errs = (let es = concat (map opt_list errs) in if es = [] then None else Some (Joined es))"

lemma errors_join_None_iff: "errors_join errs = None \<longleftrightarrow> (\<forall>e \<in> set errs. e = None)"
  by (induction errs) (auto simp: errors_join_def Let_def)

section \<open>Panics\<close>

text \<open>What a Go call delivers: it returns, or it panics with a value.\<close>

datatype 'a res = Return 'a | Panic goval

fun map_res :: "('a \<Rightarrow> 'b) \<Rightarrow> 'a res \<Rightarrow> 'b res" where
  "map_res f (Return x) = Return (f x)"
| "map_res f (Panic v) = Panic v"

lemma map_res_Return_iff: "map_res f r = Return y \<longleftrightarrow> (\<exists>x. r = Return x \<and> y = f x)"
  by (cases r) auto

section \<open>Properties\<close>

text \<open>C38. Markers are recognised through every outcome type: \<open>errors.As\<close>, walking the \<open>Unwrap\<close> methods,
  finds the first value of the wanted type among all the errors a value is built from (the cause of
  each control, every per-message outcome and the batch-level error, what was wrapped, joined or
  panicked with), in preorder, and nothing exactly if there is none. The tree is given by the
  constructors alone: an \<open>Unwrap\<close> method that hides a cause refutes it.\<close>

theorem errors_as_first_in_tree:
  "errors_as p e = List.find p (error_tree e) \<and> (has_as p e \<longleftrightarrow> (\<exists>x \<in> set (error_tree e). p x))"
  by (simp add: errors_as_eq_find has_as_iff err_nodes_tree)

text \<open>An abort inside one message's outcome, and a permanent error inside a recovered panic.\<close>

theorem errors_as_first_in_tree_witness:
  "errors_as is_abort (BatchError [(''a'', None), (''b'', Some (Wrapped ''w'' (AbortError None)))] None) =
     Some (AbortError None) \<and>
   has_as is_permanent (PanicError (Inl (Joined [Plain ''x'', PermanentError None])))"
  using errors_as_first_in_tree [of is_abort "BatchError [(''a'', None), (''b'', Some (Wrapped ''w'' (AbortError None)))] None"]
    errors_as_first_in_tree [of is_permanent "PanicError (Inl (Joined [Plain ''x'', PermanentError None]))"]
  by simp

end
