(* ===== verification/Message.thy ===== *)
theory Message
  imports Outcome
begin

text \<open>
  The data model of \<^verbatim>\<open>message/message.go\<close>: the lifecycle states, the message record and its
  validation. Byte strings and texts are character lists; a nil slice, map or pointer is
  \<open>None\<close>, and so is the empty status of a message that was never stored; instants are
  integers, in the database's microseconds counted from Go's zero time.
\<close>

datatype status =
    StatusPending
  | StatusProcessing
  | StatusPublished
  | StatusDead
  | StatusDiscarded

definition TableName :: string where
  "TableName = ''outbox_messages''"

record message =
  m_ID :: string
  m_Topic :: string
  m_PartitionKey :: string
  m_Payload :: "string option"
  m_Headers :: "(string \<times> string) list option"
  m_ContentType :: string
  m_MessageType :: string
  m_MaxAttempts :: "int option"
  m_Status :: "status option"
  m_Attempts :: int
  m_LeaseToken :: string
  m_LockedBy :: string
  m_LockedUntil :: "int option"
  m_NextAttemptAt :: int
  m_LastError :: string
  m_CreatedAt :: int
  m_PublishedAt :: "int option"
  m_FinishedAt :: "int option"

definition ErrEmptyTopic :: goerr where
  "ErrEmptyTopic = Plain ''outbox: message topic is empty''"

definition ErrNilPayload :: goerr where
  "ErrNilPayload = Plain ''outbox: message payload is nil''"

definition Validate :: "message \<Rightarrow> goerr option" where
  "Validate m =
     (if m_Topic m = '''' then Some ErrEmptyTopic
      else if m_Payload m = None then Some ErrNilPayload
      else None)"

lemma Validate_None_iff: "Validate m = None \<longleftrightarrow> m_Topic m \<noteq> '''' \<and> m_Payload m \<noteq> None"
  by (simp add: Validate_def)

text \<open>The states a row never leaves on its own; of these only a dead row can be requeued.\<close>

definition terminal :: "status \<Rightarrow> bool" where
  "terminal s \<longleftrightarrow> s = StatusPublished \<or> s = StatusDead \<or> s = StatusDiscarded"

lemma terminal_simps [simp]:
  "\<not> terminal StatusPending" "\<not> terminal StatusProcessing"
  "terminal StatusPublished" "terminal StatusDead" "terminal StatusDiscarded"
  by (simp_all add: terminal_def)

end
