(* ===== verification/Port.thy ===== *)
theory Port
  imports Message
begin

text \<open>
  The integration interfaces of \<^verbatim>\<open>port/port.go\<close> as the engine sees them. Calls to user code
  (publisher, hooks, logger) are recorded as events in the order they are made; whether such
  a call fails is a parameter of the model (theory \<open>Engine\<close>).
\<close>

text \<open>
  \<open>NoopHooks\<close> is the default; a user implementation may also implement the optional
  \<open>DiscardHooks\<close> interface, which the engine finds out with a type assertion.
\<close>

datatype hooks = NoopHooks | UserHooks bool

fun implements_discard :: "hooks \<Rightarrow> bool" where
  "implements_discard NoopHooks = False"
| "implements_discard (UserHooks b) = b"

text \<open>A codec marshals any Go value to a payload and a content type, or fails.\<close>

record codec =
  cd_Marshal :: "goval \<Rightarrow> string option \<times> string \<times> goerr option"

text \<open>
  An executor is a user-supplied query surface; only its identity matters here, and whether
  it is a \<open>*pgxpool.Pool\<close>, which the facade detects.
\<close>

datatype executor = PoolExecutor nat | OtherExecutor nat

datatype event =
    EvPublish "message list"
  | EvCancelPublish
  | EvOnPublished "message list"
  | EvOnDiscarded "message list" "goerr option"
  | EvOnDead message
  | EvOnFailed message "goerr option"
  | EvOnCleanup int
  | EvLogError string goerr

text \<open>The messages an outcome hook is told about.\<close>

fun ev_outcome :: "event \<Rightarrow> (status \<times> message) list" where
  "ev_outcome (EvOnPublished ms) = map (Pair StatusPublished) ms"
| "ev_outcome (EvOnDiscarded ms _) = map (Pair StatusDiscarded) ms"
| "ev_outcome (EvOnDead m) = [(StatusDead, m)]"
| "ev_outcome (EvOnFailed m _) = [(StatusPending, m)]"
| "ev_outcome _ = []"

definition outcomes_of :: "event list \<Rightarrow> (status \<times> message) list" where
  "outcomes_of log = concat (map ev_outcome log)"

lemma outcomes_of_simps [simp]:
  "outcomes_of [] = []"
  "outcomes_of (xs @ ys) = outcomes_of xs @ outcomes_of ys"
  "outcomes_of (x # xs) = ev_outcome x @ outcomes_of xs"
  by (simp_all add: outcomes_of_def)

end
