(* ===== verification/Backoff.thy ===== *)
theory Backoff
  imports Outcome "HOL-Library.Word"
begin

text \<open>
  The retry backoff of \<^verbatim>\<open>backoff/backoff.go\<close>. Durations are Go's \<open>int64\<close> nanoseconds: the
  exponential strategy computes on \<open>64 word\<close>, so that its overflow guard is the code's, and
  hands \<open>int\<close> values to the relay.

  A \<open>Backoff\<close> is a function of the attempt number that may panic. The first argument of
  the model is the moment of the call: the code draws a fresh random number every time.
\<close>

type_synonym backoff = "nat \<Rightarrow> int \<Rightarrow> int res"

section \<open>Exponential backoff\<close>

text \<open>
  \<open>rand.Int64N(n)\<close> returns a value in \<open>[0, n)\<close> drawn from 64 random bits, and panics when
  \<open>n\<close> is not positive.
\<close>

definition Int64N :: "64 word \<Rightarrow> 64 word \<Rightarrow> 64 word res" where
  "Int64N raw n =
     (if sint n \<le> 0 then Panic (Inr ''invalid argument to Int64N'')
      else Return (word_of_int (uint raw mod sint n)))"

lemma Int64N_bounds:
  assumes "Int64N raw n = Return d"
  shows "0 \<le> sint d \<and> sint d < sint n"
proof -
  have n: "0 < sint n" and d: "d = word_of_int (uint raw mod sint n)"
    using assms by (auto simp: Int64N_def split: if_splits)
  have "0 \<le> uint raw mod sint n" "uint raw mod sint n < sint n"
    using n by simp_all
  moreover have "sint n < 2 ^ 63"
    using sint_lt [of n] by simp
  ultimately have "sint d = uint raw mod sint n"
    unfolding d by (simp add: signed_of_int signed_take_bit_int_eq_self)
  then show ?thesis using \<open>0 < sint n\<close> by simp
qed

lemma Int64N_Panic_iff: "(\<exists>v. Int64N raw n = Panic v) \<longleftrightarrow> sint n \<le> 0"
  by (simp add: Int64N_def)

definition exp_shift :: "int \<Rightarrow> nat" where
  "exp_shift attempt =
     (let attempt = (if attempt < 1 then 1 else attempt);
          shift = attempt - 1;
          shift = (if 62 < shift then 62 else shift)
      in nat shift)"

definition exp_computed :: "64 word \<Rightarrow> 64 word \<Rightarrow> int \<Rightarrow> 64 word" where
  "exp_computed base maxDelay attempt =
     (let d = push_bit (exp_shift attempt) base;
          d = (if sint d < sint base then maxDelay else d)
      in if 0 < sint maxDelay \<and> sint maxDelay < sint d then maxDelay else d)"

definition exp_delay :: "64 word \<Rightarrow> 64 word \<Rightarrow> 64 word \<Rightarrow> bool \<Rightarrow> int \<Rightarrow> 64 word res" where
  "exp_delay raw base maxDelay jitter attempt =
     (let d = exp_computed base maxDelay attempt
      in if jitter \<and> 0 < sint d then Int64N raw (d + 1) else Return d)"

definition Exp :: "(nat \<Rightarrow> 64 word) \<Rightarrow> 64 word \<Rightarrow> 64 word \<Rightarrow> bool \<Rightarrow> backoff" where
  "Exp raw base maxDelay jitter k attempt =
     map_res sint (exp_delay (raw k) base maxDelay jitter attempt)"

definition Default_backoff :: "(nat \<Rightarrow> 64 word) \<Rightarrow> backoff" where
  "Default_backoff raw = Exp raw (100 * 1000000) (30 * 1000000000) True"

text \<open>\<open>Backoff.Delay\<close> applies the strategy.\<close>

definition Backoff_Delay :: "backoff \<Rightarrow> nat \<Rightarrow> int \<Rightarrow> int res" where
  "Backoff_Delay b k attempt = b k attempt"

subsection \<open>What the strategy computes\<close>

lemma exp_shift_le: "exp_shift attempt \<le> 62"
  by (auto simp: exp_shift_def Let_def)

lemma exp_shift_eq: "exp_shift attempt = nat (min 62 (max 1 attempt - 1))"
  by (auto simp: exp_shift_def Let_def)

text \<open>Whenever a cap is set, no attempt number, however large, leaves the range up to the cap.\<close>

lemma exp_computed_capped:
  assumes "0 < sint maxDelay"
  shows "sint (exp_computed base maxDelay attempt) \<le> sint maxDelay"
  using assms by (auto simp: exp_computed_def Let_def)

lemma exp_computed_lower:
  assumes "0 < sint maxDelay"
  shows "min (sint base) (sint maxDelay) \<le> sint (exp_computed base maxDelay attempt)"
  using assms by (auto simp: exp_computed_def Let_def)

text \<open>As long as doubling does not overflow, the shift is the multiplication it stands for.\<close>

lemma sint_push_bit:
  fixes base :: "64 word"
  shows "sint (push_bit n base) = signed_take_bit 63 (sint base * 2 ^ n)"
proof -
  have eq: "push_bit n base = word_of_int (sint base * 2 ^ n)"
    by (simp add: push_bit_eq_mult)
  have "sint (word_of_int x :: 64 word) = signed_take_bit 63 x" for x
    by (simp add: signed_of_int)
  then show ?thesis by (simp only: eq)
qed

lemma sint_push_bit_exact:
  fixes base :: "64 word"
  assumes "0 \<le> sint base" and "sint base * 2 ^ n < 2 ^ 63"
  shows "sint (push_bit n base) = sint base * 2 ^ n"
proof -
  have "signed_take_bit 63 (sint base * 2 ^ n) = sint base * 2 ^ n"
  proof (rule signed_take_bit_int_eq_self)
    have "- (2 ^ 63) \<le> (0 :: int)" by simp
    also have "0 \<le> sint base * 2 ^ n" using assms(1) by simp
    finally show "- (2 ^ 63) \<le> sint base * 2 ^ n" .
  qed (use assms(2) in simp)
  then show ?thesis
    by (simp only: sint_push_bit)
qed

lemma exp_computed_exact:
  assumes "0 < sint base" and "sint base * 2 ^ exp_shift attempt < 2 ^ 63"
  shows "sint (exp_computed base maxDelay attempt) =
    (let d = sint base * 2 ^ exp_shift attempt
     in if 0 < sint maxDelay then min d (sint maxDelay) else d)"
proof -
  have d: "sint (push_bit (exp_shift attempt) base) = sint base * 2 ^ exp_shift attempt"
    using assms by (intro sint_push_bit_exact) auto
  have "sint base * 1 \<le> sint base * 2 ^ exp_shift attempt"
    using assms(1) by (intro mult_left_mono) auto
  then show ?thesis using d by (auto simp: exp_computed_def Let_def min_def)
qed

lemma Exp_Return_le:
  assumes "Exp raw base maxDelay jitter k attempt = Return d" and "0 < sint maxDelay"
  shows "d \<le> sint maxDelay"
proof -
  let ?c = "exp_computed base maxDelay attempt"
  have c: "sint ?c \<le> sint maxDelay"
    using assms(2) by (rule exp_computed_capped)
  show ?thesis
  proof (cases "jitter \<and> 0 < sint ?c")
    case True
    then obtain w where w: "Int64N (raw k) (?c + 1) = Return w" "d = sint w"
      using assms(1) by (auto simp: Exp_def exp_delay_def Let_def map_res_Return_iff)
    then have w': "0 \<le> sint w" "sint w < sint (?c + 1)"
      using Int64N_bounds by blast+
    have "sint (?c + 1) \<le> sint ?c + 1"
    proof -
      have "sint (?c + 1) = signed_take_bit 63 (sint ?c + 1)"
        by (simp add: sint_word_ariths)
      moreover have "signed_take_bit 63 (sint ?c + 1) \<le> sint ?c + 1"
        using True sint_lt [of ?c]
        by (cases "sint ?c + 1 = 2 ^ 63") (auto simp: signed_take_bit_int_eq_self)
      ultimately show ?thesis by simp
    qed
    then show ?thesis using c w w' by simp
  next
    case False
    then show ?thesis
      using assms(1) c by (auto simp: Exp_def exp_delay_def Let_def)
  qed
qed

text \<open>Jitter makes the strategy panic for exactly one computed delay, the largest 64-bit duration, whose
  successor wraps to a negative bound.\<close>

lemma successor_nonpositive:
  fixes d :: "64 word"
  assumes "0 < sint d"
  shows "sint (d + 1) \<le> 0 \<longleftrightarrow> sint d = 2 ^ 63 - 1"
proof -
  have "sint (d + 1) = signed_take_bit 63 (sint d + 1)"
    by (simp add: sint_word_ariths)
  moreover have "signed_take_bit 63 (sint d + 1) = (if sint d = 2 ^ 63 - 1 then - (2 ^ 63) else sint d + 1)"
    using assms sint_lt [of d] by (simp add: signed_take_bit_int_eq_self)
  ultimately show ?thesis using assms by simp
qed

lemma exp_panics_iff:
  "(\<exists>v. Exp raw base maxDelay jitter k attempt = Panic v) \<longleftrightarrow>
     jitter \<and> sint (exp_computed base maxDelay attempt) = 2 ^ 63 - 1"
proof -
  let ?c = "exp_computed base maxDelay attempt"
  have "(\<exists>v. Exp raw base maxDelay jitter k attempt = Panic v) \<longleftrightarrow> jitter \<and> 0 < sint ?c \<and> sint (?c + 1) \<le> 0"
    using Int64N_Panic_iff [of "raw k" "?c + 1"]
    by (cases "Int64N (raw k) (?c + 1)") (auto simp: Exp_def exp_delay_def Let_def)
  then show ?thesis using successor_nonpositive [of ?c] by auto
qed

text \<open>
  The overflow guard only tests \<open>d < base\<close>. For the default parameters that is enough: past
  36 doublings the shifted value is a multiple of \<open>2^45\<close>, so it is not positive or above the cap.
\<close>

lemma push_bit_dvd:
  fixes base :: "64 word"
  assumes "2 ^ j dvd uint base * 2 ^ n" and "j \<le> 64"
  shows "2 ^ j dvd sint (push_bit n base)"
proof -
  have two: "(2 :: int) ^ j dvd 2 ^ 64"
    using assms(2) by (rule le_imp_power_dvd)
  have "uint (push_bit n base) = take_bit 64 (push_bit n (uint base))"
    by (simp only: unsigned_push_bit_eq) simp
  also have "\<dots> = (uint base * 2 ^ n) mod 2 ^ 64"
    by (simp only: push_bit_eq_mult take_bit_eq_mod)
  finally have "2 ^ j dvd uint (push_bit n base)"
    using assms(1) two by (simp only: dvd_mod)
  moreover have "sint w = uint w - 2 ^ 64 * of_bool (bit w 63)" for w :: "64 word"
    using unsigned_less [of w, where ?'a = int]
    by (simp add: sint_uint signed_take_bit_eq_take_bit_minus bit_uint_iff take_bit_int_eq_self)
  ultimately show ?thesis
    using two by (simp only: dvd_diff dvd_mult2)
qed

lemma exp_default_exact:
  "sint (exp_computed (100 * 1000000) (30 * 1000000000) attempt) =
     min (100 * 1000000 * 2 ^ exp_shift attempt) (30 * 1000000000)"
proof (cases "exp_shift attempt < 37")
  case True
  have "(2 :: int) ^ exp_shift attempt \<le> 2 ^ 36" using True by (intro power_increasing) auto
  then show ?thesis
    using exp_computed_exact [of "100 * 1000000" attempt "30 * 1000000000"] by (simp add: Let_def min_def)
next
  case False
  let ?base = "100 * 1000000 :: 64 word" and ?s = "exp_shift attempt"
  have "(2 :: int) ^ 37 dvd 2 ^ ?s" using False by (intro le_imp_power_dvd) simp
  then have "(2 :: int) ^ 8 * 2 ^ 37 dvd 100000000 * 2 ^ ?s" by (intro mult_dvd_mono) simp_all
  then have "2 ^ 45 dvd sint (push_bit ?s ?base)" by (intro push_bit_dvd) simp_all
  then have "sint (push_bit ?s ?base) \<le> 0 \<or> 2 ^ 45 \<le> sint (push_bit ?s ?base)"
    by (meson linorder_not_less zdvd_imp_le)
  then have "exp_computed ?base (30 * 1000000000) attempt = 30 * 1000000000"
    by (auto simp: exp_computed_def Let_def)
  moreover have "(2 :: int) ^ 37 \<le> 2 ^ ?s" using False by (intro power_increasing) auto
  ultimately show ?thesis by (simp add: min_def)
qed

section \<open>Adapters for stateful sources\<close>

text \<open>
  A stateful source is a state and a function that yields a delay and the next state. The
  factory makes a fresh one on each call; the loop advances it \<open>attempt\<close> times.
\<close>

definition Stop :: int where
  "Stop = -1"

fun next_backoff_loop :: "('b \<Rightarrow> int \<times> 'b) \<Rightarrow> nat \<Rightarrow> 'b \<Rightarrow> int \<Rightarrow> int" where
  "next_backoff_loop nextB 0 b d = d"
| "next_backoff_loop nextB (Suc n) b d =
     (case nextB b of (d', b') \<Rightarrow> if d' = Stop then 0 else next_backoff_loop nextB n b' d')"

definition FromNextBackOff :: "('b \<Rightarrow> int \<times> 'b) \<Rightarrow> (nat \<Rightarrow> 'b) \<Rightarrow> backoff" where
  "FromNextBackOff nextB newB k attempt =
     (let attempt = (if attempt < 1 then 1 else attempt)
      in Return (next_backoff_loop nextB (nat attempt) (newB k) 0))"

fun nexter_loop :: "('b \<Rightarrow> (int \<times> bool) \<times> 'b) \<Rightarrow> nat \<Rightarrow> 'b \<Rightarrow> int \<Rightarrow> int" where
  "nexter_loop nextB 0 b d = d"
| "nexter_loop nextB (Suc n) b d =
     (case nextB b of ((d', stop), b') \<Rightarrow> if stop then 0 else nexter_loop nextB n b' d')"

definition FromNexter :: "('b \<Rightarrow> (int \<times> bool) \<times> 'b) \<Rightarrow> (nat \<Rightarrow> 'b) \<Rightarrow> backoff" where
  "FromNexter nextB newB k attempt =
     (let attempt = (if attempt < 1 then 1 else attempt)
      in Return (nexter_loop nextB (nat attempt) (newB k) 0))"

text \<open>Specification: the delays the source yields one after the other.\<close>

fun source_state :: "('b \<Rightarrow> 'r \<times> 'b) \<Rightarrow> nat \<Rightarrow> 'b \<Rightarrow> 'b" where
  "source_state nextB 0 b = b"
| "source_state nextB (Suc n) b = source_state nextB n (snd (nextB b))"

definition nth_yield :: "('b \<Rightarrow> 'r \<times> 'b) \<Rightarrow> 'b \<Rightarrow> nat \<Rightarrow> 'r" where
  "nth_yield nextB b i = fst (nextB (source_state nextB i b))"

lemma nth_yield_0: "nth_yield nextB b 0 = fst (nextB b)"
  by (simp add: nth_yield_def)

lemma nth_yield_Suc: "nth_yield nextB b (Suc i) = nth_yield nextB (snd (nextB b)) i"
  by (simp add: nth_yield_def)

lemma next_backoff_loop_spec:
  "next_backoff_loop nextB (Suc n) b d =
     (if \<exists>i \<le> n. nth_yield nextB b i = Stop then 0 else nth_yield nextB b n)"
proof (induction n arbitrary: b d)
  case 0
  then show ?case by (simp add: nth_yield_0 split: prod.splits)
next
  case (Suc n)
  obtain d' b' where nb: "nextB b = (d', b')" by fastforce
  have ex: "(\<exists>i \<le> Suc n. nth_yield nextB b i = Stop) \<longleftrightarrow>
      d' = Stop \<or> (\<exists>i \<le> n. nth_yield nextB b' i = Stop)"
    by (metis (no_types, lifting) Suc_le_mono fst_conv le0 nb not0_implies_Suc nth_yield_0
        nth_yield_Suc snd_conv)
  have "next_backoff_loop nextB (Suc (Suc n)) b d =
      (if d' = Stop then 0 else next_backoff_loop nextB (Suc n) b' d')"
    by (simp add: nb)
  then show ?case
    unfolding Suc.IH ex by (auto simp: nb nth_yield_Suc)
qed

lemma nexter_loop_spec:
  "nexter_loop nextB (Suc n) b d =
     (if \<exists>i \<le> n. snd (nth_yield nextB b i) then 0 else fst (nth_yield nextB b n))"
proof (induction n arbitrary: b d)
  case 0
  then show ?case by (simp add: nth_yield_0 split: prod.splits)
next
  case (Suc n)
  obtain d' st b' where nb: "nextB b = ((d', st), b')" by (metis surj_pair)
  have ex: "(\<exists>i \<le> Suc n. snd (nth_yield nextB b i)) \<longleftrightarrow>
      st \<or> (\<exists>i \<le> n. snd (nth_yield nextB b' i))"
    by (metis (no_types, lifting) Suc_le_mono fst_conv le0 nb not0_implies_Suc nth_yield_0
        nth_yield_Suc snd_conv)
  have "nexter_loop nextB (Suc (Suc n)) b d =
      (if st then 0 else nexter_loop nextB (Suc n) b' d')"
    by (simp add: nb)
  then show ?case
    unfolding Suc.IH ex by (auto simp: nb nth_yield_Suc)
qed

section \<open>The contract the relay relies on\<close>

text \<open>
  A strategy is bounded when no delay it returns exceeds the cap. The relay's bound on
  retry delays is proved from this contract.
\<close>

locale bounded_backoff =
  fixes strategy :: backoff and cap :: int
  assumes bounded: "strategy k attempt = Return d \<Longrightarrow> d \<le> cap"

interpretation default_backoff: bounded_backoff "Default_backoff raw" "30 * 1000000000" for raw
proof unfold_locales
  fix k attempt d
  assume "Default_backoff raw k attempt = Return d"
  then show "d \<le> 30 * 1000000000"
    using Exp_Return_le [of raw "100 * 1000000" "30 * 1000000000" True k attempt d]
    by (simp add: Default_backoff_def)
qed

section \<open>Properties\<close>

text \<open>C34. The default strategy never panics, whatever the attempt number and the random bits, and
  its delay lies between zero and the smaller of 100 ms doubled per attempt and 30 s; the shift
  stays below 63, so no attempt number overflows it.\<close>

theorem default_backoff_range:
  "\<exists>d. Default_backoff raw k attempt = Return d \<and> 0 \<le> d \<and>
     d \<le> min (100 * 1000000 * 2 ^ exp_shift attempt) (30 * 1000000000)"
proof -
  let ?c = "exp_computed (100 * 1000000) (30 * 1000000000) attempt"
  have c: "sint ?c = min (100 * 1000000 * 2 ^ exp_shift attempt) (30 * 1000000000)"
    by (rule exp_default_exact)
  have pos: "0 < sint ?c" unfolding c by simp
  have "sint ?c \<le> 30 * 1000000000" unfolding c by simp
  then have suc: "sint (?c + 1) = sint ?c + 1"
    using pos by (simp add: sint_word_ariths signed_take_bit_int_eq_self)
  then obtain d where d: "Int64N (raw k) (?c + 1) = Return d"
    using pos by (auto simp: Int64N_def)
  then have "0 \<le> sint d \<and> sint d \<le> min (100 * 1000000 * 2 ^ exp_shift attempt) (30 * 1000000000)"
    using Int64N_bounds [OF d] suc unfolding c by linarith
  moreover have "Default_backoff raw k attempt = Return (sint d)"
    using pos d by (simp add: Default_backoff_def Exp_def exp_delay_def Let_def)
  ultimately show ?thesis by blast
qed

text \<open>C40. \<open>Exp\<close> at the limits of 64 bits, for any positive base and with jitter off: while the base doubled
  with every attempt after the first, at most 62 times, stays below 2^63 the uncapped strategy returns it exactly. Beyond, the shift wraps, and the guard
  \<open>d < base\<close> sees it only when the wrapped value falls below the base: then the cap takes its place,
  which for an uncapped strategy (documented as cap 0, "no cap") is a delay of zero, with jitter too; otherwise
  the wrapped value itself is returned, shorter than the delay asked for and possibly below
  the cap. And with jitter the strategy panics for exactly one computed delay, the largest duration.\<close>

theorem exp_uncapped_overflow:
  assumes "0 < sint base"
  shows "(let exact = sint base * 2 ^ nat (min 62 (max 1 attempt - 1)); wrapped = signed_take_bit 63 exact in
      (exact < 2 ^ 63 \<longrightarrow> Exp raw base 0 False k attempt = Return exact) \<and>
      (2 ^ 63 \<le> exact \<longrightarrow>
        Exp raw base 0 False k attempt = Return (if wrapped < sint base then 0 else wrapped) \<and> wrapped < exact \<and>
        (wrapped < sint base \<longrightarrow> Exp raw base 0 jitter k attempt = Return 0) \<and>
        (0 < sint maxDelay \<longrightarrow> Exp raw base maxDelay False k attempt =
          Return (if wrapped < sint base then sint maxDelay else min wrapped (sint maxDelay))))) \<and>
    ((\<exists>v. Exp raw base maxDelay jitter k attempt = Panic v) \<longleftrightarrow>
      jitter \<and> sint (exp_computed base maxDelay attempt) = 2 ^ 63 - 1)"
proof -
  let ?exact = "sint base * 2 ^ exp_shift attempt"
  let ?wrapped = "signed_take_bit 63 ?exact"
  have shifted: "sint (push_bit (exp_shift attempt) base) = ?wrapped" by (rule sint_push_bit)
  have "sint base * 1 \<le> ?exact" using assms by (intro mult_left_mono) auto
  then have below: "sint base \<le> ?exact" by simp
  have "- (2 ^ 63) \<le> (0 :: int)" by simp
  also have "0 \<le> ?exact" using assms by simp
  finally have "- (2 ^ 63) \<le> ?exact" .
  then have "?wrapped = ?exact \<and> sint base \<le> ?exact" if "?exact < 2 ^ 63"
    using that below by (intro conjI signed_take_bit_int_eq_self) simp_all
  moreover have "?wrapped < 2 ^ 63" by (rule signed_take_bit_int_less_exp)
  ultimately show ?thesis
    unfolding exp_panics_iff exp_shift_eq [symmetric] Let_def
    by (auto simp: Exp_def exp_delay_def exp_computed_def Let_def shifted min_def)
qed

text \<open>A base of one second wraps to a negative number at attempt 35, which the guard replaces by zero; one of
  5 ns wraps to 2^62 ns (146 years) at attempt 63, which it does not see; one of about 17 s with a cap of an
  hour retries after 26 s at attempt 34.\<close>

theorem exp_uncapped_overflow_witness:
  "Exp (\<lambda>_. 0) 1000000000 0 True 0 35 = Return 0 \<and>
   Exp (\<lambda>_. 0) 5 0 False 0 63 = Return (2 ^ 62) \<and>
   Exp (\<lambda>_. 0) 17179869187 3600000000000 False 0 34 = Return 25769803776 \<and>
   (\<exists>v. Exp (\<lambda>_. 0) 9223372036854775807 0 True 0 1 = Panic v)"
  using exp_uncapped_overflow [of 1000000000 35 "\<lambda>_. 0" 0 True 0]
    exp_uncapped_overflow [of 5 63 "\<lambda>_. 0" 0 True 0]
    exp_uncapped_overflow [of 17179869187 34 "\<lambda>_. 0" 0 True 3600000000000]
    exp_uncapped_overflow [of 9223372036854775807 1 "\<lambda>_. 0" 0 True 0]
  by (simp add: exp_shift_def exp_computed_def signed_take_bit_eq_if_positive take_bit_eq_mod Let_def)

text \<open>Both adapters return what a fresh source yields at the attempt's position, or zero if the
  source has signalled a stop by then (\<open>FromNextBackOff\<close> by the delay \<open>Stop\<close>, \<open>FromNexter\<close> by its flag);
  attempts below one count as one, and neither ever panics.\<close>

theorem from_next_backoff_spec:
  "FromNextBackOff nextB newB k attempt =
     (let n = nat (max 1 attempt) - 1
      in Return (if \<exists>i \<le> n. nth_yield nextB (newB k) i = Stop then 0 else nth_yield nextB (newB k) n)) \<and>
   FromNexter nextN newN k attempt =
     (let n = nat (max 1 attempt) - 1
      in Return (if \<exists>i \<le> n. snd (nth_yield nextN (newN k) i) then 0 else fst (nth_yield nextN (newN k) n)))"
proof -
  obtain n where n: "nat (max 1 attempt) = Suc n"
    by (cases "nat (max 1 attempt)") auto
  have "FromNextBackOff nextB newB k attempt = Return (next_backoff_loop nextB (nat (max 1 attempt)) (newB k) 0)"
    "FromNexter nextN newN k attempt = Return (nexter_loop nextN (nat (max 1 attempt)) (newN k) 0)"
    by (simp_all add: FromNextBackOff_def FromNexter_def max_def)
  then show ?thesis
    unfolding n next_backoff_loop_spec nexter_loop_spec Let_def by auto
qed

end
