(* ===== verification/Config.thy ===== *)
theory Config
  imports Port Backoff
begin

text \<open>
  The runtime settings of \<^verbatim>\<open>config/config.go\<close>: the settings record, the functional options that
  change it, the declarative configuration, and \<open>Resolve\<close>, which applies the options and
  normalizes the bounds. Durations are nanoseconds. A nilable field is an option value; the classifier, as
  the caller's code, may panic.
\<close>

section \<open>Settings and options\<close>

datatype logger = DiscardLogger | UserLogger nat

record settings =
  s_InstanceID :: string
  s_Schema :: string
  s_PollInterval :: int
  s_BatchSize :: int
  s_LeaseDuration :: int
  s_Concurrency :: int
  s_MaxAttempts :: int
  s_Backoff :: "backoff option"
  s_Retention :: int
  s_DeadRetention :: int
  s_DiscardRetention :: int
  s_ClearPayloadOnComplete :: bool
  s_PublishTimeout :: int
  s_CleanupInterval :: int
  s_Ordered :: bool
  s_Notify :: bool
  s_ListenPool :: "nat option"
  s_Fatal :: "(nat \<Rightarrow> goerr \<Rightarrow> bool res) option"
  s_Hooks :: "hooks option"
  s_Codec :: "codec option"
  s_Logger :: "logger option"

definition second :: int where
  "second = 1000000000"

definition neverFatal :: "nat \<Rightarrow> goerr \<Rightarrow> bool res" where
  "neverFatal _ _ = Return False"

text \<open>The argument of \<open>Default\<close> is the source of the random bits of \<open>backoff.Default\<close>.\<close>

definition Default :: "(nat \<Rightarrow> 64 word) \<Rightarrow> settings" where
  "Default raw =
     \<lparr>s_InstanceID = '''', s_Schema = ''public'', s_PollInterval = second, s_BatchSize = 100,
      s_LeaseDuration = 30 * second, s_Concurrency = 1, s_MaxAttempts = 10,
      s_Backoff = Some (Default_backoff raw), s_Retention = 0, s_DeadRetention = 0,
      s_DiscardRetention = 0, s_ClearPayloadOnComplete = False, s_PublishTimeout = 0,
      s_CleanupInterval = 0, s_Ordered = False, s_Notify = True, s_ListenPool = None,
      s_Fatal = Some neverFatal, s_Hooks = Some NoopHooks, s_Codec = None,
      s_Logger = Some DiscardLogger\<rparr>"

type_synonym option_fn = "settings \<Rightarrow> settings"

record config =
  c_Schema :: string
  c_PollInterval :: int
  c_BatchSize :: int
  c_LeaseDuration :: int
  c_Concurrency :: int
  c_MaxAttempts :: int
  c_Retention :: int
  c_DeadRetention :: int
  c_DiscardRetention :: int
  c_ClearPayloadOnComplete :: bool
  c_PublishTimeout :: int
  c_CleanupInterval :: int
  c_Ordered :: bool
  c_DisableNotify :: bool

definition WithConfig :: "config \<Rightarrow> option_fn" where
  "WithConfig c s = s
     \<lparr>s_Schema := c_Schema c,
      s_PollInterval := c_PollInterval c,
      s_BatchSize := c_BatchSize c,
      s_LeaseDuration := c_LeaseDuration c,
      s_Concurrency := c_Concurrency c,
      s_MaxAttempts := c_MaxAttempts c,
      s_Retention := c_Retention c,
      s_DeadRetention := c_DeadRetention c,
      s_DiscardRetention := c_DiscardRetention c,
      s_ClearPayloadOnComplete := c_ClearPayloadOnComplete c,
      s_PublishTimeout := c_PublishTimeout c,
      s_CleanupInterval := c_CleanupInterval c,
      s_Ordered := c_Ordered c,
      s_Notify := \<not> c_DisableNotify c\<rparr>"

definition WithInstanceID :: "string \<Rightarrow> option_fn" where
  "WithInstanceID ident s = s\<lparr>s_InstanceID := ident\<rparr>"

definition WithSchema :: "string \<Rightarrow> option_fn" where
  "WithSchema schema s = s\<lparr>s_Schema := schema\<rparr>"

definition WithPollInterval :: "int \<Rightarrow> option_fn" where
  "WithPollInterval d s = s\<lparr>s_PollInterval := d\<rparr>"

definition WithBatchSize :: "int \<Rightarrow> option_fn" where
  "WithBatchSize n s = s\<lparr>s_BatchSize := n\<rparr>"

definition WithLeaseDuration :: "int \<Rightarrow> option_fn" where
  "WithLeaseDuration d s = s\<lparr>s_LeaseDuration := d\<rparr>"

definition WithConcurrency :: "int \<Rightarrow> option_fn" where
  "WithConcurrency n s = s\<lparr>s_Concurrency := n\<rparr>"

definition WithMaxAttempts :: "int \<Rightarrow> option_fn" where
  "WithMaxAttempts n s = s\<lparr>s_MaxAttempts := n\<rparr>"

definition WithRetryBackoff :: "backoff option \<Rightarrow> option_fn" where
  "WithRetryBackoff b s = (if b \<noteq> None then s\<lparr>s_Backoff := b\<rparr> else s)"

definition WithRetention :: "int \<Rightarrow> option_fn" where
  "WithRetention ttl s = s\<lparr>s_Retention := ttl\<rparr>"

definition WithDeadRetention :: "int \<Rightarrow> option_fn" where
  "WithDeadRetention ttl s = s\<lparr>s_DeadRetention := ttl\<rparr>"

definition WithDiscardRetention :: "int \<Rightarrow> option_fn" where
  "WithDiscardRetention ttl s = s\<lparr>s_DiscardRetention := ttl\<rparr>"

definition WithClearPayloadOnComplete :: "bool \<Rightarrow> option_fn" where
  "WithClearPayloadOnComplete enabled s = s\<lparr>s_ClearPayloadOnComplete := enabled\<rparr>"

definition WithPublishTimeout :: "int \<Rightarrow> option_fn" where
  "WithPublishTimeout d s = s\<lparr>s_PublishTimeout := d\<rparr>"

definition WithCleanupInterval :: "int \<Rightarrow> option_fn" where
  "WithCleanupInterval d s = s\<lparr>s_CleanupInterval := d\<rparr>"

definition WithOrdered :: "bool \<Rightarrow> option_fn" where
  "WithOrdered v s = s\<lparr>s_Ordered := v\<rparr>"

definition WithoutNotify :: option_fn where
  "WithoutNotify s = s\<lparr>s_Notify := False\<rparr>"

definition WithListenPool :: "nat option \<Rightarrow> option_fn" where
  "WithListenPool p s = s\<lparr>s_ListenPool := p\<rparr>"

definition WithFatal :: "(nat \<Rightarrow> goerr \<Rightarrow> bool res) option \<Rightarrow> option_fn" where
  "WithFatal f s = (if f \<noteq> None then s\<lparr>s_Fatal := f\<rparr> else s)"

definition WithHooks :: "hooks option \<Rightarrow> option_fn" where
  "WithHooks h s = (if h \<noteq> None then s\<lparr>s_Hooks := h\<rparr> else s)"

definition WithCodec :: "codec option \<Rightarrow> option_fn" where
  "WithCodec c s = s\<lparr>s_Codec := c\<rparr>"

definition WithLogger :: "logger option \<Rightarrow> option_fn" where
  "WithLogger l s = (if l \<noteq> None then s\<lparr>s_Logger := l\<rparr> else s)"

section \<open>Resolve\<close>

text \<open>\<open>hex.EncodeToString\<close>: two lower-case digits per byte.\<close>

definition hex_digit :: "nat \<Rightarrow> char" where
  "hex_digit d = (if d < 10 then char_of (48 + d) else char_of (87 + d))"

fun hex_encode :: "8 word list \<Rightarrow> string" where
  "hex_encode [] = []"
| "hex_encode (b # bs) = hex_digit (unat b div 16) # hex_digit (unat b mod 16) # hex_encode bs"

text \<open>
  The eight random bytes and the host name (\<open>None\<close> when \<open>os.Hostname\<close> fails) are inputs.
\<close>

definition generateInstanceID :: "8 word list \<Rightarrow> string option \<Rightarrow> string" where
  "generateInstanceID b hostname =
     (let suffix = hex_encode b
      in case hostname of
           Some host \<Rightarrow> (if host \<noteq> '''' then host @ ''-'' @ suffix else ''outbox-'' @ suffix)
         | None \<Rightarrow> ''outbox-'' @ suffix)"

definition normalize :: "settings \<Rightarrow> 8 word list \<Rightarrow> string option \<Rightarrow> settings \<Rightarrow> settings" where
  "normalize d b hostname s = s
     \<lparr>s_Schema := if s_Schema s = '''' then s_Schema d else s_Schema s,
      s_PollInterval := if s_PollInterval s \<le> 0 then s_PollInterval d else s_PollInterval s,
      s_LeaseDuration := if s_LeaseDuration s \<le> 0 then s_LeaseDuration d else s_LeaseDuration s,
      s_BatchSize := if s_BatchSize s < 1 then s_BatchSize d else s_BatchSize s,
      s_Concurrency := if s_Concurrency s < 1 then s_Concurrency d else s_Concurrency s,
      s_MaxAttempts := if s_MaxAttempts s < 1 then s_MaxAttempts d else s_MaxAttempts s,
      s_Backoff := if s_Backoff s = None then s_Backoff d else s_Backoff s,
      s_Fatal := if s_Fatal s = None then s_Fatal d else s_Fatal s,
      s_Hooks := if s_Hooks s = None then s_Hooks d else s_Hooks s,
      s_Logger := if s_Logger s = None then s_Logger d else s_Logger s,
      s_InstanceID := if s_InstanceID s = '''' then generateInstanceID b hostname
                      else s_InstanceID s\<rparr>"

definition Resolve ::
  "(nat \<Rightarrow> 64 word) \<Rightarrow> 8 word list \<Rightarrow> string option \<Rightarrow> option_fn list \<Rightarrow> settings" where
  "Resolve raw b hostname opts =
     normalize (Default raw) b hostname (fold (\<lambda>opt s. opt s) opts (Default raw))"

text \<open>What the engine takes for granted of the settings it runs with.\<close>

definition runnable :: "settings \<Rightarrow> bool" where
  "runnable s \<longleftrightarrow>
     s_InstanceID s \<noteq> '''' \<and> s_Schema s \<noteq> '''' \<and> 0 < s_PollInterval s \<and> 1 \<le> s_BatchSize s \<and>
     0 < s_LeaseDuration s \<and> 1 \<le> s_Concurrency s \<and> 1 \<le> s_MaxAttempts s \<and>
     s_Backoff s \<noteq> None \<and> s_Fatal s \<noteq> None \<and> s_Hooks s \<noteq> None \<and> s_Logger s \<noteq> None"

lemma generateInstanceID_nonempty: "generateInstanceID b hostname \<noteq> ''''"
  by (auto simp: generateInstanceID_def Let_def split: option.splits)

lemma Default_simps [simp]:
  "s_Schema (Default raw) = ''public''"
  "s_PollInterval (Default raw) = second"
  "s_BatchSize (Default raw) = 100"
  "s_LeaseDuration (Default raw) = 30 * second"
  "s_Concurrency (Default raw) = 1"
  "s_MaxAttempts (Default raw) = 10"
  "s_Backoff (Default raw) = Some (Default_backoff raw)"
  "s_Fatal (Default raw) = Some neverFatal"
  "s_Hooks (Default raw) = Some NoopHooks"
  "s_Logger (Default raw) = Some DiscardLogger"
  "s_InstanceID (Default raw) = ''''"
  by (simp_all add: Default_def)

lemma second_pos: "0 < second"
  by (simp add: second_def)

lemma normalize_sel:
  "s_Schema (normalize d b h s) = (if s_Schema s = '''' then s_Schema d else s_Schema s)"
  "s_PollInterval (normalize d b h s) =
     (if s_PollInterval s \<le> 0 then s_PollInterval d else s_PollInterval s)"
  "s_LeaseDuration (normalize d b h s) =
     (if s_LeaseDuration s \<le> 0 then s_LeaseDuration d else s_LeaseDuration s)"
  "s_BatchSize (normalize d b h s) = (if s_BatchSize s < 1 then s_BatchSize d else s_BatchSize s)"
  "s_Concurrency (normalize d b h s) =
     (if s_Concurrency s < 1 then s_Concurrency d else s_Concurrency s)"
  "s_MaxAttempts (normalize d b h s) =
     (if s_MaxAttempts s < 1 then s_MaxAttempts d else s_MaxAttempts s)"
  "s_Backoff (normalize d b h s) = (if s_Backoff s = None then s_Backoff d else s_Backoff s)"
  "s_Fatal (normalize d b h s) = (if s_Fatal s = None then s_Fatal d else s_Fatal s)"
  "s_Hooks (normalize d b h s) = (if s_Hooks s = None then s_Hooks d else s_Hooks s)"
  "s_Logger (normalize d b h s) = (if s_Logger s = None then s_Logger d else s_Logger s)"
  "s_InstanceID (normalize d b h s) =
     (if s_InstanceID s = '''' then generateInstanceID b h else s_InstanceID s)"
  "s_Retention (normalize d b h s) = s_Retention s"
  "s_DeadRetention (normalize d b h s) = s_DeadRetention s"
  "s_DiscardRetention (normalize d b h s) = s_DiscardRetention s"
  "s_ClearPayloadOnComplete (normalize d b h s) = s_ClearPayloadOnComplete s"
  "s_PublishTimeout (normalize d b h s) = s_PublishTimeout s"
  "s_CleanupInterval (normalize d b h s) = s_CleanupInterval s"
  "s_Ordered (normalize d b h s) = s_Ordered s"
  "s_Notify (normalize d b h s) = s_Notify s"
  "s_ListenPool (normalize d b h s) = s_ListenPool s"
  "s_Codec (normalize d b h s) = s_Codec s"
  "settings.more (normalize d b h s) = settings.more s"
  by (cases s; simp only: normalize_def settings.simps)+

lemma normalize_runnable: "runnable (normalize (Default raw) b hostname s)"
  unfolding runnable_def normalize_sel
  by (intro conjI) (simp_all add: second_def generateInstanceID_nonempty)

lemma normalize_id: "runnable s \<Longrightarrow> normalize d b hostname s = s"
  by (rule settings.equality) (auto simp: runnable_def normalize_sel)

section \<open>The schema identifier\<close>

definition ident_start :: "char \<Rightarrow> bool" where
  "ident_start c \<longleftrightarrow>
     (CHR ''A'' \<le> c \<and> c \<le> CHR ''Z'') \<or> (CHR ''a'' \<le> c \<and> c \<le> CHR ''z'') \<or> c = CHR ''_''"

definition ident_char :: "char \<Rightarrow> bool" where
  "ident_char c \<longleftrightarrow> ident_start c \<or> (CHR ''0'' \<le> c \<and> c \<le> CHR ''9'')"

text \<open>The regular expression \<^verbatim>\<open>^[A-Za-z_][A-Za-z0-9_]*$\<close>; in Go \<open>$\<close> is the end of the text.\<close>

fun ValidSchema :: "string \<Rightarrow> bool" where
  "ValidSchema [] = False"
| "ValidSchema (c # cs) = (ident_start c \<and> list_all ident_char cs)"

definition ErrInvalidSchema :: goerr where
  "ErrInvalidSchema = Plain ''outbox: invalid schema identifier''"

lemma ValidSchema_chars: "ValidSchema s \<Longrightarrow> c \<in> set s \<Longrightarrow> ident_char c"
  by (cases s) (auto simp: ident_char_def list_all_iff)

end
