(* ===== verification/Table.thy ===== *)
theory Table
  imports Message
begin

text \<open>
  The table \<^verbatim>\<open>outbox_messages\<close> and the meaning of the SQL statements of
  \<^verbatim>\<open>engine/store.go\<close>. A table is the list of its rows in physical order, a NULL is
  \<open>None\<close>. Each statement acts on the committed table as one atomic update; the instants
  \<open>now()\<close> and \<open>clock_timestamp()\<close>, the values of \<open>gen_random_uuid()\<close> and the rows
  locked by other transactions are arguments.
\<close>

section \<open>Rows\<close>

record row =
  r_id :: string
  r_topic :: string
  r_partition_key :: "string option"
  r_payload :: string
  r_headers :: "(string \<times> string) list"
  r_content_type :: "string option"
  r_message_type :: "string option"
  r_status :: status
  r_attempts :: int
  r_max_attempts :: "int option"
  r_locked_by :: "string option"
  r_locked_until :: "int option"
  r_next_attempt_at :: int
  r_last_error :: "string option"
  r_created_at :: int
  r_published_at :: "int option"
  r_lease_token :: "string option"
  r_finished_at :: "int option"
  r_seq :: int

text \<open>SQL's row comparison of the pair (created_at, seq), as a linear order of its own.\<close>

datatype order_key = OKey int int

instantiation order_key :: linorder
begin

fun less_eq_order_key :: "order_key \<Rightarrow> order_key \<Rightarrow> bool" where
  "less_eq_order_key (OKey a b) (OKey c d) = (a < c \<or> a = c \<and> b \<le> d)"

fun less_order_key :: "order_key \<Rightarrow> order_key \<Rightarrow> bool" where
  "less_order_key (OKey a b) (OKey c d) = (a < c \<or> a = c \<and> b < d)"

instance
proof
  fix x y z :: order_key
  show "(x < y) = (x \<le> y \<and> \<not> y \<le> x)"
    by (cases x; cases y) auto
  show "x \<le> x"
    by (cases x) auto
  show "x \<le> y \<Longrightarrow> y \<le> z \<Longrightarrow> x \<le> z"
    by (cases x; cases y; cases z) auto
  show "x \<le> y \<Longrightarrow> y \<le> x \<Longrightarrow> x = y"
    by (cases x; cases y) auto
  show "x \<le> y \<or> y \<le> x"
    by (cases x; cases y) auto
qed

end

definition row_order :: "row \<Rightarrow> order_key" where
  "row_order r = OKey (r_created_at r) (r_seq r)"

text \<open>
  The database as far as the outbox is concerned: the rows, the counters behind the \<open>seq\<close>
  column and \<open>gen_random_uuid()\<close> (the \<open>k\<close>-th generated value is \<open>gen k\<close> for a function \<open>gen\<close> the
  statements take as an argument), and the number of notifications sent.
\<close>

record database =
  d_rows :: "row list"
  d_seq :: int
  d_uuid :: nat
  d_notified :: nat

section \<open>Claim\<close>

text \<open>The WHERE clause of the candidate query, and its ordered-mode conjunct.\<close>

definition claimable :: "int \<Rightarrow> row \<Rightarrow> bool" where
  "claimable now r \<longleftrightarrow>
     r_next_attempt_at r \<le> now \<and>
     (r_status r = StatusPending \<or>
      r_status r = StatusProcessing \<and> lt_null (r_locked_until r) now)"

definition holds_back :: "row \<Rightarrow> row \<Rightarrow> bool" where
  "holds_back e r \<longleftrightarrow>
     r_partition_key r \<noteq> None \<and>
     r_partition_key e = r_partition_key r \<and>
     row_order e < row_order r \<and>
     r_status e \<noteq> StatusPublished \<and> r_status e \<noteq> StatusDiscarded"

definition held_back :: "row list \<Rightarrow> row \<Rightarrow> bool" where
  "held_back tbl r = list_ex (\<lambda>e. holds_back e r) tbl"

definition claim_candidates :: "bool \<Rightarrow> int \<Rightarrow> row list \<Rightarrow> row list" where
  "claim_candidates ordered now tbl =
     filter (\<lambda>r. claimable now r \<and> (ordered \<longrightarrow> \<not> held_back tbl r)) tbl"

text \<open>ORDER BY, FOR UPDATE SKIP LOCKED, LIMIT: locked rows do not count against the limit.\<close>

definition claim_pick ::
  "bool \<Rightarrow> int \<Rightarrow> int \<Rightarrow> (string \<Rightarrow> bool) \<Rightarrow> row list \<Rightarrow> row list" where
  "claim_pick ordered batch now locked tbl =
     take (nat batch)
       (filter (\<lambda>r. \<not> locked (r_id r)) (sort_key row_order (claim_candidates ordered now tbl)))"

definition claim_row :: "string \<Rightarrow> int \<Rightarrow> string \<Rightarrow> row \<Rightarrow> row" where
  "claim_row instance_id until token r = r
     \<lparr>r_status := StatusProcessing,
      r_locked_by := Some instance_id,
      r_locked_until := Some until,
      r_lease_token := Some token,
      r_attempts := r_attempts r + 1\<rparr>"

text \<open>
  The update draws one token per updated row; the result is the table, the updated rows and
  the number of the next token.
\<close>

fun claim_update ::
  "(nat \<Rightarrow> string) \<Rightarrow> string \<Rightarrow> int \<Rightarrow> string list \<Rightarrow> nat \<Rightarrow> row list \<Rightarrow> row list \<times> row list \<times> nat" where
  "claim_update gen inst until ids k [] = ([], [], k)"
| "claim_update gen inst until ids k (r # rs) =
     (if r_id r \<in> set ids
      then let r' = claim_row inst until (gen k) r;
               (tbl, out, k') = claim_update gen inst until ids (Suc k) rs
           in (r' # tbl, r' # out, k')
      else let (tbl, out, k') = claim_update gen inst until ids k rs
           in (r # tbl, out, k'))"

definition sql_claim ::
  "(nat \<Rightarrow> string) \<Rightarrow> nat \<Rightarrow> int \<Rightarrow> (string \<Rightarrow> bool) \<Rightarrow> bool \<Rightarrow> string \<Rightarrow> int \<Rightarrow> int \<Rightarrow>
     row list \<Rightarrow> row list \<times> row list \<times> nat" where
  "sql_claim gen k now locked ordered inst until batch tbl =
     claim_update gen inst until (map r_id (claim_pick ordered batch now locked tbl)) k tbl"

section \<open>Renew, finish, requeue, cleanup\<close>

text \<open>The fence: the attempt (id, token) still owns the row under an unexpired lease.\<close>

definition owned :: "(string \<times> string) list \<Rightarrow> int \<Rightarrow> row \<Rightarrow> bool" where
  "owned keys clk r \<longleftrightarrow>
     (case r_lease_token r of None \<Rightarrow> False | Some t \<Rightarrow> (r_id r, t) \<in> set keys) \<and>
     r_status r = StatusProcessing \<and> gt_null (r_locked_until r) clk"

definition sql_renew :: "(string \<times> string) list \<Rightarrow> int \<Rightarrow> int \<Rightarrow> row list \<Rightarrow> row list \<times> nat" where
  "sql_renew keys clk until tbl =
     (map (\<lambda>r. if owned keys clk r then r\<lparr>r_locked_until := Some until\<rparr> else r) tbl,
      length (filter (owned keys clk) tbl))"

definition finish_row ::
  "status \<Rightarrow> string option \<Rightarrow> int \<Rightarrow> int \<Rightarrow> bool \<Rightarrow> row \<Rightarrow> row" where
  "finish_row status reason clk next clear r =
     (let scrub = clear \<and> (status = StatusPublished \<or> status = StatusDiscarded)
      in r\<lparr>r_status := status,
           r_next_attempt_at := if status = StatusPending then next else r_next_attempt_at r,
           r_last_error := reason,
           r_published_at := if status = StatusPublished then Some clk else None,
           r_finished_at := if status = StatusPending then None else Some clk,
           r_payload := if scrub then '''' else r_payload r,
           r_headers := if scrub then [] else r_headers r,
           r_locked_by := None, r_locked_until := None, r_lease_token := None\<rparr>)"

definition sql_finish ::
  "(string \<times> string) list \<Rightarrow> status \<Rightarrow> string option \<Rightarrow> int \<Rightarrow> int \<Rightarrow> bool \<Rightarrow>
     row list \<Rightarrow> row list \<times> row list" where
  "sql_finish keys status reason clk next clear tbl =
     (map (\<lambda>r. if owned keys clk r then finish_row status reason clk next clear r else r) tbl,
      map (finish_row status reason clk next clear) (filter (owned keys clk) tbl))"

definition requeue_row :: "int \<Rightarrow> row \<Rightarrow> row" where
  "requeue_row clk r = r
     \<lparr>r_status := StatusPending, r_attempts := 0, r_next_attempt_at := clk,
      r_last_error := None, r_finished_at := None, r_published_at := None,
      r_locked_by := None, r_locked_until := None, r_lease_token := None\<rparr>"

definition requeuable :: "string \<Rightarrow> row \<Rightarrow> bool" where
  "requeuable ident r \<longleftrightarrow> r_id r = ident \<and> r_status r = StatusDead"

definition sql_requeue :: "string \<Rightarrow> int \<Rightarrow> row list \<Rightarrow> row list \<times> nat" where
  "sql_requeue ident clk tbl =
     (map (\<lambda>r. if requeuable ident r then requeue_row clk r else r) tbl,
      length (filter (requeuable ident) tbl))"

text \<open>
  Cleanup: each retention is a flag (the parameter is positive) and the cut-off instant
  \<open>now() - make_interval(...)\<close>. \<open>ORDER BY COALESCE(finished_at, published_at), id\<close> sorts
  NULLs last.
\<close>

record retention =
  rt_published :: "bool \<times> int"
  rt_dead :: "bool \<times> int"
  rt_discarded :: "bool \<times> int"

definition expired :: "retention \<Rightarrow> row \<Rightarrow> bool" where
  "expired rt r \<longleftrightarrow>
     fst (rt_published rt) \<and> r_status r = StatusPublished \<and>
       lt_null (r_published_at r) (snd (rt_published rt)) \<or>
     fst (rt_dead rt) \<and> r_status r = StatusDead \<and>
       lt_null (r_finished_at r) (snd (rt_dead rt)) \<or>
     fst (rt_discarded rt) \<and> r_status r = StatusDiscarded \<and>
       lt_null (r_finished_at r) (snd (rt_discarded rt))"

definition cleanup_key :: "row \<Rightarrow> int \<times> int \<times> string" where
  "cleanup_key r =
     (case (r_finished_at r, r_published_at r) of
        (Some t, _) \<Rightarrow> (0, t, r_id r)
      | (None, Some t) \<Rightarrow> (0, t, r_id r)
      | (None, None) \<Rightarrow> (1, 0, r_id r))"

definition cleanup_pick :: "retention \<Rightarrow> int \<Rightarrow> (string \<Rightarrow> bool) \<Rightarrow> row list \<Rightarrow> row list" where
  "cleanup_pick rt batch locked tbl =
     take (nat batch)
       (filter (\<lambda>r. \<not> locked (r_id r)) (sort_key cleanup_key (filter (expired rt) tbl)))"

definition sql_cleanup :: "retention \<Rightarrow> int \<Rightarrow> (string \<Rightarrow> bool) \<Rightarrow> row list \<Rightarrow> row list \<times> nat" where
  "sql_cleanup rt batch locked tbl =
     (let ids = map r_id (cleanup_pick rt batch locked tbl)
      in (filter (\<lambda>r. r_id r \<notin> set ids) tbl, length (filter (\<lambda>r. r_id r \<in> set ids) tbl)))"

section \<open>Insert\<close>

text \<open>
  One VALUES row of the INSERT after its casts: \<open>v_id\<close> is \<open>None\<close> for a NULL, which
  \<open>COALESCE\<close> replaces by a generated id. The remaining columns take their defaults.
  Every proposed row consumes a value of the \<open>seq\<close> sequence, also one that
  \<open>ON CONFLICT (id) DO NOTHING\<close> skips.
\<close>

record new_row =
  v_id :: "string option"
  v_topic :: string
  v_partition_key :: "string option"
  v_payload :: string
  v_headers :: "(string \<times> string) list"
  v_content_type :: "string option"
  v_message_type :: "string option"
  v_max_attempts :: "int option"

definition fresh_row :: "string \<Rightarrow> int \<Rightarrow> int \<Rightarrow> new_row \<Rightarrow> row" where
  "fresh_row ident now seq v =
     \<lparr>r_id = ident, r_topic = v_topic v, r_partition_key = v_partition_key v,
      r_payload = v_payload v, r_headers = v_headers v, r_content_type = v_content_type v,
      r_message_type = v_message_type v, r_status = StatusPending, r_attempts = 0,
      r_max_attempts = v_max_attempts v, r_locked_by = None, r_locked_until = None,
      r_next_attempt_at = now, r_last_error = None, r_created_at = now, r_published_at = None,
      r_lease_token = None, r_finished_at = None, r_seq = seq\<rparr>"

fun sql_insert ::
  "(nat \<Rightarrow> string) \<Rightarrow> int \<Rightarrow> nat \<Rightarrow> int \<Rightarrow> new_row list \<Rightarrow> row list \<Rightarrow> row list \<times> nat \<times> int" where
  "sql_insert gen now k seq [] tbl = (tbl, k, seq)"
| "sql_insert gen now k seq (v # vs) tbl =
     (let (ident, k') = (case v_id v of Some i \<Rightarrow> (i, k) | None \<Rightarrow> (gen k, Suc k))
      in if ident \<in> set (map r_id tbl) then sql_insert gen now k' (seq + 1) vs tbl
         else sql_insert gen now k' (seq + 1) vs (tbl @ [fresh_row ident now seq v]))"

end
