(* ===== verification/Engine.thy ===== *)
theory Engine
  imports Config Table
begin

text \<open>
  The world the Go code of \<^verbatim>\<open>engine/\<close> runs in. Its state is the committed
  database, a tick that numbers every interaction with
  the outside, and the log of calls to user code. Everything the program does not decide is a
  component of the environment, indexed by the tick: what an \<open>Executor\<close> call returns, the
  clocks, what other sessions commit meanwhile, which rows they hold locked, whether the
  context is cancelled, what the publisher and the hooks do, and when the heartbeat's timer
  fires. A statement about all environments is a statement about all such behaviours.

  A Go method is a state transformer that returns or panics.
\<close>

section \<open>State and environment\<close>

record world =
  w_db :: database
  w_tick :: nat
  w_log :: "event list"

text \<open>
  An Executor call succeeds, returns an error or panics; in the last two cases the flag says
  whether the statement had been committed before (a lost acknowledgement).
\<close>

datatype call_outcome = CallOk | CallErr bool goerr | CallPanic bool goval

text \<open>
  What the heartbeat's \<open>select\<close> sees before the stop channel closes: the publisher's context
  is done, or the ticker fires; the flag of a tick is the value of \<open>ctx.Err() != nil\<close> read after
  a failed renewal.
\<close>

datatype beat = BeatDone | BeatTick bool

text \<open>
  \<open>e_now\<close> is the start of the statement's transaction, \<open>e_clk\<close> the reading of \<open>clock_timestamp()\<close>: one for
  a statement, where PostgreSQL reads the clock again for each row it updates.
\<close>

record env =
  e_call :: "nat \<Rightarrow> call_outcome"
  e_now :: "nat \<Rightarrow> int"
  e_clk :: "nat \<Rightarrow> int"
  e_gen :: "nat \<Rightarrow> string"
  e_uuid_in :: "string \<Rightarrow> string option"
  e_text_ok :: "string \<Rightarrow> bool"
  e_sql_error :: goerr
  e_interval :: "int \<Rightarrow> int"
  e_others :: "nat \<Rightarrow> database \<Rightarrow> database"
  e_locked :: "nat \<Rightarrow> string \<Rightarrow> bool"
  e_returning :: "nat \<Rightarrow> row list \<Rightarrow> row list"
  e_done :: "nat \<Rightarrow> bool"
  e_publish :: "nat \<Rightarrow> message list \<Rightarrow> goerr option res"
  e_beats :: "nat \<Rightarrow> beat list"
  e_hook :: "nat \<Rightarrow> goval option"

section \<open>Effectful operations\<close>

type_synonym 'a go = "world \<Rightarrow> 'a res \<times> world"

definition ret_go :: "'a \<Rightarrow> 'a go" where
  "ret_go x w = (Return x, w)"

definition panic_go :: "goval \<Rightarrow> 'a go" where
  "panic_go v w = (Panic v, w)"

definition bind_go :: "'a go \<Rightarrow> ('a \<Rightarrow> 'b go) \<Rightarrow> 'b go" where
  "bind_go m f w = (case m w of (Return x, w') \<Rightarrow> f x w' | (Panic v, w') \<Rightarrow> (Panic v, w'))"

text \<open>\<open>recovered\<close> of \<^verbatim>\<open>engine/relay.go\<close>: a panic becomes a \<open>PanicError\<close> result.\<close>

definition recovered :: "goerr option go \<Rightarrow> goerr option go" where
  "recovered fn w = (case fn w of (Return e, w') \<Rightarrow> (Return e, w')
                                | (Panic v, w') \<Rightarrow> (Return (Some (PanicError v)), w'))"

definition nil_dereference :: goval where
  "nil_dereference = Inr ''runtime error: invalid memory address or nil pointer dereference''"

definition emit :: "event \<Rightarrow> unit go" where
  "emit ev w = (Return (), w\<lparr>w_log := w_log w @ [ev]\<rparr>)"

definition take_tick :: "nat go" where
  "take_tick w = (Return (w_tick w), w\<lparr>w_tick := Suc (w_tick w)\<rparr>)"

text \<open>\<open>ctx.Err() != nil\<close>, read now.\<close>

definition ctx_done :: "env \<Rightarrow> bool go" where
  "ctx_done env = bind_go take_tick (\<lambda>n. ret_go (e_done env n))"

text \<open>A call of a hook: \<open>NoopHooks\<close> does nothing, user hooks may panic.\<close>

definition call_hook :: "env \<Rightarrow> settings \<Rightarrow> event \<Rightarrow> unit go" where
  "call_hook env cfg ev =
     (case s_Hooks cfg of
        None \<Rightarrow> panic_go nil_dereference
      | Some NoopHooks \<Rightarrow> emit ev
      | Some (UserHooks _) \<Rightarrow>
          bind_go (emit ev) (\<lambda>_. bind_go take_tick (\<lambda>n.
            case e_hook env n of None \<Rightarrow> ret_go () | Some v \<Rightarrow> panic_go v)))"

text \<open>
  A call of an \<open>Executor\<close> method with a statement: other sessions commit first, then the
  statement runs atomically.
\<close>

definition exec_call :: "env \<Rightarrow> (nat \<Rightarrow> database \<Rightarrow> (goerr + 'a) \<times> database) \<Rightarrow> (goerr + 'a) go" where
  "exec_call env stmt w =
     (let n = w_tick w;
          d1 = e_others env n (w_db w);
          (r, d2) = stmt n d1;
          at = (\<lambda>d. w\<lparr>w_tick := Suc n, w_db := d\<rparr>)
      in case e_call env n of
           CallOk \<Rightarrow> (Return r, at d2)
         | CallErr applied e \<Rightarrow> (Return (Inl e), at (if applied then d2 else d1))
         | CallPanic applied v \<Rightarrow> (Panic v, at (if applied then d2 else d1)))"

text \<open>\<open>for _, x := range xs { body }\<close> for a body without early exit.\<close>

fun for_each :: "('a \<Rightarrow> 'b go) \<Rightarrow> 'a list \<Rightarrow> 'b list go" where
  "for_each body [] = ret_go []"
| "for_each body (x # xs) =
     bind_go (body x) (\<lambda>y. bind_go (for_each body xs) (\<lambda>ys. ret_go (y # ys)))"

section \<open>Calculation rules\<close>

lemma ret_go_run: "ret_go x w = (Return x, w)"
  by (simp add: ret_go_def)

lemma panic_go_run: "panic_go v w = (Panic v, w)"
  by (simp add: panic_go_def)

lemma bind_go_Return: "m w = (Return x, w') \<Longrightarrow> bind_go m f w = f x w'"
  by (simp add: bind_go_def)

lemma bind_go_Panic: "m w = (Panic v, w') \<Longrightarrow> bind_go m f w = (Panic v, w')"
  by (simp add: bind_go_def)

lemma bind_go_ret [simp]: "bind_go (ret_go x) f = f x"
  by (simp add: bind_go_def ret_go_run fun_eq_iff)

lemma bind_go_panic [simp]: "bind_go (panic_go v) f = panic_go v"
  by (simp add: bind_go_def panic_go_run fun_eq_iff)

lemma bind_go_assoc: "bind_go (bind_go m f) g = bind_go m (\<lambda>x. bind_go (f x) g)"
  by (auto simp: bind_go_def fun_eq_iff split: prod.splits res.splits)

lemma emit_simps [simp]: "emit ev w = (Return (), w\<lparr>w_log := w_log w @ [ev]\<rparr>)"
  by (simp add: emit_def)

lemma take_tick_simps [simp]: "take_tick w = (Return (w_tick w), w\<lparr>w_tick := Suc (w_tick w)\<rparr>)"
  by (simp add: take_tick_def)

lemma ctx_done_simps [simp]:
  "ctx_done env w = (Return (e_done env (w_tick w)), w\<lparr>w_tick := Suc (w_tick w)\<rparr>)"
  by (simp add: ctx_done_def bind_go_def ret_go_run)

text \<open>Unfolding rules for running a method from a given world.\<close>

lemmas go_run = ret_go_run panic_go_run bind_go_def

lemma ret_go_ReturnD: "ret_go x w = (r, w') \<Longrightarrow> r = Return x \<and> w' = w"
  by (simp add: ret_go_run)

text \<open>Inversion of a composed call that returned.\<close>

lemma bind_go_ReturnE:
  assumes "bind_go m f w = (Return y, w'')"
  obtains x w' where "m w = (Return x, w')" and "f x w' = (Return y, w'')"
  using assms by (auto simp: bind_go_def split: prod.splits res.splits)

section \<open>Frames\<close>

text \<open>
  A frame is a reflexive and transitive relation between the databases before and after an
  operation, whatever the operation returns. Operations composed of operations that stay
  within the frame do so too; the rules are in the collection \<open>keeps\<close>.
\<close>

definition within :: "(database \<Rightarrow> database \<Rightarrow> bool) \<Rightarrow> 'a go \<Rightarrow> bool" where
  "within R m \<longleftrightarrow> (\<forall>w. R (w_db w) (w_db (snd (m w))))"

lemma withinI: "(\<And>w. R (w_db w) (w_db (snd (m w)))) \<Longrightarrow> within R m"
  by (simp add: within_def)

lemma withinD: "within R m \<Longrightarrow> R (w_db w) (w_db (snd (m w)))"
  by (simp add: within_def)

lemma within_run: "within R m \<Longrightarrow> m w = (r, w') \<Longrightarrow> R (w_db w) (w_db w')"
  by (metis snd_conv within_def)

locale db_frame =
  fixes R :: "database \<Rightarrow> database \<Rightarrow> bool"
  assumes frame_refl: "R d d"
    and frame_trans: "R d d' \<Longrightarrow> R d' d'' \<Longrightarrow> R d d''"
begin

lemma within_ret [keeps]: "within R (ret_go x)"
  by (simp add: within_def ret_go_run frame_refl)

lemma within_panic [keeps]: "within R (panic_go v)"
  by (simp add: within_def panic_go_run frame_refl)

lemma within_bind [keeps]:
  assumes "within R m" and "\<And>x. within R (f x)"
  shows "within R (bind_go m f)"
proof (rule withinI)
  fix w :: world
  obtain r w' where m: "m w = (r, w')" by fastforce
  have 1: "R (w_db w) (w_db w')"
    using assms(1) m by (rule within_run)
  show "R (w_db w) (w_db (snd (bind_go m f w)))"
  proof (cases r)
    case (Return x)
    then show ?thesis
      using m 1 withinD [OF assms(2), of w' x] by (auto simp: bind_go_def intro: frame_trans)
  next
    case (Panic v)
    then show ?thesis using m 1 by (simp add: bind_go_def)
  qed
qed

lemma within_recovered [keeps]:
  assumes "within R fn"
  shows "within R (recovered fn)"
proof (rule withinI)
  fix w :: world
  have "snd (recovered fn w) = snd (fn w)"
    by (auto simp: recovered_def split: prod.splits res.splits)
  then show "R (w_db w) (w_db (snd (recovered fn w)))"
    using withinD [OF assms] by simp
qed

lemma within_for_each [keeps]:
  "(\<And>x. within R (body x)) \<Longrightarrow> within R (for_each body xs)"
  by (induction xs) (auto intro!: keeps)

lemma within_emit [keeps]: "within R (emit ev)"
  by (simp add: within_def frame_refl)

lemma within_take_tick [keeps]: "within R take_tick"
  by (simp add: within_def frame_refl)

lemma within_ctx_done [keeps]: "within R (ctx_done env)"
  by (simp add: within_def frame_refl)

lemma within_call_hook [keeps]: "within R (call_hook env cfg ev)"
  unfolding call_hook_def
  by (auto split: option.splits hooks.splits intro!: keeps)

text \<open>An Executor call is within the frame when other sessions are and the statement is.\<close>

lemma within_exec_call:
  assumes "\<And>n d. R d (e_others env n d)" and "\<And>n d. R d (snd (stmt n d))"
  shows "within R (exec_call env stmt)"
proof (rule withinI)
  fix w :: world
  let ?d1 = "e_others env (w_tick w) (w_db w)"
  have "R (w_db w) (snd (stmt (w_tick w) ?d1))"
    using assms by (blast intro: frame_trans)
  then show "R (w_db w) (w_db (snd (exec_call env stmt w)))"
    using assms(1) by (auto simp: exec_call_def Let_def split: prod.splits call_outcome.splits)
qed

end

end
