(* ===== verification/Json.thy ===== *)
theory Json
  imports Config "HOL-Library.AList"
begin

text \<open>
  The headers of a message as JSON: what \<open>json.Marshal\<close> writes for a \<open>map[string]string\<close>, what
  a \<^verbatim>\<open>jsonb\<close> column makes of the text and prints for it, and what \<open>json.Unmarshal\<close> reads. A string is
  the list of its bytes. The database's encoding is UTF-8.
\<close>

section \<open>UTF-8\<close>

abbreviation byte :: "char \<Rightarrow> nat" where
  "byte c \<equiv> of_char c"

definition cont :: "char \<Rightarrow> bool" where
  "cont c \<longleftrightarrow> 0x80 \<le> byte c \<and> byte c \<le> 0xBF"

text \<open>The range of the second byte excludes overlong forms, surrogates and values beyond U+10FFFF.\<close>

definition second_ok :: "char \<Rightarrow> char \<Rightarrow> bool" where
  "second_ok a c \<longleftrightarrow>
     (if byte a = 0xE0 then 0xA0 else if byte a = 0xF0 then 0x90 else 0x80) \<le> byte c \<and>
     byte c \<le> (if byte a = 0xED then 0x9F else if byte a = 0xF4 then 0x8F else 0xBF)"

text \<open>\<open>utf8.DecodeRuneInString\<close>: the bytes of the rune a text begins with, 0 where it begins with none.\<close>

definition rune_len :: "string \<Rightarrow> nat" where
  "rune_len s =
     (case s of
        [] \<Rightarrow> 0
      | a # cs \<Rightarrow>
          (if byte a < 0x80 then 1
           else if 0xC2 \<le> byte a \<and> byte a \<le> 0xDF
           then (case cs of c # _ \<Rightarrow> if cont c then 2 else 0 | _ \<Rightarrow> 0)
           else if 0xE0 \<le> byte a \<and> byte a \<le> 0xEF
           then (case cs of c # d # _ \<Rightarrow> if second_ok a c \<and> cont d then 3 else 0 | _ \<Rightarrow> 0)
           else if 0xF0 \<le> byte a \<and> byte a \<le> 0xF4
           then (case cs of c # d # e # _ \<Rightarrow> if second_ok a c \<and> cont d \<and> cont e then 4 else 0 | _ \<Rightarrow> 0)
           else 0))"

text \<open>The replacement character U+FFFD, which stands for a byte that begins no rune.\<close>

definition rune_error :: string where
  "rune_error = [CHR 0xEF, CHR 0xBF, CHR 0xBD]"

fun clean :: "string \<Rightarrow> string" where
  "clean [] = []"
| "clean (a # cs) =
     (let n = rune_len (a # cs)
      in if n = 0 then rune_error @ clean cs
         else a # take (n - 1) cs @ clean (drop (n - 1) cs))"

text \<open>A text that is valid UTF-8.\<close>

fun valid :: "string \<Rightarrow> bool" where
  "valid [] = True"
| "valid (a # cs) = (let n = rune_len (a # cs) in n \<noteq> 0 \<and> valid (drop (n - 1) cs))"

lemma rune_len_ascii [simp]: "byte a < 0x80 \<Longrightarrow> rune_len (a # cs) = 1"
  by (simp add: rune_len_def)

lemma rune_len_le: "rune_len s \<le> length s"
  by (auto simp: rune_len_def split: list.splits if_splits)

lemma rune_len_append: "rune_len (a # cs) = Suc n \<Longrightarrow> rune_len (a # take n cs @ x) = Suc n"
  by (auto simp: rune_len_def split: list.splits if_splits)

lemma rune_bytes: "rune_len (a # cs) = Suc (Suc n) \<Longrightarrow> c \<in> set (a # take (Suc n) cs) \<Longrightarrow> 0x80 \<le> byte c"
  by (auto simp: rune_len_def cont_def second_ok_def split: list.splits if_splits)

lemma clean_rune: "rune_len (a # cs) = Suc n \<Longrightarrow> clean (a # take n cs @ x) = a # take n cs @ clean x"
proof -
  assume n: "rune_len (a # cs) = Suc n"
  have "length (take n cs) = n" using rune_len_le [of "a # cs"] n by simp
  then show ?thesis using rune_len_append [OF n] by simp
qed

lemma clean_error: "clean (rune_error @ x) = rune_error @ clean x"
  by (simp add: rune_error_def rune_len_def second_ok_def cont_def)

lemma clean_clean [simp]: "clean (clean s) = clean s"
proof (induction s rule: clean.induct)
  case (2 a cs)
  show ?case
  proof (cases "rune_len (a # cs)")
    case 0
    then show ?thesis using 2 by (simp add: clean_error)
  next
    case (Suc n)
    then show ?thesis using 2 clean_rune [OF Suc] by simp
  qed
qed simp

lemma clean_valid: "valid s \<Longrightarrow> clean s = s"
  by (induction s rule: valid.induct) (simp_all add: Let_def)

lemma valid_clean: "valid (clean s)"
proof (induction s rule: clean.induct)
  case (2 a cs)
  show ?case
  proof (cases "rune_len (a # cs)")
    case 0
    then show ?thesis using 2 by (simp add: rune_error_def rune_len_def second_ok_def cont_def)
  next
    case (Suc n)
    have "length (take n cs) = n" using rune_len_le [of "a # cs"] Suc by simp
    then show ?thesis using 2 Suc rune_len_append [OF Suc] by simp
  qed
qed simp

section \<open>Printing\<close>

abbreviation (input) bslash :: char where "bslash \<equiv> CHR 0x5C"

abbreviation (input) quote :: char where "quote \<equiv> CHR 0x22"

text \<open>A control character as \<^verbatim>\<open>\u00XX\<close>.\<close>

definition u_escape :: "char \<Rightarrow> string" where
  "u_escape c = [bslash, CHR ''u'', CHR ''0'', CHR ''0'', hex_digit (byte c div 16), hex_digit (byte c mod 16)]"

text \<open>The two-character escapes both printers use.\<close>

definition short_escape :: "char \<Rightarrow> string option" where
  "short_escape c =
     (if c = bslash \<or> c = quote then Some [bslash, c]
      else if c = CHR 0x08 then Some [bslash, CHR ''b'']
      else if c = CHR 0x0C then Some [bslash, CHR ''f'']
      else if c = CHR 0x0A then Some [bslash, CHR ''n'']
      else if c = CHR 0x0D then Some [bslash, CHR ''r'']
      else if c = CHR 0x09 then Some [bslash, CHR ''t'']
      else None)"

text \<open>
  \<open>json.Marshal\<close> escapes an ASCII character that is a control character or one of \<^verbatim>\<open>" \ < > &\<close>, the
  line separators U+2028 and U+2029, and writes a byte that begins no rune as \<^verbatim>\<open>\ufffd\<close>.
\<close>

definition go_char :: "char \<Rightarrow> string" where
  "go_char c =
     (case short_escape c of
        Some e \<Rightarrow> e
      | None \<Rightarrow> if byte c < 0x20 \<or> c \<in> {CHR ''<'', CHR ''>'', CHR ''&''} then u_escape c else [c])"

definition go_rune :: "string \<Rightarrow> string" where
  "go_rune r =
     (if r = [CHR 0xE2, CHR 0x80, CHR 0xA8] then bslash # ''u2028''
      else if r = [CHR 0xE2, CHR 0x80, CHR 0xA9] then bslash # ''u2029''
      else r)"

fun go_escape :: "string \<Rightarrow> string" where
  "go_escape [] = []"
| "go_escape (a # cs) =
     (let n = rune_len (a # cs)
      in (if n = 0 then bslash # ''ufffd''
          else if n = 1 then go_char a
          else go_rune (a # take (n - 1) cs)) @ go_escape (drop (n - 1) cs))"

text \<open>The order of the keys is that of the bytes.\<close>

fun commas_between :: "string \<Rightarrow> string list \<Rightarrow> string" where
  "commas_between sep [] = []"
| "commas_between sep [s] = s"
| "commas_between sep (s # ss) = s @ sep @ commas_between sep ss"

definition print_member :: "(string \<Rightarrow> string) \<Rightarrow> string \<Rightarrow> string \<times> string \<Rightarrow> string" where
  "print_member esc gap kv =
     quote # esc (fst kv) @ [quote, CHR '':''] @ gap @ quote # esc (snd kv) @ [quote]"

definition print_object :: "(string \<Rightarrow> string) \<Rightarrow> string \<Rightarrow> (string \<times> string) list \<Rightarrow> string" where
  "print_object esc gap ps = CHR ''{'' # commas_between ('','' @ gap) (map (print_member esc gap) ps) @ ''}''"

definition Marshal_headers :: "(string \<times> string) list \<Rightarrow> string" where
  "Marshal_headers h = print_object go_escape '''' (sort_key fst h)"

text \<open>What a \<^verbatim>\<open>jsonb\<close> value prints as.\<close>

definition pg_char :: "char \<Rightarrow> string" where
  "pg_char c = (case short_escape c of Some e \<Rightarrow> e | None \<Rightarrow> if byte c < 0x20 then u_escape c else [c])"

definition pg_escape :: "string \<Rightarrow> string" where
  "pg_escape s = concat (map pg_char s)"

definition jsonb_out :: "(string \<times> string) list \<Rightarrow> string" where
  "jsonb_out h = print_object pg_escape '' '' h"

section \<open>Reading\<close>

text \<open>
  The tokens of an object of strings. \<open>None\<close> is a syntax error; escapes of surrogates, which neither
  printer writes, are not read. Inside a string the argument holds what has been read of it.
\<close>

datatype token = Open | Close | Colon | Comma | Str string

definition hex_value :: "char \<Rightarrow> nat option" where
  "hex_value c =
     (if 48 \<le> byte c \<and> byte c \<le> 57 then Some (byte c - 48)
      else if 97 \<le> byte c \<and> byte c \<le> 102 then Some (byte c - 87)
      else if 65 \<le> byte c \<and> byte c \<le> 70 then Some (byte c - 55)
      else None)"

definition hex4 :: "char \<Rightarrow> char \<Rightarrow> char \<Rightarrow> char \<Rightarrow> nat option" where
  "hex4 a b c d =
     (case (hex_value a, hex_value b, hex_value c, hex_value d) of
        (Some i, Some j, Some k, Some l) \<Rightarrow> Some (((i * 16 + j) * 16 + k) * 16 + l)
      | _ \<Rightarrow> None)"

definition encode_rune :: "nat \<Rightarrow> string option" where
  "encode_rune n =
     (if n < 0x80 then Some [char_of n]
      else if n < 0x800 then Some [char_of (0xC0 + n div 64), char_of (0x80 + n mod 64)]
      else if 0xD800 \<le> n \<and> n < 0xE000 then None
      else Some [char_of (0xE0 + n div 4096), char_of (0x80 + n div 64 mod 64), char_of (0x80 + n mod 64)])"

definition unescape :: "char \<Rightarrow> char option" where
  "unescape c =
     (if c \<in> {bslash, quote, CHR ''/''} then Some c
      else if c = CHR ''b'' then Some (CHR 0x08)
      else if c = CHR ''f'' then Some (CHR 0x0C)
      else if c = CHR ''n'' then Some (CHR 0x0A)
      else if c = CHR ''r'' then Some (CHR 0x0D)
      else if c = CHR ''t'' then Some (CHR 0x09)
      else None)"

definition json_blank :: "char \<Rightarrow> bool" where
  "json_blank c \<longleftrightarrow> c \<in> {CHR '' '', CHR 0x09, CHR 0x0A, CHR 0x0D}"

fun lex :: "string option \<Rightarrow> string \<Rightarrow> token list option" where
  "lex None [] = Some []"
| "lex None (c # cs) =
     (if json_blank c then lex None cs
      else if c = CHR ''{'' then map_option (\<lambda>ts. Open # ts) (lex None cs)
      else if c = CHR ''}'' then map_option (\<lambda>ts. Close # ts) (lex None cs)
      else if c = CHR '':'' then map_option (\<lambda>ts. Colon # ts) (lex None cs)
      else if c = CHR '','' then map_option (\<lambda>ts. Comma # ts) (lex None cs)
      else if c = quote then lex (Some []) cs
      else None)"
| "lex (Some s) [] = None"
| "lex (Some s) (c # cs) =
     (if c = quote then map_option (\<lambda>ts. Str s # ts) (lex None cs)
      else if c = bslash
      then (case cs of
              [] \<Rightarrow> None
            | e # cs' \<Rightarrow>
                (if e = CHR ''u''
                 then (case cs' of
                         h # i # j # k # rest \<Rightarrow>
                           (case Option.bind (hex4 h i j k) encode_rune of
                              None \<Rightarrow> None
                            | Some r \<Rightarrow> lex (Some (s @ r)) rest)
                       | _ \<Rightarrow> None)
                 else (case unescape e of None \<Rightarrow> None | Some x \<Rightarrow> lex (Some (s @ [x])) cs')))
      else if byte c < 0x20 then None
      else lex (Some (s @ [c])) cs)"

fun members :: "token list \<Rightarrow> (string \<times> string) list option" where
  "members (Str k # Colon # Str v # Comma # ts) = map_option (\<lambda>ps. (k, v) # ps) (members ts)"
| "members [Str k, Colon, Str v, Close] = Some [(k, v)]"
| "members _ = None"

definition read_object :: "string \<Rightarrow> (string \<times> string) list option" where
  "read_object s =
     (case lex None s of
        Some [Open, Close] \<Rightarrow> Some []
      | Some (Open # ts) \<Rightarrow> members ts
      | _ \<Rightarrow> None)"

text \<open>A repeated key takes its last value.\<close>

definition last_wins :: "(string \<times> string) list \<Rightarrow> (string \<times> string) list" where
  "last_wins ps = fold (\<lambda>(k, v). AList.update k v) ps []"

text \<open>
  The input of a \<^verbatim>\<open>jsonb\<close> value: no text in it holds the zero byte, the keys are ordered by length
  and bytes.
\<close>

definition jsonb_in :: "string \<Rightarrow> (string \<times> string) list option" where
  "jsonb_in s =
     Option.bind (read_object s) (\<lambda>ps.
       if list_all (\<lambda>(k, v). CHR 0x00 \<notin> set k \<and> CHR 0x00 \<notin> set v) ps
       then Some (sort_key (\<lambda>(k, v). (length k, k)) (last_wins ps)) else None)"

definition Unmarshal_headers :: "string \<Rightarrow> (string \<times> string) list option" where
  "Unmarshal_headers s =
     map_option (\<lambda>ps. last_wins (map (\<lambda>(k, v). (clean k, clean v)) ps)) (read_object s)"

section \<open>Reading what was printed\<close>

lemma lex_bytes: "(\<And>c. c \<in> set r \<Longrightarrow> 0x80 \<le> byte c) \<Longrightarrow> lex (Some s) (r @ x) = lex (Some (s @ r)) x"
proof (induction r arbitrary: s)
  case (Cons c r)
  have "0x80 \<le> byte c" using Cons.prems by simp
  then have "c \<noteq> quote" "c \<noteq> bslash" "\<not> byte c < 0x20" by auto
  then show ?case using Cons by simp
qed simp

lemma hex_digit_value: "d < 16 \<Longrightarrow> hex_value (hex_digit d) = Some d"
  by (auto simp: hex_value_def hex_digit_def)

lemma lex_hex:
  "Option.bind (hex4 h i j k) encode_rune = Some r \<Longrightarrow>
    lex (Some s) (bslash # CHR ''u'' # h # i # j # k # x) = lex (Some (s @ r)) x"
  by simp

lemma lex_u_escape:
  assumes "byte c < 0x80"
  shows "lex (Some s) (u_escape c @ x) = lex (Some (s @ [c])) x"
proof -
  have "hex_value CHR ''0'' = Some 0" by code_simp
  moreover have "byte c div 16 < 16" "byte c mod 16 < 16" using assms by auto
  ultimately have "hex4 CHR ''0'' CHR ''0'' (hex_digit (byte c div 16)) (hex_digit (byte c mod 16)) = Some (byte c)"
    by (simp add: hex4_def hex_digit_value)
  moreover have "encode_rune (byte c) = Some [c]" using assms by (simp add: encode_rune_def)
  ultimately show ?thesis unfolding u_escape_def by (simp add: lex_hex del: lex.simps)
qed

lemma lex_short_escape: "short_escape c = Some e \<Longrightarrow> lex (Some s) (e @ x) = lex (Some (s @ [c])) x"
  by (auto simp: short_escape_def unescape_def split: if_splits)

lemma lex_plain: "short_escape c = None \<Longrightarrow> \<not> byte c < 0x20 \<Longrightarrow> lex (Some s) (c # x) = lex (Some (s @ [c])) x"
  by (auto simp: short_escape_def split: if_splits)

lemma lex_go_char: "byte c < 0x80 \<Longrightarrow> lex (Some s) (go_char c @ x) = lex (Some (s @ [c])) x"
  unfolding go_char_def
  by (cases "short_escape c") (simp_all add: lex_u_escape lex_short_escape lex_plain del: lex.simps)

lemma lex_pg_char: "lex (Some s) (pg_char c @ x) = lex (Some (s @ [c])) x"
  unfolding pg_char_def
  by (cases "short_escape c") (simp_all add: lex_u_escape lex_short_escape lex_plain del: lex.simps)

lemma lex_pg_escape: "lex (Some s) (pg_escape t @ x) = lex (Some (s @ t)) x"
  by (induction t arbitrary: s) (simp_all add: pg_escape_def lex_pg_char del: lex.simps)

lemma lex_go_rune:
  assumes "\<And>c. c \<in> set r \<Longrightarrow> 0x80 \<le> byte c"
  shows "lex (Some s) (go_rune r @ x) = lex (Some (s @ r)) x"
proof -
  have "hex4 CHR ''2'' CHR ''0'' CHR ''2'' CHR ''8'' = Some 0x2028" "hex4 CHR ''2'' CHR ''0'' CHR ''2'' CHR ''9'' = Some 0x2029"
    by (simp_all add: hex4_def hex_value_def)
  moreover have "encode_rune 0x2028 = Some [CHR 0xE2, CHR 0x80, CHR 0xA8]"
    "encode_rune 0x2029 = Some [CHR 0xE2, CHR 0x80, CHR 0xA9]"
    by (simp_all add: encode_rune_def char_of_eq_iff take_bit_eq_mod)
  ultimately have "Option.bind (hex4 CHR ''2'' CHR ''0'' CHR ''2'' CHR ''8'') encode_rune = Some [CHR 0xE2, CHR 0x80, CHR 0xA8]"
    "Option.bind (hex4 CHR ''2'' CHR ''0'' CHR ''2'' CHR ''9'') encode_rune = Some [CHR 0xE2, CHR 0x80, CHR 0xA9]"
    by simp_all
  then show ?thesis
    using lex_bytes [of r s x, OF assms] by (simp add: go_rune_def lex_hex del: lex.simps)
qed

lemma lex_go_error: "lex (Some s) (bslash # CHR ''u'' # CHR ''f'' # CHR ''f'' # CHR ''f'' # CHR ''d'' # x) = lex (Some (s @ rune_error)) x"
proof -
  have "hex4 CHR ''f'' CHR ''f'' CHR ''f'' CHR ''d'' = Some 0xFFFD" by (simp add: hex4_def hex_value_def)
  moreover have "encode_rune 0xFFFD = Some rune_error"
    by (simp add: encode_rune_def rune_error_def char_of_eq_iff take_bit_eq_mod)
  ultimately have "Option.bind (hex4 CHR ''f'' CHR ''f'' CHR ''f'' CHR ''d'') encode_rune = Some rune_error" by simp
  then show ?thesis by (rule lex_hex)
qed

lemma lex_go_escape: "lex (Some s) (go_escape t @ x) = lex (Some (s @ clean t)) x"
proof (induction t arbitrary: s rule: go_escape.induct)
  case (2 a cs)
  let ?n = "rune_len (a # cs)"
  have step: "lex (Some s) ((if ?n = 0 then bslash # ''ufffd'' else if ?n = 1 then go_char a
      else go_rune (a # take (?n - 1) cs)) @ y) =
    lex (Some (s @ (if ?n = 0 then rune_error else a # take (?n - 1) cs))) y" for y
  proof -
    consider "?n = 0" | "?n = 1" | n where "?n = Suc (Suc n)" by (metis One_nat_def not0_implies_Suc)
    then show ?thesis
    proof cases
      case 1
      then show ?thesis by (simp add: lex_go_error del: lex.simps)
    next
      case 2
      then have "byte a < 0x80" by (auto simp: rune_len_def split: list.splits if_splits)
      then show ?thesis using 2 by (simp add: lex_go_char del: lex.simps)
    next
      case 3
      then show ?thesis using lex_go_rune [of "a # take (Suc n) cs"] rune_bytes [OF 3]
        by (simp del: lex.simps)
    qed
  qed
  show ?case
    using 2 step by (simp add: Let_def del: lex.simps)
qed simp

lemma lex_gap: "list_all json_blank gap \<Longrightarrow> lex None (gap @ x) = lex None x"
  by (induction gap) simp_all

fun member_tokens :: "(string \<times> string) list \<Rightarrow> token list" where
  "member_tokens [] = []"
| "member_tokens [(k, v)] = [Str k, Colon, Str v]"
| "member_tokens ((k, v) # ps) = Str k # Colon # Str v # Comma # member_tokens ps"

lemma members_tokens: "ps \<noteq> [] \<Longrightarrow> members (member_tokens ps @ [Close]) = Some ps"
  by (induction ps rule: member_tokens.induct) simp_all

text \<open>
  What a printer needs for its objects to be read back: that the escaped form of a text, inside a
  string, is read as what the text means.
\<close>

locale printer =
  fixes esc :: "string \<Rightarrow> string" and meant :: "string \<Rightarrow> string"
  assumes reads: "lex (Some s) (esc t @ x) = lex (Some (s @ meant t)) x"
begin

abbreviation meant_pairs :: "(string \<times> string) list \<Rightarrow> (string \<times> string) list" where
  "meant_pairs ps \<equiv> map (\<lambda>(k, v). (meant k, meant v)) ps"

lemma lex_member:
  assumes "list_all json_blank gap"
  shows "lex None (print_member esc gap (k, v) @ x) =
    map_option (\<lambda>ts. Str (meant k) # Colon # Str (meant v) # ts) (lex None x)"
proof -
  have str: "lex None (quote # esc t @ quote # y) = map_option (\<lambda>ts. Str (meant t) # ts) (lex None y)" for t y
    using reads [of "''''" t "quote # y"] by (simp add: json_blank_def)
  have colon: "lex None (CHR '':'' # y) = map_option (\<lambda>ts. Colon # ts) (lex None y)" for y
    by (simp add: json_blank_def)
  show ?thesis
    by (simp add: print_member_def str colon lex_gap [OF assms] option.map_comp comp_def del: lex.simps)
qed

lemma lex_members:
  assumes "list_all json_blank gap"
  shows "lex None (commas_between ('','' @ gap) (map (print_member esc gap) ps) @ ''}'') =
    Some (member_tokens (meant_pairs ps) @ [Close])"
proof (induction ps rule: member_tokens.induct)
  case 1
  show ?case by (simp add: json_blank_def)
next
  case (2 k v)
  have "lex None ''}'' = Some [Close]" by (simp add: json_blank_def)
  then show ?case by (simp add: lex_member [OF assms] del: lex.simps)
next
  case (3 k v p ps)
  have "lex None (CHR '','' # y) = map_option (\<lambda>ts. Comma # ts) (lex None y)" for y
    by (simp add: json_blank_def)
  then show ?case
    using 3 by (cases p) (simp add: lex_member [OF assms] lex_gap [OF assms] del: lex.simps)
qed

lemma read_print:
  assumes "list_all json_blank gap"
  shows "read_object (print_object esc gap ps) = Some (meant_pairs ps)"
proof -
  have "lex None (print_object esc gap ps) = Some (Open # member_tokens (meant_pairs ps) @ [Close])"
    using lex_members [OF assms, of ps] by (simp add: print_object_def json_blank_def)
  note lexed = this
  show ?thesis
  proof (cases ps)
    case Nil
    then show ?thesis using lexed by (simp add: read_object_def)
  next
    case (Cons p qs)
    then have some: "meant_pairs ps \<noteq> []" by simp
    obtain s ts where first: "member_tokens (meant_pairs ps) @ [Close] = Str s # ts"
      using some by (cases "meant_pairs ps" rule: member_tokens.cases) auto
    show ?thesis
      unfolding read_object_def lexed first using members_tokens [OF some] first by simp
  qed
qed

end

interpretation go: printer go_escape clean
  by unfold_locales (rule lex_go_escape)

interpretation pg: printer pg_escape "\<lambda>t. t"
  by unfold_locales (rule lex_pg_escape)

section \<open>What a column holds of the headers\<close>

lemma fold_update: "map_of (fold (\<lambda>(k, v). AList.update k v) ps acc) = map_of (rev ps @ acc)"
  by (induction ps arbitrary: acc) (auto simp: update_conv' map_add_def fun_eq_iff split: option.splits)

lemma last_wins_map: "map_of (last_wins ps) = map_of (rev ps)"
  by (simp add: last_wins_def fold_update)

lemma fold_update_distinct:
  "distinct (map fst acc) \<Longrightarrow> distinct (map fst (fold (\<lambda>(k, v). AList.update k v) ps acc))"
  by (induction ps arbitrary: acc) (auto intro: distinct_update)

lemma last_wins_distinct: "distinct (map fst (last_wins ps))"
  by (simp add: last_wins_def fold_update_distinct)

lemma last_wins_set: "set (last_wins ps) \<subseteq> set ps"
proof
  fix x assume "x \<in> set (last_wins ps)"
  then have "map_of (rev ps) (fst x) = Some (snd x)"
    using map_of_is_SomeI [OF last_wins_distinct, of "fst x" "snd x" ps] by (simp add: last_wins_map)
  then show "x \<in> set ps" by (auto dest: map_of_SomeD)
qed

lemma update_new: "k \<notin> set (map fst acc) \<Longrightarrow> AList.update k v acc = acc @ [(k, v)]"
  by (induction acc) auto

lemma last_wins_id: "distinct (map fst ps) \<Longrightarrow> last_wins ps = ps"
proof -
  have "distinct (map fst (acc @ ps)) \<Longrightarrow> fold (\<lambda>(k, v). AList.update k v) ps acc = acc @ ps" for acc
    by (induction ps arbitrary: acc) (auto simp: update_new)
  from this [of "[]"] show "distinct (map fst ps) \<Longrightarrow> last_wins ps = ps" by (simp add: last_wins_def)
qed

lemma map_of_permuted: "distinct (map fst xs) \<Longrightarrow> mset ys = mset xs \<Longrightarrow> map_of ys = map_of xs"
  by (metis map_of_inject_set mset_map mset_eq_imp_distinct_iff set_mset_mset)

lemma zero_clean: "CHR 0x00 \<in> set (clean s) \<longleftrightarrow> CHR 0x00 \<in> set s"
proof (induction s rule: clean.induct)
  case (2 a cs)
  show ?case
  proof (cases "rune_len (a # cs)")
    case 0
    then have "a \<noteq> CHR 0x00" by (auto simp: rune_len_def)
    then show ?thesis using 2 0 by (simp add: rune_error_def)
  next
    case (Suc n)
    have "set cs = set (take n cs) \<union> set (drop n cs)" by (metis append_take_drop_id set_append)
    then show ?thesis using 2 Suc by auto
  qed
qed simp

text \<open>What can stand in the column: distinct keys in the column's order, valid texts without a zero byte.\<close>

definition jsonb_text :: "string \<Rightarrow> bool" where
  "jsonb_text s \<longleftrightarrow> valid s \<and> CHR 0x00 \<notin> set s"

definition jsonb_ok :: "(string \<times> string) list \<Rightarrow> bool" where
  "jsonb_ok ps \<longleftrightarrow>
     distinct (map fst ps) \<and> sorted (map (\<lambda>(k, v). (length k, k)) ps) \<and>
     list_all (\<lambda>(k, v). jsonb_text k \<and> jsonb_text v) ps"

definition zero_free :: "(string \<times> string) list \<Rightarrow> bool" where
  "zero_free h \<longleftrightarrow> list_all (\<lambda>(k, v). CHR 0x00 \<notin> set k \<and> CHR 0x00 \<notin> set v) h"

definition stored_headers :: "(string \<times> string) list \<Rightarrow> (string \<times> string) list" where
  "stored_headers h =
     sort_key (\<lambda>(k, v). (length k, k)) (last_wins (map (\<lambda>(k, v). (clean k, clean v)) (sort_key fst h)))"

lemma jsonb_in_Marshal:
  "jsonb_in (Marshal_headers h) = (if zero_free h then Some (stored_headers h) else None)"
proof -
  have "read_object (Marshal_headers h) = Some (map (\<lambda>(k, v). (clean k, clean v)) (sort_key fst h))"
    unfolding Marshal_headers_def by (rule go.read_print) simp
  then show ?thesis
    by (auto simp: jsonb_in_def zero_free_def stored_headers_def list_all_iff zero_clean)
qed

lemma stored_headers_ok:
  assumes "zero_free h"
  shows "jsonb_ok (stored_headers h)"
proof -
  let ?c = "map (\<lambda>(k, v). (clean k, clean v)) (sort_key fst h)"
  have "set (stored_headers h) \<subseteq> set ?c" using last_wins_set [of ?c] by (simp add: stored_headers_def)
  then have "list_all (\<lambda>(k, v). jsonb_text k \<and> jsonb_text v) (stored_headers h)"
    using assms by (fastforce simp: list_all_iff jsonb_text_def valid_clean zero_clean zero_free_def)
  moreover have "distinct (map fst (stored_headers h))"
    unfolding stored_headers_def distinct_map_sort_key by (rule last_wins_distinct)
  ultimately show ?thesis by (simp add: jsonb_ok_def stored_headers_def)
qed

lemma Unmarshal_jsonb_out:
  assumes "jsonb_ok h"
  shows "Unmarshal_headers (jsonb_out h) = Some h"
proof -
  have "read_object (jsonb_out h) = Some h"
    unfolding jsonb_out_def using pg.read_print [of "'' ''" h] by (simp add: json_blank_def)
  moreover have "map (\<lambda>(k, v). (clean k, clean v)) h = h"
    using assms by (intro map_idI) (auto simp: jsonb_ok_def list_all_iff jsonb_text_def clean_valid)
  ultimately show ?thesis
    using assms by (simp add: Unmarshal_headers_def last_wins_id jsonb_ok_def)
qed

lemma stored_headers_map:
  "map_of (stored_headers h) = map_of (rev (map (\<lambda>(k, v). (clean k, clean v)) (sort_key fst h)))"
  unfolding stored_headers_def
  by (subst map_of_permuted [OF last_wins_distinct]) (simp_all add: last_wins_map)

lemma stored_headers_valid:
  assumes "distinct (map fst h)" and "\<forall>(k, v) \<in> set h. valid k \<and> valid v"
  shows "map_of (stored_headers h) = map_of h"
proof -
  have "map (\<lambda>(k, v). (clean k, clean v)) (sort_key fst h) = sort_key fst h"
    using assms(2) by (intro map_idI) (auto simp: clean_valid)
  moreover have "map_of (rev (sort_key fst h)) = map_of h" by (rule map_of_permuted [OF assms(1)]) simp
  ultimately show ?thesis by (simp add: stored_headers_map)
qed

text \<open>What arrives of headers: texts that are valid and, if the sent ones all were, the sent map.\<close>

definition carries :: "(string \<times> string) list \<Rightarrow> (string \<times> string) list \<Rightarrow> bool" where
  "carries h hs \<longleftrightarrow>
     jsonb_ok hs \<and>
     (distinct (map fst h) \<and> (\<forall>(k, v) \<in> set h. valid k \<and> valid v) \<longrightarrow> map_of hs = map_of h)"

lemma stored_headers_carries: "zero_free h \<Longrightarrow> carries h (stored_headers h)"
  by (simp add: carries_def stored_headers_ok stored_headers_valid)

lemma stored_headers_set: "set (stored_headers h) \<subseteq> (\<lambda>(k, v). (clean k, clean v)) ` set h"
  using last_wins_set [of "map (\<lambda>(k, v). (clean k, clean v)) (sort_key fst h)"] by (simp add: stored_headers_def)

lemma stored_headers_keys: "fst ` set (stored_headers h) = clean ` fst ` set h"
proof -
  let ?c = "map (\<lambda>(k, v). (clean k, clean v)) (sort_key fst h)"
  have "dom (map_of (last_wins ?c)) = dom (map_of (rev ?c))" by (simp only: last_wins_map)
  then show ?thesis
    by (force simp: stored_headers_def dom_map_of_conv_image_fst image_image case_prod_unfold)
qed

section \<open>Properties\<close>

text \<open>C21. The headers' way through JSON: the text \<open>json.Marshal\<close> makes of a map without zero bytes is
  accepted by the column; what the column prints, \<open>json.Unmarshal\<close> reads as the very object stored;
  its keys and values are those of the map with every byte that begins no rune replaced by U+FFFD, for
  every key; and a map whose texts are all valid UTF-8 comes back as it was, whatever characters it
  holds (quotes, control characters, markup and line separators are escaped and restored).\<close>

theorem headers_survive:
  assumes "zero_free h"
  shows "\<exists>hs. jsonb_in (Marshal_headers h) = Some hs \<and> Unmarshal_headers (jsonb_out hs) = Some hs \<and>
    set hs \<subseteq> (\<lambda>(k, v). (clean k, clean v)) ` set h \<and> fst ` set hs = clean ` fst ` set h \<and> carries h hs"
  using assms stored_headers_set stored_headers_keys
  by (intro exI [of _ "stored_headers h"])
    (simp add: jsonb_in_Marshal stored_headers_ok Unmarshal_jsonb_out stored_headers_carries)

theorem headers_survive_witness:
  "\<exists>hs. jsonb_in (Marshal_headers [(''trace-id'', [CHR 0xFF])]) = Some hs \<and> Unmarshal_headers (jsonb_out hs) = Some hs \<and>
    set hs \<subseteq> {(''trace-id'', rune_error)}"
proof -
  have "zero_free [(''trace-id'', [CHR 0xFF])]" by (simp add: zero_free_def)
  moreover have "clean [CHR 0xFF] = rune_error" "clean ''trace-id'' = ''trace-id''"
    by (simp_all add: rune_len_def rune_error_def)
  ultimately show ?thesis using headers_survive [of "[(''trace-id'', [CHR 0xFF])]"] by auto
qed

end
