(* ===== verification/Store.thy ===== *)
theory Store
  imports Engine Json
begin

text \<open>
  The store of \<^verbatim>\<open>engine/store.go\<close>: the parameters each method binds, the statement it runs
  (theory \<open>Table\<close>) and what it makes of the result.
\<close>

section \<open>The store value\<close>

text \<open>
  \<open>%q\<close> of \<open>fmt\<close> on ASCII text (\<open>None\<close> for other bytes, whose quoting depends on Unicode
  tables).
\<close>

fun quote_char :: "char \<Rightarrow> string" where
  "quote_char c =
     (if c = CHR ''\"'' then [CHR 0x5C, CHR ''\"'']
      else if c = CHR 0x5C then [CHR 0x5C, CHR 0x5C]
      else if c = CHR 0x07 then [CHR 0x5C, CHR ''a'']
      else if c = CHR 0x08 then [CHR 0x5C, CHR ''b'']
      else if c = CHR 0x0C then [CHR 0x5C, CHR ''f'']
      else if c = CHR 0x0A then [CHR 0x5C, CHR ''n'']
      else if c = CHR 0x0D then [CHR 0x5C, CHR ''r'']
      else if c = CHR 0x09 then [CHR 0x5C, CHR ''t'']
      else if c = CHR 0x0B then [CHR 0x5C, CHR ''v'']
      else if c < CHR '' '' \<or> c = CHR 0x7F
      then [CHR 0x5C, CHR ''x'', hex_digit (of_char c div 16), hex_digit (of_char c mod 16)]
      else [c])"

definition go_quote :: "string \<Rightarrow> string option" where
  "go_quote s =
     (if list_all (\<lambda>c. c \<le> CHR 0x7F) s
      then Some (CHR ''\"'' # concat (map quote_char s) @ [CHR ''\"'']) else None)"

record store =
  st_exec :: "executor option"
  st_enq :: "executor option"
  st_pool :: "nat option"
  st_table :: "string option"

definition NewStore :: "executor option \<Rightarrow> executor option \<Rightarrow> nat option \<Rightarrow> string \<Rightarrow> store" where
  "NewStore exec enq pool schema =
     \<lparr>st_exec = exec, st_enq = enq, st_pool = pool,
      st_table = map_option (\<lambda>q. q @ ''.'' @ TableName) (go_quote schema)\<rparr>"

section \<open>Nullable parameters and results\<close>

text \<open>An argument of a statement; \<open>ASecs\<close> is \<open>Duration.Seconds()\<close> of a duration, \<open>ATexts\<close> a \<open>[]string\<close>.\<close>

datatype sqlarg =
    ANull
  | AText string
  | ABytes string
  | AInt int
  | ABool bool
  | ASecs int
  | ATexts "string list"

definition nullStr :: "string \<Rightarrow> sqlarg" where
  "nullStr s = (if s = '''' then ANull else AText s)"

definition nullInt :: "int option \<Rightarrow> sqlarg" where
  "nullInt p = (case p of None \<Rightarrow> ANull | Some i \<Rightarrow> AInt i)"

definition derefStr :: "string option \<Rightarrow> string" where
  "derefStr p = (case p of None \<Rightarrow> '''' | Some s \<Rightarrow> s)"

text \<open>A nullable text parameter as the column value it becomes.\<close>

definition text_column :: "string \<Rightarrow> string option" where
  "text_column s = (if s = '''' then None else Some s)"

definition scan_row :: "row \<Rightarrow> message" where
  "scan_row r =
     \<lparr>m_ID = r_id r, m_Topic = r_topic r, m_PartitionKey = derefStr (r_partition_key r),
      m_Payload = Some (r_payload r), m_Headers = Some (r_headers r),
      m_ContentType = derefStr (r_content_type r), m_MessageType = derefStr (r_message_type r),
      m_MaxAttempts = r_max_attempts r, m_Status = Some (r_status r), m_Attempts = r_attempts r,
      m_LeaseToken = derefStr (r_lease_token r), m_LockedBy = derefStr (r_locked_by r),
      m_LockedUntil = r_locked_until r, m_NextAttemptAt = r_next_attempt_at r,
      m_LastError = derefStr (r_last_error r), m_CreatedAt = r_created_at r,
      m_PublishedAt = r_published_at r, m_FinishedAt = r_finished_at r\<rparr>"

definition scanMessages :: "row list \<Rightarrow> message list" where
  "scanMessages rows = map scan_row rows"

section \<open>Enqueue\<close>

text \<open>The statement's text. The parameters of the group of message \<open>i\<close> are \<open>8i+1\<close> to \<open>8i+8\<close>.\<close>

definition group_params :: "nat \<Rightarrow> nat list" where
  "group_params i = (let n = i * 8 in [n+1, n+2, n+3, n+4, n+5, n+6, n+7, n+8])"

definition enqueue_group :: "nat \<Rightarrow> string" where
  "enqueue_group i =
     (let p = (\<lambda>j. CHR ''$'' # show_nat (group_params i ! j))
      in ''(COALESCE('' @ p 0 @ ''::uuid, gen_random_uuid()),'' @ p 1 @ '','' @ p 2 @ '','' @
         p 3 @ '','' @ p 4 @ ''::jsonb,'' @ p 5 @ '','' @ p 6 @ '','' @ p 7 @ '')'')"

fun enqueue_groups :: "nat \<Rightarrow> nat \<Rightarrow> string" where
  "enqueue_groups i 0 = ''''"
| "enqueue_groups i (Suc n) =
     (if i > 0 then '','' else '''') @ enqueue_group i @ enqueue_groups (Suc i) n"

definition enqueue_sql :: "string \<Rightarrow> nat \<Rightarrow> string" where
  "enqueue_sql table n =
     ''INSERT INTO '' @ table @ '' (id, topic, partition_key, payload, headers, content_type, message_type, max_attempts) VALUES ''
     @ enqueue_groups 0 n @ '' ON CONFLICT (id) DO NOTHING''"

text \<open>
  The argument list, built message by message; nil headers become an empty map, and the headers
  are passed as the text \<open>json.Marshal\<close> makes of them (it returns no error for a map of strings).
\<close>

definition headers_or_empty :: "message \<Rightarrow> (string \<times> string) list" where
  "headers_or_empty m = (case m_Headers m of None \<Rightarrow> [] | Some h \<Rightarrow> h)"

definition message_args :: "message \<Rightarrow> sqlarg list" where
  "message_args m =
     [nullStr (m_ID m), AText (m_Topic m), nullStr (m_PartitionKey m),
      (case m_Payload m of None \<Rightarrow> ANull | Some b \<Rightarrow> ABytes b),
      AText (Marshal_headers (headers_or_empty m)),
      nullStr (m_ContentType m), nullStr (m_MessageType m), nullInt (m_MaxAttempts m)]"

definition enqueue_args :: "message list \<Rightarrow> sqlarg list" where
  "enqueue_args msgs = concat (map message_args msgs)"

text \<open>
  The database reads parameter \<open>$k\<close> as the \<open>k\<close>-th argument, casts it to the column's type and
  checks the column's NOT NULL constraint. \<open>None\<close> is a rejected value. A text is rejected when it
  is not valid in the database's encoding or holds the zero byte, which PostgreSQL stores in no
  text; the argument \<open>text_ok\<close> says which texts are accepted.
\<close>

fun arg_ok :: "(string \<Rightarrow> bool) \<Rightarrow> sqlarg \<Rightarrow> bool" where
  "arg_ok text_ok (AText s) = text_ok s"

| "arg_ok text_ok _ = True"

definition nth_param :: "sqlarg list \<Rightarrow> nat \<Rightarrow> sqlarg option" where
  "nth_param args k = (if 1 \<le> k \<and> k \<le> length args then Some (args ! (k - 1)) else None)"

fun as_uuid :: "(string \<Rightarrow> string option) \<Rightarrow> sqlarg option \<Rightarrow> string option option" where
  "as_uuid uuid_in (Some ANull) = Some None"
| "as_uuid uuid_in (Some (AText s)) = map_option Some (uuid_in s)"
| "as_uuid uuid_in _ = None"

fun as_text :: "sqlarg option \<Rightarrow> string option option" where
  "as_text (Some ANull) = Some None"
| "as_text (Some (AText s)) = Some (Some s)"
| "as_text _ = None"

text \<open>The column is a four-byte integer.\<close>

fun as_int :: "sqlarg option \<Rightarrow> int option option" where
  "as_int (Some ANull) = Some None"
| "as_int (Some (AInt i)) = (if - (2 ^ 31) \<le> i \<and> i < 2 ^ 31 then Some (Some i) else None)"
| "as_int _ = None"

fun as_bytes :: "sqlarg option \<Rightarrow> string option" where
  "as_bytes (Some (ABytes b)) = Some b"
| "as_bytes _ = None"

fun as_json :: "sqlarg option \<Rightarrow> (string \<times> string) list option" where
  "as_json (Some (AText s)) = jsonb_in s"
| "as_json _ = None"

definition decode_group ::
  "(string \<Rightarrow> string option) \<Rightarrow> sqlarg list \<Rightarrow> nat \<Rightarrow> new_row option" where
  "decode_group uuid_in args i =
     (let a = (\<lambda>j. nth_param args (group_params i ! j))
      in case (as_uuid uuid_in (a 0), as_text (a 1), as_text (a 2), as_bytes (a 3), as_json (a 4),
               as_text (a 5), as_text (a 6), as_int (a 7)) of
           (Some ident, Some (Some topic), Some key, Some payload, Some headers, Some ct, Some mt, Some ma) \<Rightarrow>
             Some \<lparr>v_id = ident, v_topic = topic, v_partition_key = key, v_payload = payload,
                   v_headers = headers, v_content_type = ct, v_message_type = mt,
                   v_max_attempts = ma\<rparr>
         | _ \<Rightarrow> None)"

definition decode_groups ::
  "(string \<Rightarrow> string option) \<Rightarrow> sqlarg list \<Rightarrow> nat \<Rightarrow> new_row list option" where
  "decode_groups uuid_in args n = those (map (decode_group uuid_in args) [0..<n])"

text \<open>
  The insert joins the caller's transaction; the model commits it together with the call, with
  \<open>now()\<close> the start of that transaction. The statement trigger notifies. The protocol numbers the
  parameters of a statement with 16 bits and takes no more than 65535.
\<close>

definition max_params :: nat where
  "max_params = 65535"

definition insert_stmt :: "env \<Rightarrow> message list \<Rightarrow> nat \<Rightarrow> database \<Rightarrow> (goerr + unit) \<times> database" where
  "insert_stmt env msgs n d =
     (case (if length (enqueue_args msgs) \<le> max_params \<and> list_all (arg_ok (e_text_ok env)) (enqueue_args msgs)
            then decode_groups (e_uuid_in env) (enqueue_args msgs) (length msgs) else None) of
        None \<Rightarrow> (Inl (e_sql_error env), d)
      | Some vs \<Rightarrow>
          (let (tbl, k, seq) = sql_insert (e_gen env) (e_now env n) (d_uuid d) (d_seq d) vs (d_rows d)
           in (Inr (), d\<lparr>d_rows := tbl, d_uuid := k, d_seq := seq, d_notified := d_notified d + 1\<rparr>)))"

definition err_of :: "goerr + 'a \<Rightarrow> goerr option" where
  "err_of r = (case r of Inl e \<Rightarrow> Some e | Inr _ \<Rightarrow> None)"

definition Store_Enqueue :: "env \<Rightarrow> store \<Rightarrow> message list \<Rightarrow> goerr option go" where
  "Store_Enqueue env st msgs =
     (if msgs = [] then ret_go None
      else if st_enq st = None then panic_go nil_dereference
      else bind_go (exec_call env (insert_stmt env msgs)) (\<lambda>r. ret_go (err_of r)))"

section \<open>Claim, renew, finish\<close>

definition claim_stmt :: "env \<Rightarrow> settings \<Rightarrow> nat \<Rightarrow> database \<Rightarrow> (goerr + message list) \<times> database" where
  "claim_stmt env cfg n d =
     (if \<not> e_text_ok env (s_InstanceID cfg) then (Inl (e_sql_error env), d)
      else
        (let (tbl, out, k) =
           sql_claim (e_gen env) (d_uuid d) (e_now env n) (e_locked env n) (s_Ordered cfg)
             (s_InstanceID cfg) (e_clk env n + e_interval env (s_LeaseDuration cfg))
             (s_BatchSize cfg) (d_rows d)
         in (Inr (scanMessages (e_returning env n out)), d\<lparr>d_rows := tbl, d_uuid := k\<rparr>)))"

definition claim :: "env \<Rightarrow> settings \<Rightarrow> (goerr + message list) go" where
  "claim env cfg = exec_call env (claim_stmt env cfg)"

definition claimKeys :: "message list \<Rightarrow> string list \<times> string list" where
  "claimKeys msgs = (map m_ID msgs, map m_LeaseToken msgs)"

text \<open>Binding the two arrays as \<open>uuid[]\<close>; a text that is no uuid is rejected.\<close>

definition bind_keys :: "env \<Rightarrow> message list \<Rightarrow> (string \<times> string) list option" where
  "bind_keys env msgs =
     (let (ids, tokens) = claimKeys msgs
      in case (those (map (e_uuid_in env) ids), those (map (e_uuid_in env) tokens)) of
           (Some is, Some ts) \<Rightarrow> Some (zip is ts)
         | _ \<Rightarrow> None)"

definition renew_stmt :: "env \<Rightarrow> message list \<Rightarrow> int \<Rightarrow> nat \<Rightarrow> database \<Rightarrow> (goerr + nat) \<times> database" where
  "renew_stmt env msgs duration n d =
     (case bind_keys env msgs of
        None \<Rightarrow> (Inl (e_sql_error env), d)
      | Some keys \<Rightarrow>
          (let (tbl, cnt) = sql_renew keys (e_clk env n) (e_clk env n + e_interval env duration) (d_rows d)
           in (Inr cnt, d\<lparr>d_rows := tbl\<rparr>)))"

definition renew :: "env \<Rightarrow> message list \<Rightarrow> int \<Rightarrow> goerr option go" where
  "renew env msgs duration =
     bind_go (exec_call env (renew_stmt env msgs duration)) (\<lambda>r.
       ret_go (case r of Inl e \<Rightarrow> Some e
               | Inr cnt \<Rightarrow> if cnt \<noteq> length msgs then Some ErrLeaseLost else None))"

definition finish_stmt ::
  "env \<Rightarrow> message list \<Rightarrow> status \<Rightarrow> string \<Rightarrow> int \<Rightarrow> bool \<Rightarrow> nat \<Rightarrow> database \<Rightarrow> (goerr + message list) \<times> database" where
  "finish_stmt env msgs status reason delay clear n d =
     (case (if arg_ok (e_text_ok env) (nullStr reason) then bind_keys env msgs else None) of
        None \<Rightarrow> (Inl (e_sql_error env), d)
      | Some keys \<Rightarrow>
          (let (tbl, out) = sql_finish keys status (text_column reason) (e_clk env n)
                              (e_clk env n + e_interval env delay) clear (d_rows d)
           in (Inr (scanMessages (e_returning env n out)), d\<lparr>d_rows := tbl\<rparr>)))"

definition Store_finish ::
  "env \<Rightarrow> message list \<Rightarrow> status \<Rightarrow> string \<Rightarrow> int \<Rightarrow> bool \<Rightarrow> (goerr + message list) go" where
  "Store_finish env msgs status reason delay clear =
     (if msgs = [] then ret_go (Inr [])
      else exec_call env (finish_stmt env msgs status reason delay clear))"

section \<open>Requeue and cleanup\<close>

definition requeue_stmt :: "env \<Rightarrow> string \<Rightarrow> nat \<Rightarrow> database \<Rightarrow> (goerr + nat) \<times> database" where
  "requeue_stmt env ident n d =
     (case e_uuid_in env ident of
        None \<Rightarrow> (Inl (e_sql_error env), d)
      | Some i \<Rightarrow>
          (let (tbl, cnt) = sql_requeue i (e_clk env n) (d_rows d)
           in (Inr cnt, d\<lparr>d_rows := tbl, d_notified := d_notified d + cnt\<rparr>)))"

definition Store_Requeue :: "env \<Rightarrow> store \<Rightarrow> string \<Rightarrow> (bool \<times> goerr option) go" where
  "Store_Requeue env st ident =
     (if st_enq st = None then panic_go nil_dereference
      else bind_go (exec_call env (requeue_stmt env ident)) (\<lambda>r.
        ret_go (case r of Inl e \<Rightarrow> (False, Some e) | Inr cnt \<Rightarrow> (cnt = 1, None))))"

definition cleanup_retention :: "env \<Rightarrow> settings \<Rightarrow> nat \<Rightarrow> retention" where
  "cleanup_retention env cfg n =
     \<lparr>rt_published = (0 < s_Retention cfg, e_now env n - e_interval env (s_Retention cfg)),
      rt_dead = (0 < s_DeadRetention cfg, e_now env n - e_interval env (s_DeadRetention cfg)),
      rt_discarded = (0 < s_DiscardRetention cfg, e_now env n - e_interval env (s_DiscardRetention cfg))\<rparr>"

definition cleanup_stmt :: "env \<Rightarrow> settings \<Rightarrow> nat \<Rightarrow> database \<Rightarrow> (goerr + nat) \<times> database" where
  "cleanup_stmt env cfg n d =
     (let (tbl, cnt) = sql_cleanup (cleanup_retention env cfg n) (s_BatchSize cfg) (e_locked env n) (d_rows d)
      in (Inr cnt, d\<lparr>d_rows := tbl\<rparr>))"

definition Store_cleanup :: "env \<Rightarrow> settings \<Rightarrow> (goerr + nat) go" where
  "Store_cleanup env cfg = exec_call env (cleanup_stmt env cfg)"

end
