(* ===== verification/Relay.thy ===== *)
theory Relay
  imports Store
begin

text \<open>
  The relay of \<^verbatim>\<open>engine/relay.go\<close>: one batch (claim, publish under a heartbeat, settle), the
  drain loop, the worker, the listener, and the supervision of the goroutines in \<open>Run\<close>.
\<close>

section \<open>Fatal errors\<close>

definition isFatal :: "env \<Rightarrow> settings \<Rightarrow> goerr \<Rightarrow> bool go" where
  "isFatal env cfg err =
     (if has_as is_abort err \<or> has_as is_panic err then ret_go True
      else bind_go (ctx_done env) (\<lambda>done.
        if done then ret_go False
        else (case s_Fatal cfg of
                None \<Rightarrow> panic_go nil_dereference
              | Some f \<Rightarrow> bind_go take_tick (\<lambda>k.
                  case f k err of Return fatal \<Rightarrow> ret_go fatal | Panic v \<Rightarrow> panic_go v))))"

section \<open>Completion\<close>

definition outcome_hooks :: "env \<Rightarrow> settings \<Rightarrow> status \<Rightarrow> message list \<Rightarrow> goerr option \<Rightarrow> unit go" where
  "outcome_hooks env cfg st completed cause =
     (case st of
        StatusPublished \<Rightarrow> call_hook env cfg (EvOnPublished completed)
      | StatusDiscarded \<Rightarrow>
          (case s_Hooks cfg of
             None \<Rightarrow> ret_go ()
           | Some h \<Rightarrow> if implements_discard h then call_hook env cfg (EvOnDiscarded completed cause)
                       else ret_go ())
      | StatusDead \<Rightarrow>
          bind_go (for_each (\<lambda>m. call_hook env cfg (EvOnDead m)) completed) (\<lambda>_. ret_go ())
      | StatusPending \<Rightarrow>
          bind_go (for_each (\<lambda>m. call_hook env cfg (EvOnFailed m cause)) completed) (\<lambda>_. ret_go ())
      | StatusProcessing \<Rightarrow> ret_go ())"

definition complete ::
  "env \<Rightarrow> settings \<Rightarrow> message list \<Rightarrow> status \<Rightarrow> goerr option \<Rightarrow> int \<Rightarrow> goerr option go" where
  "complete env cfg msgs st cause delay =
     (let reason = (case cause of None \<Rightarrow> '''' | Some e \<Rightarrow> error_text e)
      in bind_go (Store_finish env msgs st reason delay (s_ClearPayloadOnComplete cfg)) (\<lambda>r.
        case r of
          Inl err \<Rightarrow> ret_go (Some err)
        | Inr completed \<Rightarrow>
            bind_go (if completed \<noteq> [] then outcome_hooks env cfg st completed cause else ret_go ())
              (\<lambda>_. ret_go (if length completed \<noteq> length msgs then Some ErrLeaseLost else None))))"

section \<open>Settlement\<close>

text \<open>The status and delay of one message that takes an ordinary error (the body of the loop).\<close>

definition effective_max :: "settings \<Rightarrow> message \<Rightarrow> int" where
  "effective_max cfg m = (case m_MaxAttempts m of Some n \<Rightarrow> n | None \<Rightarrow> s_MaxAttempts cfg)"

definition retry_delay :: "int \<Rightarrow> goerr option \<Rightarrow> int" where
  "retry_delay backoff_delay retry =
     (let delay = (if backoff_delay < 0 then 0 else backoff_delay)
      in case retry of
           Some (RetryAfterError _ d) \<Rightarrow> if delay < d then d else delay
         | _ \<Rightarrow> delay)"

definition call_backoff :: "settings \<Rightarrow> int \<Rightarrow> int go" where
  "call_backoff cfg attempts =
     (case s_Backoff cfg of
        None \<Rightarrow> panic_go nil_dereference
      | Some b \<Rightarrow> bind_go take_tick (\<lambda>k.
          case b k attempts of Return d \<Rightarrow> ret_go d | Panic v \<Rightarrow> panic_go v))"

definition settle_retry :: "env \<Rightarrow> settings \<Rightarrow> goerr \<Rightarrow> goerr option \<Rightarrow> message \<Rightarrow> goerr option go" where
  "settle_retry env cfg perr retry m =
     (if effective_max cfg m \<le> m_Attempts m
      then complete env cfg [m] StatusDead (Some perr) 0
      else bind_go (call_backoff cfg (m_Attempts m)) (\<lambda>d.
        complete env cfg [m] StatusPending (Some perr) (retry_delay d retry)))"

definition settle :: "env \<Rightarrow> settings \<Rightarrow> message list \<Rightarrow> goerr option \<Rightarrow> goerr option go" where
  "settle env cfg msgs perr =
     (if msgs = [] then ret_go None
      else case perr of
        None \<Rightarrow> complete env cfg msgs StatusPublished None 0
      | Some e \<Rightarrow>
          (if has_as is_permanent e then complete env cfg msgs StatusDead (Some e) 0
           else if has_as is_discard e then complete env cfg msgs StatusDiscarded (Some e) 0
           else bind_go (for_each (settle_retry env cfg e (errors_as is_retry e)) msgs) (\<lambda>errs.
             ret_go (errors_join errs))))"

text \<open>
  \<open>settleEach\<close>: the loop splits the batch into the published group, the group taking the
  batch-level outcome, and the messages with an outcome of their own, which it settles at once.
\<close>

fun settle_own ::
  "env \<Rightarrow> settings \<Rightarrow> (string \<times> goerr option) list \<Rightarrow> goerr option \<Rightarrow> message list \<Rightarrow>
     (message list \<times> message list \<times> goerr option list) go" where
  "settle_own env cfg outcomes batch_err [] = ret_go ([], [], [])"
| "settle_own env cfg outcomes batch_err (m # ms) =
     (case (case map_of outcomes (m_ID m) of Some e \<Rightarrow> (e, True) | None \<Rightarrow> (batch_err, False)) of
        (outcome, ok) \<Rightarrow>
          if outcome = None then
            bind_go (settle_own env cfg outcomes batch_err ms) (\<lambda>(published, others, errs).
              ret_go (m # published, others, errs))
          else if \<not> ok then
            bind_go (settle_own env cfg outcomes batch_err ms) (\<lambda>(published, others, errs).
              ret_go (published, m # others, errs))
          else
            bind_go (settle env cfg [m] outcome) (\<lambda>err.
              bind_go (settle_own env cfg outcomes batch_err ms) (\<lambda>(published, others, errs).
                ret_go (published, others, err # errs))))"

definition settleEach ::
  "env \<Rightarrow> settings \<Rightarrow> message list \<Rightarrow> (string \<times> goerr option) list \<Rightarrow> goerr option \<Rightarrow> goerr option go" where
  "settleEach env cfg msgs outcomes batch_err =
     bind_go (settle_own env cfg outcomes batch_err msgs) (\<lambda>(published, others, errs).
       bind_go (settle env cfg published None) (\<lambda>e1.
         bind_go (settle env cfg others batch_err) (\<lambda>e2.
           ret_go (errors_join (errs @ [e1, e2])))))"

section \<open>Publishing under a heartbeat\<close>

definition renew_interval :: "settings \<Rightarrow> int" where
  "renew_interval cfg =
     (let interval = quot (s_LeaseDuration cfg) 3 in if interval \<le> 0 then 1 else interval)"

definition renew_error :: "goerr \<Rightarrow> goerr" where
  "renew_error e = Wrapped (''outbox: renew claims: '' @ error_text e) e"

text \<open>The empty list is the closed stop channel.\<close>

fun heartbeat :: "env \<Rightarrow> settings \<Rightarrow> message list \<Rightarrow> beat list \<Rightarrow> goerr option go" where
  "heartbeat env cfg msgs [] = ret_go None"
| "heartbeat env cfg msgs (BeatDone # _) = ret_go None"
| "heartbeat env cfg msgs (BeatTick done # beats) =
     bind_go (renew env msgs (s_LeaseDuration cfg)) (\<lambda>r.
       case r of
         None \<Rightarrow> heartbeat env cfg msgs beats
       | Some e \<Rightarrow>
           if done then ret_go None
           else bind_go (emit EvCancelPublish) (\<lambda>_. ret_go (Some (renew_error e))))"

definition call_publisher :: "env \<Rightarrow> message list \<Rightarrow> goerr option go" where
  "call_publisher env msgs =
     bind_go take_tick (\<lambda>n.
       case e_publish env n msgs of Return r \<Rightarrow> ret_go r | Panic v \<Rightarrow> panic_go v)"

text \<open>
  The heartbeat goroutine and the publisher run side by side; the publisher does not touch the
  table, so the renewals it overlaps with are taken first. \<open>publish\<close> waits for both.
\<close>

definition publish :: "env \<Rightarrow> settings \<Rightarrow> message list \<Rightarrow> (goerr option \<times> goerr option) go" where
  "publish env cfg msgs =
     bind_go (emit (EvPublish msgs)) (\<lambda>_.
       bind_go take_tick (\<lambda>n.
         bind_go (recovered (heartbeat env cfg msgs (e_beats env n))) (\<lambda>lease_err.
           bind_go (call_publisher env msgs) (\<lambda>perr. ret_go (perr, lease_err)))))"

section \<open>One batch\<close>

definition settle_batch :: "env \<Rightarrow> settings \<Rightarrow> message list \<Rightarrow> goerr option \<Rightarrow> goerr option go" where
  "settle_batch env cfg msgs perr =
     (case perr of
        None \<Rightarrow> settle env cfg msgs None
      | Some e \<Rightarrow>
          (case errors_as is_batch e of
             Some (BatchError outcomes batch_err) \<Rightarrow> settleEach env cfg msgs outcomes batch_err
           | _ \<Rightarrow> settle env cfg msgs perr))"

definition processBatch :: "env \<Rightarrow> settings \<Rightarrow> (nat \<times> goerr option) go" where
  "processBatch env cfg =
     bind_go (claim env cfg) (\<lambda>r.
       case r of
         Inl err \<Rightarrow> ret_go (0, Some err)
       | Inr msgs \<Rightarrow>
           if msgs = [] then ret_go (0, None)
           else
             bind_go (publish env cfg msgs) (\<lambda>(perr, lease_err).
               bind_go (case perr of None \<Rightarrow> ret_go False | Some e \<Rightarrow> isFatal env cfg e) (\<lambda>fatal.
                 if fatal then ret_go (length msgs, map_option FatalError perr)
                 else if lease_err \<noteq> None then ret_go (length msgs, lease_err)
                 else bind_go (settle_batch env cfg msgs perr) (\<lambda>err.
                   ret_go (length msgs, err)))))"

section \<open>Drain and worker\<close>

text \<open>\<open>Running\<close> is a loop that has not returned within the given number of passes or events.\<close>

datatype 'a run = Done 'a | Running

text \<open>The error branch of the loop: what drain returns for a failed batch.\<close>

definition batch_failed :: "env \<Rightarrow> settings \<Rightarrow> goerr \<Rightarrow> goerr option go" where
  "batch_failed env cfg err =
     (case errors_as is_fatal_error err of
        Some (FatalError e) \<Rightarrow> ret_go (Some e)
      | _ \<Rightarrow>
          bind_go (isFatal env cfg err) (\<lambda>fatal.
            if fatal then ret_go (Some err)
            else bind_go (emit (EvLogError ''outbox: relay batch failed'' err)) (\<lambda>_. ret_go None)))"

fun drain :: "nat \<Rightarrow> env \<Rightarrow> settings \<Rightarrow> goerr option run go" where
  "drain 0 env cfg = ret_go Running"
| "drain (Suc fuel) env cfg =
     bind_go (ctx_done env) (\<lambda>done.
       if done then ret_go (Done None)
       else bind_go (processBatch env cfg) (\<lambda>(n, err).
         case err of
           Some e \<Rightarrow> bind_go (batch_failed env cfg e) (\<lambda>r. ret_go (Done r))
         | None \<Rightarrow> if n = 0 then ret_go (Done None) else drain fuel env cfg))"

text \<open>What the worker's \<open>select\<close> receives: cancellation, the poll ticker, a wake-up.\<close>

datatype wakeup = WakeDone | WakeTick | WakeNotify

fun worker :: "nat \<Rightarrow> env \<Rightarrow> settings \<Rightarrow> wakeup list \<Rightarrow> goerr option run go" where
  "worker fuel env cfg [] = ret_go Running"
| "worker fuel env cfg (WakeDone # _) = ret_go (Done None)"
| "worker fuel env cfg (_ # ws) =
     bind_go (drain fuel env cfg) (\<lambda>r.
       case r of
         Running \<Rightarrow> ret_go Running
       | Done (Some e) \<Rightarrow> ret_go (Done (Some e))
       | Done None \<Rightarrow> worker fuel env cfg ws)"

text \<open>
  A worker goroutine of \<open>Run\<close>: \<open>recovered\<close> around the worker loop, which may be \<open>Running\<close>.
\<close>

definition recovered_run :: "goerr option run go \<Rightarrow> goerr option run go" where
  "recovered_run fn w = (case fn w of (Return r, w') \<Rightarrow> (Return r, w')
                                    | (Panic v, w') \<Rightarrow> (Return (Done (Some (PanicError v))), w'))"

definition worker_goroutine :: "nat \<Rightarrow> env \<Rightarrow> settings \<Rightarrow> wakeup list \<Rightarrow> goerr option run go" where
  "worker_goroutine fuel env cfg ws = recovered_run (worker fuel env cfg ws)"

section \<open>The listener\<close>

text \<open>
  One connection of the listener: acquiring it fails, \<open>LISTEN\<close> fails, or it delivers some
  notifications before waiting fails. The wake channel holds at most one pending signal; a
  send on a full channel takes the \<open>default\<close> case.
\<close>

datatype listen_conn = AcquireFails goerr | ListenFails goerr | Delivers nat goerr

fun send_wakes :: "nat \<Rightarrow> nat \<Rightarrow> nat" where
  "send_wakes 0 pending = pending"
| "send_wakes (Suc n) pending = send_wakes n (if pending < 1 then Suc pending else pending)"

fun listenOnce :: "listen_conn \<Rightarrow> nat \<Rightarrow> goerr \<times> nat" where
  "listenOnce (AcquireFails e) pending = (e, pending)"
| "listenOnce (ListenFails e) pending = (e, pending)"
| "listenOnce (Delivers n e) pending = (e, send_wakes n pending)"

text \<open>
  The reconnect loop over successive connections. Each comes with the value of
  \<open>ctx.Err() != nil\<close> before it and after it; a lost connection is logged while the context
  is live. The result is the number of pending wake-ups and the logged errors; \<open>Running\<close> if
  the loop has not stopped within the listed connections.
\<close>

fun listen :: "(bool \<times> listen_conn \<times> bool) list \<Rightarrow> nat \<Rightarrow> goerr list run \<times> nat" where
  "listen [] pending = (Running, pending)"
| "listen ((before, conn, after) # rest) pending =
     (if before then (Done [], pending)
      else
        (case listenOnce conn pending of
           (e, pending') \<Rightarrow>
             (case listen rest pending' of
                (Done logged, p) \<Rightarrow> (Done (if after then logged else e # logged), p)
              | (Running, p) \<Rightarrow> (Running, p))))"

section \<open>Run\<close>

text \<open>
  The listener goroutine: \<open>recovered\<close> around the loop, which has no result.
\<close>

definition listener_goroutine ::
  "(bool \<times> listen_conn \<times> bool) list \<Rightarrow> nat \<Rightarrow> goerr option run \<times> nat" where
  "listener_goroutine conns pending =
     (case listen conns pending of
        (Done logged, p) \<Rightarrow> (Done None, p)
      | (Running, p) \<Rightarrow> (Running, p))"

text \<open>
  The goroutines of \<open>Run\<close>: the listener when notifications are on and a pool is there, and the
  workers. A worker is at its \<open>select\<close> (or still draining) with the world as it sees it; what the
  other goroutines do to the database meanwhile is in the answers of its environment, like any other
  session's. The wake channel holds \<open>sv_pending\<close> signals.
\<close>

datatype goroutine = Listening | Working world | Returned

definition goroutines :: "settings \<Rightarrow> nat option \<Rightarrow> (nat \<Rightarrow> world) \<Rightarrow> goroutine list" where
  "goroutines cfg pool views =
     (if s_Notify cfg \<and> pool \<noteq> None then [Listening] else []) @
     map (\<lambda>i. Working (views i)) [0..<nat (s_Concurrency cfg)]"

record supervisor =
  sv_goroutines :: "goroutine list"
  sv_pending :: nat
  sv_failure :: "goerr option"
  sv_caller_done :: bool
  sv_cancelled :: bool

definition Run_start :: "settings \<Rightarrow> nat option \<Rightarrow> (nat \<Rightarrow> world) \<Rightarrow> bool \<Rightarrow> supervisor" where
  "Run_start cfg pool views caller_done =
     \<lparr>sv_goroutines = goroutines cfg pool views, sv_pending = 0, sv_failure = None,
      sv_caller_done = caller_done, sv_cancelled = caller_done\<rparr>"

definition fail_once :: "goerr option \<Rightarrow> supervisor \<Rightarrow> supervisor" where
  "fail_once err s =
     (case err of
        None \<Rightarrow> s
      | Some e \<Rightarrow>
          (if sv_failure s = None then s\<lparr>sv_failure := Some e, sv_cancelled := True\<rparr> else s))"

text \<open>What the \<open>select\<close> of a worker can receive now, and what is left after it.\<close>

fun can_receive :: "supervisor \<Rightarrow> wakeup \<Rightarrow> bool" where
  "can_receive s WakeDone = sv_cancelled s"
| "can_receive s WakeTick = True"
| "can_receive s WakeNotify = (0 < sv_pending s)"

definition receive :: "wakeup \<Rightarrow> supervisor \<Rightarrow> supervisor" where
  "receive x s = (if x = WakeNotify then s\<lparr>sv_pending := sv_pending s - 1\<rparr> else s)"

text \<open>A goroutine goes on, or its function has returned and \<open>fail\<close> is called with the result.\<close>

definition turn_over :: "nat \<Rightarrow> goroutine \<Rightarrow> goerr option run \<Rightarrow> supervisor \<Rightarrow> supervisor" where
  "turn_over i g r s =
     (case r of
        Running \<Rightarrow> s\<lparr>sv_goroutines := (sv_goroutines s)[i := g]\<rparr>
      | Done err \<Rightarrow> fail_once err (s\<lparr>sv_goroutines := (sv_goroutines s)[i := Returned]\<rparr>))"

text \<open>
  One step of the group: the caller's context is cancelled, or one goroutine takes a turn, which runs
  its code: a worker receives one value and runs \<open>worker_goroutine\<close> on it, the listener
  tests the context and uses one connection (or the driver panics, and \<open>recovered\<close> makes that the result).
\<close>

inductive run_step :: "(nat \<Rightarrow> env) \<Rightarrow> settings \<Rightarrow> supervisor \<Rightarrow> supervisor \<Rightarrow> bool" for envs cfg where
  caller_cancels: "run_step envs cfg s (s\<lparr>sv_caller_done := True, sv_cancelled := True\<rparr>)"
| worker_turn: "i < length (sv_goroutines s) \<Longrightarrow> sv_goroutines s ! i = Working w \<Longrightarrow> can_receive s x \<Longrightarrow>
     worker_goroutine fuel (envs i) cfg [x] w = (Return r, w') \<Longrightarrow>
     run_step envs cfg s (turn_over i (Working w') r (receive x s))"
| listener_turn: "i < length (sv_goroutines s) \<Longrightarrow> sv_goroutines s ! i = Listening \<Longrightarrow>
     listener_goroutine [(sv_cancelled s, conn, later)] (sv_pending s) = (r, pending) \<Longrightarrow>
     run_step envs cfg s (turn_over i Listening r (s\<lparr>sv_pending := pending\<rparr>))"
| listener_panics: "i < length (sv_goroutines s) \<Longrightarrow> sv_goroutines s ! i = Listening \<Longrightarrow>
     run_step envs cfg s (turn_over i Listening (Done (Some (PanicError v))) s)"

text \<open>\<open>wg.Wait()\<close> is over when every goroutine has ended; then \<open>Run\<close> returns the recorded failure.\<close>

definition Run_returns :: "supervisor \<Rightarrow> goerr option option" where
  "Run_returns s = (if list_all (\<lambda>g. g = Returned) (sv_goroutines s) then Some (sv_failure s) else None)"

inductive_simps run_step_iff: "run_step envs cfg s s'"

end
