(* ===== verification/Cleaner.thy ===== *)
theory Cleaner
  imports Relay
begin

text \<open>
  The cleaner of \<^verbatim>\<open>engine/cleaner.go\<close>: on every tick it deletes full batches until one comes
  back short.
\<close>

definition cleaner_enabled :: "settings \<Rightarrow> bool" where
  "cleaner_enabled cfg \<longleftrightarrow>
     \<not> (s_CleanupInterval cfg \<le> 0 \<or>
        (s_Retention cfg \<le> 0 \<and> s_DeadRetention cfg \<le> 0 \<and> s_DiscardRetention cfg \<le> 0))"

text \<open>The inner loop; \<open>Some e\<close> is a fatal error, \<open>None\<close> a break.\<close>

fun cleanup_pass :: "nat \<Rightarrow> env \<Rightarrow> settings \<Rightarrow> goerr option run go" where
  "cleanup_pass 0 env cfg = ret_go Running"
| "cleanup_pass (Suc fuel) env cfg =
     bind_go (ctx_done env) (\<lambda>done.
       if done then ret_go (Done None)
       else bind_go (Store_cleanup env cfg) (\<lambda>r.
         case r of
           Inl err \<Rightarrow>
             bind_go (isFatal env cfg err) (\<lambda>fatal.
               if fatal then ret_go (Done (Some err))
               else bind_go (emit (EvLogError ''outbox: cleanup failed'' err)) (\<lambda>_.
                 ret_go (Done None)))
         | Inr n \<Rightarrow>
             bind_go (if 0 < n then call_hook env cfg (EvOnCleanup (int n)) else ret_go ()) (\<lambda>_.
               if int n < s_BatchSize cfg then ret_go (Done None)
               else cleanup_pass fuel env cfg)))"

datatype cleaner_event = CleanerDone | CleanerTick

fun cleaner_loop :: "nat \<Rightarrow> env \<Rightarrow> settings \<Rightarrow> cleaner_event list \<Rightarrow> goerr option run go" where
  "cleaner_loop fuel env cfg [] = ret_go Running"
| "cleaner_loop fuel env cfg (CleanerDone # _) = ret_go (Done None)"
| "cleaner_loop fuel env cfg (CleanerTick # evs) =
     bind_go (cleanup_pass fuel env cfg) (\<lambda>r.
       case r of
         Running \<Rightarrow> ret_go Running
       | Done (Some e) \<Rightarrow> ret_go (Done (Some e))
       | Done None \<Rightarrow> cleaner_loop fuel env cfg evs)"

definition cleaner_run :: "nat \<Rightarrow> env \<Rightarrow> settings \<Rightarrow> cleaner_event list \<Rightarrow> goerr option run go" where
  "cleaner_run fuel env cfg evs =
     (if \<not> cleaner_enabled cfg then ret_go (Done None) else cleaner_loop fuel env cfg evs)"

text \<open>\<open>Cleaner.Run\<close>: a panic is recovered.\<close>

definition Cleaner_Run :: "nat \<Rightarrow> env \<Rightarrow> settings \<Rightarrow> cleaner_event list \<Rightarrow> goerr option run go" where
  "Cleaner_Run fuel env cfg evs = recovered_run (cleaner_run fuel env cfg evs)"

end
