(* ===== verification/Outbox.thy ===== *)
theory Outbox
  imports Cleaner
begin

text \<open>
  The facade of \<^verbatim>\<open>outbox.go\<close>: construction with its validation, the enqueue operations, replay
  and the lifecycle of \<open>Run\<close>.
\<close>

definition ErrNoCodec :: goerr where
  "ErrNoCodec = Plain ''outbox: no codec configured (use WithCodec)''"

definition ErrNoExecutor :: goerr where
  "ErrNoExecutor = Plain ''outbox: a relay executor is required''"

text \<open>The relay and the cleaner are built from the same store and settings.\<close>

record outbox =
  ob_store :: store
  ob_set :: settings

text \<open>\<open>exec.(*pgxpool.Pool)\<close>\<close>

fun pool_of :: "executor \<Rightarrow> nat option" where
  "pool_of (PoolExecutor p) = Some p"
| "pool_of (OtherExecutor _) = None"

definition New ::
  "(nat \<Rightarrow> 64 word) \<Rightarrow> 8 word list \<Rightarrow> string option \<Rightarrow>
     executor option \<Rightarrow> executor option \<Rightarrow> option_fn list \<Rightarrow> goerr + outbox" where
  "New raw b hostname exec enq opts =
     (let cfg = Resolve raw b hostname opts
      in if \<not> ValidSchema (s_Schema cfg) then Inl ErrInvalidSchema
         else case exec of
           None \<Rightarrow> Inl ErrNoExecutor
         | Some ex \<Rightarrow>
             (let listenPool = (case s_ListenPool cfg of Some p \<Rightarrow> Some p | None \<Rightarrow> pool_of ex)
              in Inr \<lparr>ob_store = NewStore exec enq listenPool (s_Schema cfg), ob_set = cfg\<rparr>))"

definition Enqueue :: "env \<Rightarrow> outbox \<Rightarrow> message \<Rightarrow> goerr option go" where
  "Enqueue env ob m =
     (case Validate m of
        Some err \<Rightarrow> ret_go (Some err)
      | None \<Rightarrow> Store_Enqueue env (ob_store ob) [m])"

text \<open>The validation loop returns the first error.\<close>

fun validate_all :: "message list \<Rightarrow> goerr option" where
  "validate_all [] = None"
| "validate_all (m # ms) = (case Validate m of Some err \<Rightarrow> Some err | None \<Rightarrow> validate_all ms)"

definition EnqueueBatch :: "env \<Rightarrow> outbox \<Rightarrow> message list \<Rightarrow> goerr option go" where
  "EnqueueBatch env ob ms =
     (case validate_all ms of
        Some err \<Rightarrow> ret_go (Some err)
      | None \<Rightarrow> Store_Enqueue env (ob_store ob) ms)"

text \<open>A message literal: the fields not named have their zero values.\<close>

definition zero_message :: message where
  "zero_message =
     \<lparr>m_ID = '''', m_Topic = '''', m_PartitionKey = '''', m_Payload = None, m_Headers = None,
      m_ContentType = '''', m_MessageType = '''', m_MaxAttempts = None,
      m_Status = None, m_Attempts = 0, m_LeaseToken = '''', m_LockedBy = '''',
      m_LockedUntil = None, m_NextAttemptAt = 0, m_LastError = '''', m_CreatedAt = 0,
      m_PublishedAt = None, m_FinishedAt = None\<rparr>"

definition EnqueueValue ::
  "env \<Rightarrow> outbox \<Rightarrow> string \<Rightarrow> string \<Rightarrow> string \<Rightarrow> goval \<Rightarrow> goerr option go" where
  "EnqueueValue env ob topic partitionKey msgType v =
     (case s_Codec (ob_set ob) of
        None \<Rightarrow> ret_go (Some ErrNoCodec)
      | Some c \<Rightarrow>
          (case cd_Marshal c v of
             (payload, ct, Some err) \<Rightarrow> ret_go (Some err)
           | (payload, ct, None) \<Rightarrow>
               Enqueue env ob (zero_message
                 \<lparr>m_Topic := topic, m_PartitionKey := partitionKey, m_MessageType := msgType,
                  m_Payload := payload, m_ContentType := ct\<rparr>)))"

definition Requeue :: "env \<Rightarrow> outbox \<Rightarrow> string \<Rightarrow> (bool \<times> goerr option) go" where
  "Requeue env ob ident = Store_Requeue env (ob_store ob) ident"

text \<open>
  \<open>Run\<close> receives the results of the relay and the cleaner in the order they end. The state is
  the recorded failure and whether the derived context is cancelled.
\<close>

fun Run_collect :: "goerr option list \<Rightarrow> goerr option \<times> bool \<Rightarrow> goerr option \<times> bool" where
  "Run_collect [] st = st"
| "Run_collect (err # errs) (failure, cancelled) =
     Run_collect errs
       (if err \<noteq> None \<and> failure = None then (err, True) else (failure, cancelled))"

definition Outbox_Run :: "goerr option \<Rightarrow> goerr option \<Rightarrow> goerr option \<Rightarrow> goerr option" where
  "Outbox_Run first_result second_result ctx_err =
     (case Run_collect [first_result, second_result] (None, False) of
        (Some failure, _) \<Rightarrow> Some failure
      | (None, _) \<Rightarrow> ctx_err)"

end
