(* ===== verification/Table_Facts.thy ===== *)
theory Table_Facts
  imports Table
begin

text \<open>
  What each statement of theory \<open>Table\<close> does: which rows it selects, what it writes, and that
  everything else stays as it is. The update statements are instances of one contract, the
  locale \<open>keyed_update\<close>.
\<close>

section \<open>Updates of selected rows\<close>

text \<open>The columns no statement of the engine ever writes.\<close>

definition same_origin :: "row \<Rightarrow> row \<Rightarrow> bool" where
  "same_origin r r' \<longleftrightarrow>
     r_id r' = r_id r \<and> r_topic r' = r_topic r \<and> r_partition_key r' = r_partition_key r \<and>
     r_content_type r' = r_content_type r \<and> r_message_type r' = r_message_type r \<and>
     r_max_attempts r' = r_max_attempts r \<and> r_created_at r' = r_created_at r \<and>
     r_seq r' = r_seq r"

lemma same_origin_refl [simp]: "same_origin r r"
  by (simp add: same_origin_def)

lemma same_origin_trans: "same_origin a b \<Longrightarrow> same_origin b c \<Longrightarrow> same_origin a c"
  by (simp add: same_origin_def)

lemma same_origin_id: "same_origin r r' \<Longrightarrow> r_id r' = r_id r"
  by (simp add: same_origin_def)

lemma same_origin_order: "same_origin r r' \<Longrightarrow> row_order r' = row_order r"
  by (simp add: same_origin_def row_order_def)

text \<open>
  An UPDATE: the rows selected by a test are rewritten in place, each keeping its origin. The
  contract gives the facts every such statement shares.
\<close>

locale keyed_update =
  fixes sel :: "row \<Rightarrow> bool" and upd :: "row \<Rightarrow> row"
  assumes upd_origin: "same_origin r (upd r)"
begin

lemma update_in_place: "list_all2 same_origin tbl (map (\<lambda>r. if sel r then upd r else r) tbl)"
  by (induction tbl) (auto simp: upd_origin)

lemma update_ids: "map r_id (map (\<lambda>r. if sel r then upd r else r) tbl) = map r_id tbl"
  by (simp add: same_origin_id [OF upd_origin])

lemma update_none: "\<forall>r \<in> set tbl. \<not> sel r \<Longrightarrow> map (\<lambda>r. if sel r then upd r else r) tbl = tbl"
  by (induction tbl) auto

lemma update_cases:
  assumes "r' \<in> set (map (\<lambda>r. if sel r then upd r else r) tbl)"
  obtains r where "r \<in> set tbl" "sel r" "r' = upd r" | "r' \<in> set tbl" "\<not> sel r'"
  using assms by auto

end

lemma claim_row_origin: "same_origin r (claim_row inst until token r)"
  by (simp add: same_origin_def claim_row_def)

lemma finish_row_origin: "same_origin r (finish_row st reason clk nxt clear r)"
  by (simp add: same_origin_def finish_row_def Let_def)

lemma requeue_row_origin: "same_origin r (requeue_row clk r)"
  by (simp add: same_origin_def requeue_row_def)

interpretation renew_upd: keyed_update "owned keys clk" "\<lambda>r. r\<lparr>r_locked_until := Some until\<rparr>"
  for keys clk until
  by unfold_locales (simp add: same_origin_def)

interpretation finish_upd: keyed_update "owned keys clk" "finish_row st reason clk nxt clear"
  for keys clk st reason nxt clear
  by unfold_locales (rule finish_row_origin)

interpretation requeue_upd: keyed_update "requeuable ident" "requeue_row clk"
  for ident clk
  by unfold_locales (rule requeue_row_origin)

lemma finish_row_sel [simp]:
  "r_status (finish_row st reason clk nxt clear r) = st"
  "r_id (finish_row st reason clk nxt clear r) = r_id r"
  "r_lease_token (finish_row st reason clk nxt clear r) = None"
  "r_attempts (finish_row st reason clk nxt clear r) = r_attempts r"
  "r_seq (finish_row st reason clk nxt clear r) = r_seq r"
  by (simp_all add: finish_row_def Let_def)

lemma claim_row_sel [simp]:
  "r_status (claim_row inst until token r) = StatusProcessing"
  "r_id (claim_row inst until token r) = r_id r"
  "r_lease_token (claim_row inst until token r) = Some token"
  "r_locked_until (claim_row inst until token r) = Some until"
  "r_attempts (claim_row inst until token r) = r_attempts r + 1"
  "r_seq (claim_row inst until token r) = r_seq r"
  "r_created_at (claim_row inst until token r) = r_created_at r"
  "r_partition_key (claim_row inst until token r) = r_partition_key r"
  by (simp_all add: claim_row_def)

lemma requeue_row_sel [simp]:
  "r_status (requeue_row clk r) = StatusPending"
  "r_id (requeue_row clk r) = r_id r"
  "r_lease_token (requeue_row clk r) = None"
  "r_attempts (requeue_row clk r) = 0"
  "r_seq (requeue_row clk r) = r_seq r"
  by (simp_all add: requeue_row_def)

lemma owned_status: "owned keys clk r \<Longrightarrow> r_status r = StatusProcessing"
  by (simp add: owned_def)

lemma ownedE:
  assumes "owned keys clk r"
  obtains t u where "r_lease_token r = Some t" "(r_id r, t) \<in> set keys"
    "r_status r = StatusProcessing" "r_locked_until r = Some u" "clk < u"
  using assms by (cases "r_lease_token r"; cases "r_locked_until r") (auto simp: owned_def)

section \<open>Claim\<close>

lemma claim_update_all:
  assumes "claim_update gen inst until ids k tbl = (tbl', out, k')"
  shows "list_all2 (\<lambda>r r'. if r_id r \<in> set ids
             then \<exists>j. k \<le> j \<and> j < k' \<and> r' = claim_row inst until (gen j) r else r' = r) tbl tbl' \<and>
    out = filter (\<lambda>r. r_id r \<in> set ids) tbl' \<and>
    k' = k + length out \<and>
    map r_lease_token out = map (\<lambda>j. Some (gen j)) [k..<k']"
  using assms
proof (induction tbl arbitrary: k tbl' out k')
  case Nil
  then show ?case by simp
next
  case (Cons r rs)
  define k1 where "k1 = (if r_id r \<in> set ids then Suc k else k)"
  obtain t1 o1 k2 where rec: "claim_update gen inst until ids k1 rs = (t1, o1, k2)"
    by (metis surj_pair)
  have eq: "claim_update gen inst until ids k (r # rs) =
      (if r_id r \<in> set ids then (claim_row inst until (gen k) r # t1, claim_row inst until (gen k) r # o1, k2)
       else (r # t1, o1, k2))"
    using rec by (simp add: k1_def Let_def split: if_splits)
  have res: "tbl' = (if r_id r \<in> set ids then claim_row inst until (gen k) r else r) # t1"
      "out = (if r_id r \<in> set ids then claim_row inst until (gen k) r # o1 else o1)" "k' = k2"
    using trans [OF sym [OF Cons.prems] eq] by (auto split: if_splits)
  note IH = Cons.IH [OF rec]
  have weak: "list_all2 (\<lambda>r r'. if r_id r \<in> set ids
             then \<exists>j. k \<le> j \<and> j < k2 \<and> r' = claim_row inst until (gen j) r else r' = r) rs t1"
    by (rule list_all2_mono [OF conjunct1 [OF IH]])
      (auto simp: k1_def split: if_splits dest: Suc_leD intro: Suc_leD)
  have len: "k2 = k1 + length o1" using IH by blast
  have "map r_lease_token o1 = map (\<lambda>j. Some (gen j)) [k1..<k2]" using IH by blast
  moreover have "[k..<k2] = (if r_id r \<in> set ids then k # [k1..<k2] else [k1..<k2])"
    using len by (simp add: k1_def upt_rec [of k])
  ultimately have toks: "map r_lease_token out = map (\<lambda>j. Some (gen j)) [k..<k2]"
    by (simp add: res(2))
  show ?case
    using weak len IH toks unfolding res by (auto simp: k1_def)
qed

lemmas claim_update_spec =
  claim_update_all [THEN conjunct1]
  claim_update_all [THEN conjunct2, THEN conjunct1]
  claim_update_all [THEN conjunct2, THEN conjunct2, THEN conjunct1]
  claim_update_all [THEN conjunct2, THEN conjunct2, THEN conjunct2]

lemma claim_update_in_place:
  "claim_update gen inst until ids k tbl = (tbl', out, k') \<Longrightarrow> list_all2 same_origin tbl tbl'"
  by (rule list_all2_mono [OF claim_update_spec(1)])
    (auto simp: claim_row_origin split: if_splits)

lemma in_place_ids: "list_all2 same_origin tbl tbl' \<Longrightarrow> map r_id tbl' = map r_id tbl"
  by (induction rule: list_all2_induct) (auto simp: same_origin_id)

lemma in_place_seqs: "list_all2 same_origin tbl tbl' \<Longrightarrow> map r_seq tbl' = map r_seq tbl"
  by (induction rule: list_all2_induct) (auto simp: same_origin_def)

lemma claim_pick_length: "length (claim_pick ordered batch now locked tbl) \<le> nat batch"
  by (simp add: claim_pick_def)

lemma claim_pickD:
  assumes "r \<in> set (claim_pick ordered batch now locked tbl)"
  shows "r \<in> set tbl" and "claimable now r" and "\<not> locked (r_id r)"
    and "ordered \<Longrightarrow> \<not> held_back tbl r"
  using assms by (auto simp: claim_pick_def claim_candidates_def dest!: in_set_takeD)


lemma claim_pick_distinct:
  "distinct (map r_id tbl) \<Longrightarrow> distinct (map r_id (claim_pick ordered batch now locked tbl))"
  unfolding claim_pick_def
  by (rule distinct_map_take_filter)
    (simp add: distinct_map_sort_key claim_candidates_def distinct_map_filter)

text \<open>Nothing is passed over: an unlocked candidate that is left out comes after a full batch.\<close>

lemma claim_pick_left_out:
  assumes "r \<in> set (claim_candidates ordered now tbl)" and "\<not> locked (r_id r)"
    and "r \<notin> set (claim_pick ordered batch now locked tbl)"
  shows "length (claim_pick ordered batch now locked tbl) = nat batch"
    and "p \<in> set (claim_pick ordered batch now locked tbl) \<Longrightarrow> row_order p \<le> row_order r"
proof -
  let ?s = "filter (\<lambda>r. \<not> locked (r_id r)) (sort_key row_order (claim_candidates ordered now tbl))"
  have "r \<in> set ?s" using assms(1,2) by simp
  then have drop: "r \<in> set (drop (nat batch) ?s)"
    using assms(3) unfolding claim_pick_def
    by (metis Un_iff append_take_drop_id set_append)
  then show "length (claim_pick ordered batch now locked tbl) = nat batch"
    unfolding claim_pick_def by (rule length_take_full)
  assume "p \<in> set (claim_pick ordered batch now locked tbl)"
  then show "row_order p \<le> row_order r"
    unfolding claim_pick_def using drop
    by (rule set_take_sorted_prefix [rotated]) (simp add: sorted_map_filter)
qed

lemma in_pick_iff:
  assumes "distinct (map r_id tbl)" and "r \<in> set tbl"
  shows "r_id r \<in> set (map r_id (claim_pick ordered batch now locked tbl)) \<longleftrightarrow>
    r \<in> set (claim_pick ordered batch now locked tbl)"
proof
  assume "r_id r \<in> set (map r_id (claim_pick ordered batch now locked tbl))"
  then obtain p where p: "p \<in> set (claim_pick ordered batch now locked tbl)" "r_id r = r_id p"
    by auto
  then have "p \<in> set tbl" by (blast dest: claim_pickD(1))
  then have "r = p"
    using assms p(2) by (auto simp: distinct_map dest: inj_onD)
  then show "r \<in> set (claim_pick ordered batch now locked tbl)" using p(1) by simp
qed auto

lemma list_all2_in_set2:
  "list_all2 P xs ys \<Longrightarrow> y \<in> set ys \<Longrightarrow> \<exists>x \<in> set xs. P x y"
  by (induction rule: list_all2_induct) auto

lemma list_all2_in_set1:
  "list_all2 P xs ys \<Longrightarrow> x \<in> set xs \<Longrightarrow> \<exists>y \<in> set ys. P x y"
  by (induction rule: list_all2_induct) auto

text \<open>What a claim returns and what it does to the table.\<close>

lemma sql_claim_rows:
  assumes "distinct (map r_id tbl)"
    and "sql_claim gen k now locked ordered inst until batch tbl = (tbl', out, k')"
    and "r' \<in> set tbl'"
  obtains r where "r \<in> set tbl"
    "if r \<in> set (claim_pick ordered batch now locked tbl)
     then (\<exists>j. k \<le> j \<and> j < k' \<and> r' = claim_row inst until (gen j) r) \<and> r' \<in> set out
     else r' = r \<and> r' \<notin> set out"
proof -
  let ?ids = "map r_id (claim_pick ordered batch now locked tbl)"
  note cu = assms(2) [unfolded sql_claim_def]
  from list_all2_in_set2 [OF claim_update_spec(1) [OF cu] assms(3)]
  obtain r where r: "r \<in> set tbl" and P: "if r_id r \<in> set ?ids
      then \<exists>j. k \<le> j \<and> j < k' \<and> r' = claim_row inst until (gen j) r else r' = r"
    by blast
  have out: "r' \<in> set out \<longleftrightarrow> r_id r' \<in> set ?ids"
    using claim_update_spec(2) [OF cu] assms(3) by auto
  have ids: "r_id r' = r_id r" using P by (auto split: if_splits)
  show thesis
    using that [OF r] P out ids in_pick_iff [OF assms(1) r] by (auto split: if_splits)
qed

lemma sql_claim_out:
  assumes "distinct (map r_id tbl)"
    and "sql_claim gen k now locked ordered inst until batch tbl = (tbl', out, k')"
    and "m \<in> set out"
  obtains r j where "r \<in> set (claim_pick ordered batch now locked tbl)"
    "k \<le> j" "j < k'" "m = claim_row inst until (gen j) r"
proof -
  have "m \<in> set tbl'"
    using assms(3) claim_update_spec(2) [OF assms(2) [unfolded sql_claim_def]] by auto
  with assms(1,2) obtain r where "r \<in> set tbl"
    "if r \<in> set (claim_pick ordered batch now locked tbl)
     then (\<exists>j. k \<le> j \<and> j < k' \<and> m = claim_row inst until (gen j) r) \<and> m \<in> set out
     else m = r \<and> m \<notin> set out"
    by (rule sql_claim_rows)
  then show thesis using that assms(3) by (auto split: if_splits)
qed

lemma sql_claim_ids:
  assumes "sql_claim gen k now locked ordered inst until batch tbl = (tbl', out, k')"
  shows "map r_id tbl' = map r_id tbl"
  using claim_update_in_place [OF assms [unfolded sql_claim_def]] by (rule in_place_ids)

lemma sql_claim_out_ids:
  assumes "distinct (map r_id tbl)"
    and "sql_claim gen k now locked ordered inst until batch tbl = (tbl', out, k')"
  shows "mset (map r_id out) = mset (map r_id (claim_pick ordered batch now locked tbl))"
proof -
  let ?p = "claim_pick ordered batch now locked tbl"
  note cu = assms(2) [unfolded sql_claim_def]
  have ids: "map r_id out = filter (\<lambda>i. i \<in> set (map r_id ?p)) (map r_id tbl)"
    unfolding claim_update_spec(2) [OF cu]
    by (subst in_place_ids [OF claim_update_in_place [OF cu], symmetric])
      (simp add: filter_map comp_def)
  have "distinct (map r_id out)" using assms(1) ids by simp
  moreover have "distinct (map r_id ?p)" using assms(1) by (rule claim_pick_distinct)
  moreover have "set (map r_id out) = set (map r_id ?p)"
    unfolding ids using claim_pickD(1) by fastforce
  ultimately show ?thesis by (metis set_eq_iff_mset_eq_distinct)
qed

lemma sql_claim_length:
  assumes "distinct (map r_id tbl)"
    and "sql_claim gen k now locked ordered inst until batch tbl = (tbl', out, k')"
  shows "length out = length (claim_pick ordered batch now locked tbl)"
  using sql_claim_out_ids [OF assms] by (metis length_map mset_eq_length)

text \<open>
  In ordered mode the candidates of one partition key are its head: two claimed rows with the
  same key would hold each other back.
\<close>

lemma ordered_pick_head:
  assumes "r \<in> set (claim_pick True batch now locked tbl)"
    and "e \<in> set tbl" and "r_partition_key r = Some key" and "r_partition_key e = Some key"
    and "row_order e < row_order r"
  shows "r_status e = StatusPublished \<or> r_status e = StatusDiscarded"
  using claim_pickD(4) [OF assms(1)] assms(2-5)
  by (auto simp: held_back_def holds_back_def list_ex_iff)

lemma row_order_neq: "r_seq a \<noteq> r_seq b \<Longrightarrow> row_order a \<noteq> row_order b"
  by (simp add: row_order_def)

lemma claimable_not_terminal: "claimable now r \<Longrightarrow> \<not> terminal (r_status r)"
  by (auto simp: claimable_def)

lemma ordered_pick_one_per_key:
  assumes "distinct (map r_seq tbl)"
    and "a \<in> set (claim_pick True batch now locked tbl)"
    and "b \<in> set (claim_pick True batch now locked tbl)"
    and "r_partition_key a = Some key" and "r_partition_key b = Some key"
  shows "a = b"
proof (rule ccontr)
  assume "a \<noteq> b"
  note in_tbl = claim_pickD(1) [OF assms(2)] claim_pickD(1) [OF assms(3)]
  have "r_seq a \<noteq> r_seq b"
    using \<open>a \<noteq> b\<close> assms(1) in_tbl by (auto simp: distinct_map dest: inj_onD)
  then have "row_order a < row_order b \<or> row_order b < row_order a"
    using row_order_neq by (meson linorder_neqE)
  then show False
    using ordered_pick_head [OF assms(3) in_tbl(1) assms(5,4)]
      ordered_pick_head [OF assms(2) in_tbl(2) assms(4,5)]
      claimable_not_terminal [OF claim_pickD(2) [OF assms(2)]]
      claimable_not_terminal [OF claim_pickD(2) [OF assms(3)]]
    by (auto simp: terminal_def)
qed

section \<open>Cleanup\<close>

lemma expired_terminal: "expired rt r \<Longrightarrow> terminal (r_status r)"
  by (auto simp: expired_def terminal_def)

lemma cleanup_pickD:
  assumes "r \<in> set (cleanup_pick rt batch locked tbl)"
  shows "r \<in> set tbl" and "expired rt r" and "\<not> locked (r_id r)"
  using assms by (auto simp: cleanup_pick_def dest!: in_set_takeD)

lemma cleanup_pick_length: "length (cleanup_pick rt batch locked tbl) \<le> nat batch"
  by (simp add: cleanup_pick_def)

lemma cleanup_pick_distinct:
  "distinct (map r_id tbl) \<Longrightarrow> distinct (map r_id (cleanup_pick rt batch locked tbl))"
  unfolding cleanup_pick_def
  by (rule distinct_map_take_filter) (simp add: distinct_map_sort_key distinct_map_filter)

lemma cleanup_deleted:
  assumes "distinct (map r_id tbl)" and "r \<in> set tbl"
    and "r \<notin> set (fst (sql_cleanup rt batch locked tbl))"
  shows "r \<in> set (cleanup_pick rt batch locked tbl)"
proof -
  obtain p where p: "p \<in> set (cleanup_pick rt batch locked tbl)" "r_id r = r_id p"
    using assms(2,3) by (auto simp: sql_cleanup_def Let_def)
  moreover have "p \<in> set tbl" using p(1) by (rule cleanup_pickD)
  ultimately show ?thesis
    using assms(1,2) by (auto simp: distinct_map dest: inj_onD)
qed

lemma cleanup_count:
  assumes "distinct (map r_id tbl)"
  shows "snd (sql_cleanup rt batch locked tbl) = length (cleanup_pick rt batch locked tbl)"
proof -
  let ?p = "cleanup_pick rt batch locked tbl"
  have "map r_id (filter (\<lambda>r. r_id r \<in> set (map r_id ?p)) tbl)
      = filter (\<lambda>i. i \<in> set (map r_id ?p)) (map r_id tbl)"
    by (simp add: filter_map comp_def)
  moreover have "set (filter (\<lambda>i. i \<in> set (map r_id ?p)) (map r_id tbl)) = set (map r_id ?p)"
    using cleanup_pickD(1) by fastforce
  moreover have "distinct (filter (\<lambda>i. i \<in> set (map r_id ?p)) (map r_id tbl))"
    using assms by simp
  ultimately have "length (filter (\<lambda>r. r_id r \<in> set (map r_id ?p)) tbl) = length (map r_id ?p)"
    using cleanup_pick_distinct [OF assms] by (metis distinct_card length_map)
  then show ?thesis by (simp add: sql_cleanup_def Let_def)
qed

lemma cleanup_shrinks:
  "length (fst (sql_cleanup rt batch locked tbl)) + snd (sql_cleanup rt batch locked tbl) = length tbl"
  using sum_length_filter_compl
    [of "\<lambda>r. r_id r \<in> set (map r_id (cleanup_pick rt batch locked tbl))" tbl]
  by (simp add: sql_cleanup_def Let_def add.commute)

section \<open>Insert\<close>

lemma sql_insert_keeps: "r \<in> set tbl \<Longrightarrow> r \<in> set (fst (sql_insert gen now k seq vs tbl))"
  by (induction gen now k seq vs tbl rule: sql_insert.induct) (auto split: option.splits)

lemma sql_insert_prefix: "\<exists>new. fst (sql_insert gen now k seq vs tbl) = tbl @ new"
proof (induction gen now k seq vs tbl rule: sql_insert.induct)
  case (1 gen now k seq tbl)
  then show ?case by simp
next
  case (2 gen now k seq v vs tbl)
  then show ?case by (auto split: option.splits simp: Let_def) fastforce+
qed

lemma sql_insert_distinct:
  "distinct (map r_id tbl) \<Longrightarrow> distinct (map r_id (fst (sql_insert gen now k seq vs tbl)))"
  by (induction gen now k seq vs tbl rule: sql_insert.induct)
    (auto split: option.splits simp: fresh_row_def)

end
