(* ===== verification/Steps.thy ===== *)
theory Steps
  imports Table_Facts Json
begin

text \<open>
  The database as an abstract state machine. A step is one committed statement with any
  parameters, so every interleaving of relays, cleaners, enqueuers and replays, of any number
  of processes, is a sequence of steps. The theory proves the invariant of the machine, the
  lifecycle of a row, and the fence: an attempt whose token has left the table never comes
  back. Theory \<open>Engine_Steps\<close> shows that the Go code only makes such steps.
\<close>

section \<open>The machine\<close>

datatype label = LInsert | LClaim | LRenew | LFinish | LRequeue | LCleanup

inductive db_step :: "(nat \<Rightarrow> string) \<Rightarrow> label \<Rightarrow> database \<Rightarrow> database \<Rightarrow> bool" for gen where
  step_insert: "sql_insert gen now (d_uuid d) (d_seq d) vs (d_rows d) = (tbl, k, s) \<Longrightarrow>
    \<forall>v \<in> set vs. jsonb_ok (v_headers v) \<Longrightarrow>
    db_step gen LInsert d
      (d\<lparr>d_rows := tbl, d_uuid := k, d_seq := s, d_notified := Suc (d_notified d)\<rparr>)"
| step_claim: "sql_claim gen (d_uuid d) now locked ordered inst until batch (d_rows d) = (tbl, out, k) \<Longrightarrow>
    db_step gen LClaim d (d\<lparr>d_rows := tbl, d_uuid := k\<rparr>)"
| step_renew: "sql_renew keys clk until (d_rows d) = (tbl, n) \<Longrightarrow>
    db_step gen LRenew d (d\<lparr>d_rows := tbl\<rparr>)"
| step_finish: "st \<noteq> StatusProcessing \<Longrightarrow>
    sql_finish keys st reason clk nxt clear (d_rows d) = (tbl, out) \<Longrightarrow>
    db_step gen LFinish d (d\<lparr>d_rows := tbl\<rparr>)"
| step_requeue: "sql_requeue ident clk (d_rows d) = (tbl, n) \<Longrightarrow>
    db_step gen LRequeue d (d\<lparr>d_rows := tbl, d_notified := d_notified d + n\<rparr>)"
| step_cleanup: "sql_cleanup rt batch locked (d_rows d) = (tbl, n) \<Longrightarrow>
    db_step gen LCleanup d (d\<lparr>d_rows := tbl\<rparr>)"

inductive_cases claim_stepE: "db_step gen LClaim d d'"
inductive_cases cleanup_stepE: "db_step gen LCleanup d d'"

definition db_steps :: "(nat \<Rightarrow> string) \<Rightarrow> label set \<Rightarrow> database \<Rightarrow> database \<Rightarrow> bool" where
  "db_steps gen L = (\<lambda>d d'. \<exists>l \<in> L. db_step gen l d d')\<^sup>*\<^sup>*"

lemma db_steps_refl [simp, intro]: "db_steps gen L d d"
  by (simp add: db_steps_def)

lemma db_steps_trans: "db_steps gen L d d' \<Longrightarrow> db_steps gen L d' d'' \<Longrightarrow> db_steps gen L d d''"
  unfolding db_steps_def by (rule rtranclp_trans)

lemma db_steps_single: "l \<in> L \<Longrightarrow> db_step gen l d d' \<Longrightarrow> db_steps gen L d d'"
  unfolding db_steps_def by blast

lemma db_steps_mono:
  assumes "db_steps gen L d d'" and "L \<subseteq> M"
  shows "db_steps gen M d d'"
  using assms(1) unfolding db_steps_def
  by (rule rtranclp_mono [THEN predicate2D, rotated]) (use assms(2) in blast)

text \<open>Facts every step keeps are kept by every run.\<close>

lemma db_steps_induct [consumes 1, case_names base step]:
  assumes "db_steps gen L d d'" and "P d"
    and "\<And>l e e'. l \<in> L \<Longrightarrow> db_step gen l e e' \<Longrightarrow> P e \<Longrightarrow> P e'"
  shows "P d'"
  using assms(1) unfolding db_steps_def
  by (induction rule: rtranclp_induct) (use assms(2,3) in auto)

section \<open>The invariant\<close>

text \<open>What the columns of a row say about each other, status by status.\<close>

definition unlocked :: "row \<Rightarrow> bool" where
  "unlocked r \<longleftrightarrow> r_locked_by r = None \<and> r_locked_until r = None \<and> r_lease_token r = None"

definition row_ok :: "row \<Rightarrow> bool" where
  "row_ok r \<longleftrightarrow> 0 \<le> r_attempts r \<and>
     (case r_status r of
        StatusPending \<Rightarrow> unlocked r \<and> r_published_at r = None \<and> r_finished_at r = None
      | StatusProcessing \<Rightarrow>
          r_locked_by r \<noteq> None \<and> r_locked_until r \<noteq> None \<and> r_lease_token r \<noteq> None \<and>
          r_published_at r = None \<and> r_finished_at r = None \<and> 1 \<le> r_attempts r
      | StatusPublished \<Rightarrow>
          unlocked r \<and> r_published_at r \<noteq> None \<and> r_finished_at r \<noteq> None \<and> 1 \<le> r_attempts r
      | StatusDead \<Rightarrow>
          unlocked r \<and> r_published_at r = None \<and> r_finished_at r \<noteq> None \<and> 1 \<le> r_attempts r
      | StatusDiscarded \<Rightarrow>
          unlocked r \<and> r_published_at r = None \<and> r_finished_at r \<noteq> None \<and> 1 \<le> r_attempts r)"

definition issued :: "(nat \<Rightarrow> string) \<Rightarrow> database \<Rightarrow> string \<Rightarrow> bool" where
  "issued gen d t \<longleftrightarrow> (\<exists>j < d_uuid d. t = gen j)"

definition db_ok :: "(nat \<Rightarrow> string) \<Rightarrow> database \<Rightarrow> bool" where
  "db_ok gen d \<longleftrightarrow>
     distinct (map r_id (d_rows d)) \<and>
     distinct (map r_seq (d_rows d)) \<and>
     (\<forall>r \<in> set (d_rows d). r_seq r < d_seq d) \<and>
     (\<forall>r \<in> set (d_rows d). row_ok r) \<and>
     (\<forall>r \<in> set (d_rows d). jsonb_ok (r_headers r)) \<and>
     (\<forall>r \<in> set (d_rows d). \<forall>t. r_lease_token r = Some t \<longrightarrow> issued gen d t) \<and>
     (\<forall>a \<in> set (d_rows d). \<forall>b \<in> set (d_rows d).
        r_lease_token a \<noteq> None \<longrightarrow> r_lease_token a = r_lease_token b \<longrightarrow> r_id a = r_id b)"

lemma row_ok_fresh: "row_ok (fresh_row ident now s v)"
  by (simp add: row_ok_def fresh_row_def unlocked_def)

lemma row_ok_claim: "row_ok r \<Longrightarrow> claimable now r \<Longrightarrow> row_ok (claim_row inst until token r)"
  by (auto simp: row_ok_def claimable_def claim_row_def)

lemma row_ok_renew: "row_ok r \<Longrightarrow> owned keys clk r \<Longrightarrow> row_ok (r\<lparr>r_locked_until := Some until\<rparr>)"
  by (auto simp: row_ok_def dest: owned_status)

lemma row_ok_finish:
  "row_ok r \<Longrightarrow> owned keys clk r \<Longrightarrow> st \<noteq> StatusProcessing \<Longrightarrow>
    row_ok (finish_row st reason clk nxt clear r)"
  by (cases st) (auto simp: row_ok_def finish_row_def Let_def unlocked_def dest: owned_status)

lemma row_ok_requeue: "row_ok (requeue_row clk r)"
  by (simp add: row_ok_def requeue_row_def unlocked_def)

section \<open>Lifecycle of a row\<close>

text \<open>What one step can make of a row that stays in the table.\<close>

inductive lifecycle :: "label \<Rightarrow> row \<Rightarrow> row \<Rightarrow> bool" where
  unchanged: "lifecycle l r r"
| claimed: "claimable now r \<Longrightarrow> lifecycle LClaim r (claim_row inst until token r)"
| renewed: "owned keys clk r \<Longrightarrow> lifecycle LRenew r (r\<lparr>r_locked_until := Some until\<rparr>)"
| finished: "owned keys clk r \<Longrightarrow> st \<noteq> StatusProcessing \<Longrightarrow>
    lifecycle LFinish r (finish_row st reason clk nxt clear r)"
| requeued: "r_status r = StatusDead \<Longrightarrow> lifecycle LRequeue r (requeue_row clk r)"

inductive_simps lifecycle_iff: "lifecycle l r r'"

lemma lifecycle_origin: "lifecycle l r r' \<Longrightarrow> same_origin r r'"
  by (induction rule: lifecycle.induct)
    (simp_all add: claim_row_origin finish_row_origin requeue_row_origin renew_upd.upd_origin)

lemma lifecycle_headers: "lifecycle l r r' \<Longrightarrow> r_headers r' = r_headers r \<or> r_headers r' = []"
  by (induction rule: lifecycle.induct)
    (auto simp: claim_row_def finish_row_def requeue_row_def Let_def)

lemma lifecycle_row_ok: "lifecycle l r r' \<Longrightarrow> row_ok r \<Longrightarrow> row_ok r'"
  by (induction rule: lifecycle.induct)
    (auto simp: row_ok_claim row_ok_renew row_ok_finish row_ok_requeue)

text \<open>The state diagram: which status follows which.\<close>

definition follows :: "status \<Rightarrow> status \<Rightarrow> bool" where
  "follows s s' \<longleftrightarrow>
     s' = s \<or>
     (s = StatusPending \<and> s' = StatusProcessing) \<or>
     s = StatusProcessing \<or>
     (s = StatusDead \<and> s' = StatusPending)"

lemma lifecycle_follows: "lifecycle l r r' \<Longrightarrow> follows (r_status r) (r_status r')"
  by (induction rule: lifecycle.induct)
    (auto simp: follows_def claimable_def dest: owned_status)

lemma lifecycle_settled:
  "lifecycle l r r' \<Longrightarrow> r_status r = StatusPublished \<or> r_status r = StatusDiscarded \<Longrightarrow> r' = r"
  by (induction rule: lifecycle.induct) (auto simp: claimable_def dest: owned_status)

section \<open>Steps, row by row\<close>

lemma sql_insert_spec:
  assumes "sql_insert gen now k seq vs tbl = (tbl', k', seq')"
  shows "\<exists>new. tbl' = tbl @ new \<and> k \<le> k' \<and> seq' = seq + int (length vs) \<and>
    (\<forall>r \<in> set new. \<exists>ident s v. r = fresh_row ident now s v \<and> seq \<le> s \<and> s < seq') \<and>
    distinct (map r_seq new)"
  using assms
proof (induction gen now k seq vs tbl arbitrary: tbl' k' seq' rule: sql_insert.induct)
  case (1 gen now k seq tbl)
  then show ?case by simp
next
  case (2 gen now k seq v vs tbl)
  obtain ident k1 where ik: "(case v_id v of Some i \<Rightarrow> (i, k) | None \<Rightarrow> (gen k, Suc k)) = (ident, k1)"
    by fastforce
  then have k1: "k \<le> k1" by (auto split: option.splits)
  show ?case
  proof (cases "ident \<in> set (map r_id tbl)")
    case True
    with 2(3) ik have "sql_insert gen now k1 (seq + 1) vs tbl = (tbl', k', seq')" by simp
    from 2(1) [OF ik [symmetric] refl True this] show ?thesis using k1 by fastforce
  next
    case False
    with 2(3) ik have "sql_insert gen now k1 (seq + 1) vs (tbl @ [fresh_row ident now seq v]) = (tbl', k', seq')"
      by simp
    from 2(2) [OF ik [symmetric] refl False this] obtain new where new:
        "tbl' = (tbl @ [fresh_row ident now seq v]) @ new" "k1 \<le> k'"
        "seq' = seq + 1 + int (length vs)" "distinct (map r_seq new)"
        "\<forall>r \<in> set new. \<exists>ident s v. r = fresh_row ident now s v \<and> seq + 1 \<le> s \<and> s < seq'"
      by blast
    have "r_seq (fresh_row ident now seq v) \<notin> set (map r_seq new)"
      using new(5) by (fastforce simp: fresh_row_def)
    then show ?thesis
      using new k1 by (intro exI [of _ "fresh_row ident now seq v # new"]) fastforce
  qed
qed

lemma sql_insert_from:
  "r \<in> set (fst (sql_insert gen now k seq vs tbl)) \<Longrightarrow>
    r \<in> set tbl \<or> (\<exists>v \<in> set vs. r_headers r = v_headers v)"
proof (induction gen now k seq vs tbl rule: sql_insert.induct)
  case (2 gen now k seq v vs tbl)
  obtain ident k1 where ik: "(case v_id v of Some i \<Rightarrow> (i, k) | None \<Rightarrow> (gen k, Suc k)) = (ident, k1)"
    by fastforce
  have new: "r_headers (fresh_row ident now seq v) = v_headers v" by (simp add: fresh_row_def)
  show ?case
    using 2(1) [OF ik [symmetric] refl] 2(2) [OF ik [symmetric] refl] 2(3) new
    by (cases "ident \<in> set (map r_id tbl)") (auto simp: ik)
qed simp

lemma update_lifecycle_forward:
  assumes "r \<in> set tbl" and "sel r \<Longrightarrow> lifecycle l r (upd r)"
  shows "\<exists>r' \<in> set (map (\<lambda>r. if sel r then upd r else r) tbl). lifecycle l r r'"
  by (rule bexI [of _ "if sel r then upd r else r"]) (use assms in \<open>auto intro: unchanged\<close>)

lemma update_lifecycle_backward:
  assumes "r' \<in> set (map (\<lambda>r. if sel r then upd r else r) tbl)"
    and "\<And>r. r \<in> set tbl \<Longrightarrow> sel r \<Longrightarrow> lifecycle l r (upd r)"
  shows "\<exists>r \<in> set tbl. lifecycle l r r'"
  using assms by (auto intro: unchanged split: if_splits)

text \<open>Every row after a step is new, or comes from a row before it by the lifecycle.\<close>

lemma db_step_backward:
  assumes "db_step gen l d d'" and "distinct (map r_id (d_rows d))" and "r' \<in> set (d_rows d')"
  shows "(\<exists>r \<in> set (d_rows d). lifecycle l r r') \<or>
    (\<exists>ident now s v. r' = fresh_row ident now s v \<and> d_seq d \<le> s \<and> s < d_seq d')"
  using assms
proof (induction rule: db_step.cases)
  case (step_insert now d vs tbl k s)
  from sql_insert_spec [OF step_insert(4)] obtain new where
    new: "tbl = d_rows d @ new"
      "\<forall>r \<in> set new. \<exists>ident s' v. r = fresh_row ident now s' v \<and> d_seq d \<le> s' \<and> s' < s"
    by blast
  have "r' \<in> set (d_rows d) \<or> r' \<in> set new" using step_insert new(1) by simp
  then show ?case
  proof
    assume "r' \<in> set (d_rows d)"
    then show ?thesis using step_insert(2) by (blast intro: unchanged)
  next
    assume "r' \<in> set new"
    then obtain ident s' v where "r' = fresh_row ident now s' v" "d_seq d \<le> s'" "s' < s"
      using new(2) by blast
    moreover from this have "d_seq d \<le> s' \<and> s' < d_seq d'" using step_insert(2,3) by simp
    ultimately show ?thesis using step_insert(2) by blast
  qed
next
  case (step_claim d now locked ordered inst until batch tbl out k)
  then have "r' \<in> set tbl" and dis: "distinct (map r_id (d_rows d))" by auto
  from sql_claim_rows [OF dis step_claim(4) this(1)] obtain r where r: "r \<in> set (d_rows d)"
    "if r \<in> set (claim_pick ordered batch now locked (d_rows d))
     then (\<exists>j. d_uuid d \<le> j \<and> j < k \<and> r' = claim_row inst until (gen j) r) \<and> r' \<in> set out
     else r' = r \<and> r' \<notin> set out" by blast
  then show ?case
    using step_claim(1-3) by (auto split: if_splits intro: lifecycle.intros dest: claim_pickD(2))
next
  case (step_renew keys clk until d tbl n)
  then show ?case
    by (auto simp: sql_renew_def intro!: disjI1 update_lifecycle_backward intro: renewed)
next
  case (step_finish st keys reason clk nxt clear d tbl out)
  then show ?case
    by (auto simp: sql_finish_def intro!: disjI1 update_lifecycle_backward intro: finished)
next
  case (step_requeue ident clk d tbl n)
  then show ?case
    by (auto simp: sql_requeue_def requeuable_def intro!: disjI1 update_lifecycle_backward
        intro: requeued)
next
  case (step_cleanup rt batch locked d tbl n)
  then show ?case by (auto simp: sql_cleanup_def Let_def intro: unchanged)
qed

text \<open>Every row before a step lives on, or is deleted by the cleaner in a terminal state.\<close>

lemma db_step_forward:
  assumes "db_step gen l d d'" and "distinct (map r_id (d_rows d))" and "r \<in> set (d_rows d)"
  shows "(\<exists>r' \<in> set (d_rows d'). lifecycle l r r') \<or> (l = LCleanup \<and> terminal (r_status r))"
  using assms
proof (induction rule: db_step.cases)
  case (step_insert now d vs tbl k s)
  then show ?case
    using sql_insert_spec [OF step_insert(4)] by (auto intro: unchanged)
next
  case (step_claim d now locked ordered inst until batch tbl out k)
  note cu = step_claim(4) [unfolded sql_claim_def]
  have r: "r \<in> set (d_rows d)" and dis: "distinct (map r_id (d_rows d))"
    using step_claim by auto
  from list_all2_in_set1 [OF claim_update_spec(1) [OF cu] r] obtain r' where "r' \<in> set tbl"
    "if r_id r \<in> set (map r_id (claim_pick ordered batch now locked (d_rows d)))
     then \<exists>j. d_uuid d \<le> j \<and> j < k \<and> r' = claim_row inst until (gen j) r else r' = r" by blast
  moreover have "lifecycle l r r'"
    using calculation(2) in_pick_iff [OF dis r] step_claim(1)
    by (auto split: if_splits intro: lifecycle.intros dest: claim_pickD(2))
  ultimately show ?case
    using step_claim(3) by auto
next
  case (step_renew keys clk until d tbl n)
  then have "\<exists>r' \<in> set tbl. lifecycle LRenew r r'"
    by (auto simp: sql_renew_def simp del: set_map intro!: update_lifecycle_forward intro: renewed)
  then show ?case using step_renew by auto
next
  case (step_finish st keys reason clk nxt clear d tbl out)
  then have "\<exists>r' \<in> set tbl. lifecycle LFinish r r'"
    by (auto simp: sql_finish_def simp del: set_map intro!: update_lifecycle_forward intro: finished)
  then show ?case using step_finish by auto
next
  case (step_requeue ident clk d tbl n)
  then have "\<exists>r' \<in> set tbl. lifecycle LRequeue r r'"
    by (auto simp: sql_requeue_def requeuable_def simp del: set_map
        intro!: update_lifecycle_forward intro: requeued)
  then show ?case using step_requeue by auto
next
  case (step_cleanup rt batch locked d tbl n)
  then have "r \<in> set tbl \<or> r \<in> set (cleanup_pick rt batch locked (d_rows d))"
    using cleanup_deleted [of "d_rows d" r rt batch locked] by auto
  then show ?case
    using step_cleanup by (auto intro: unchanged dest: cleanup_pickD(2) expired_terminal)
qed

section \<open>The invariant is kept\<close>

lemma db_step_ids_distinct:
  assumes "db_step gen l d d'" and "distinct (map r_id (d_rows d))"
  shows "distinct (map r_id (d_rows d'))"
  using assms
proof (induction rule: db_step.cases)
  case (step_insert now d vs tbl k s)
  then show ?case using sql_insert_distinct [of "d_rows d" gen now "d_uuid d" "d_seq d" vs] by simp
next
  case (step_claim d now locked ordered inst until batch tbl out k)
  then show ?case using sql_claim_ids [OF step_claim(4)] by simp
next
  case (step_renew keys clk until d tbl n)
  then show ?case
    using renew_upd.update_ids [of keys clk until "d_rows d"] by (auto simp: sql_renew_def simp del: map_map)
next
  case (step_finish st keys reason clk nxt clear d tbl out)
  then show ?case
    using finish_upd.update_ids [of keys clk st reason nxt clear "d_rows d"]
    by (auto simp: sql_finish_def simp del: map_map)
next
  case (step_requeue ident clk d tbl n)
  then show ?case
    using requeue_upd.update_ids [of ident clk "d_rows d"] by (auto simp: sql_requeue_def simp del: map_map)
next
  case (step_cleanup rt batch locked d tbl n)
  then show ?case by (auto simp: sql_cleanup_def Let_def distinct_map_filter)
qed

lemma db_step_counters:
  assumes "db_step gen l d d'"
  shows "d_uuid d \<le> d_uuid d' \<and> d_seq d \<le> d_seq d'"
  using assms
proof (induction rule: db_step.cases)
  case (step_insert now d vs tbl k s)
  then show ?case using sql_insert_spec [OF step_insert(4)] by auto
next
  case (step_claim d now locked ordered inst until batch tbl out k)
  then show ?case using claim_update_spec(3) [OF step_claim(4) [unfolded sql_claim_def]] by auto
qed simp_all

lemma db_step_seqs:
  assumes "db_step gen l d d'" and "distinct (map r_seq (d_rows d))"
    and "\<forall>r \<in> set (d_rows d). r_seq r < d_seq d"
  shows "distinct (map r_seq (d_rows d'))"
  using assms
proof (induction rule: db_step.cases)
  case (step_insert now d vs tbl k s)
  from sql_insert_spec [OF step_insert(4)] obtain new where
    new: "tbl = d_rows d @ new" "distinct (map r_seq new)"
      "\<forall>r \<in> set new. \<exists>ident s' v. r = fresh_row ident now s' v \<and> d_seq d \<le> s' \<and> s' < s"
    by blast
  have hi: "d_seq d \<le> r_seq r" if "r \<in> set new" for r
    using new(3) that by (auto simp: fresh_row_def)
  have lo: "r_seq r < d_seq d" if "r \<in> set (d_rows d)" for r
    using step_insert that by auto
  have "set (map r_seq (d_rows d)) \<inter> set (map r_seq new) = {}"
    using hi lo by (fastforce simp: disjoint_iff)
  then show ?case using step_insert new(1,2) by auto
next
  case (step_claim d now locked ordered inst until batch tbl out k)
  then show ?case
    using in_place_seqs [OF claim_update_in_place [OF step_claim(4) [unfolded sql_claim_def]]] by simp
next
  case (step_renew keys clk until d tbl n)
  then show ?case
    using in_place_seqs [OF renew_upd.update_in_place [where tbl = "d_rows d"]]
    by (auto simp: sql_renew_def simp del: map_map)
next
  case (step_finish st keys reason clk nxt clear d tbl out)
  then show ?case
    using in_place_seqs [OF finish_upd.update_in_place [where tbl = "d_rows d"]]
    by (auto simp: sql_finish_def simp del: map_map)
next
  case (step_requeue ident clk d tbl n)
  then show ?case
    using in_place_seqs [OF requeue_upd.update_in_place [where tbl = "d_rows d"]]
    by (auto simp: sql_requeue_def simp del: map_map)
next
  case (step_cleanup rt batch locked d tbl n)
  then show ?case by (auto simp: sql_cleanup_def Let_def distinct_map_filter)
qed

lemma issued_step: "db_step gen l d d' \<Longrightarrow> issued gen d t \<Longrightarrow> issued gen d' t"
  unfolding issued_def using db_step_counters by (metis order_less_le_trans)

text \<open>A lease token in the table was there before, on the same row, or was just generated.\<close>

lemma lifecycle_token:
  "lifecycle l r r' \<Longrightarrow> l \<noteq> LClaim \<Longrightarrow> r_lease_token r' = Some t \<Longrightarrow> r_lease_token r = Some t"
  by (induction rule: lifecycle.induct) auto

lemma db_step_token:
  assumes "db_step gen l d d'" and "distinct (map r_id (d_rows d))"
    and "r' \<in> set (d_rows d')" and "r_lease_token r' = Some t"
  shows "(\<exists>r \<in> set (d_rows d). r_id r = r_id r' \<and> r_lease_token r = Some t) \<or>
    (\<exists>j. d_uuid d \<le> j \<and> j < d_uuid d' \<and> t = gen j)"
proof (cases "l = LClaim")
  case True
  from assms(1) [unfolded True] show ?thesis
  proof (rule claim_stepE)
    fix now locked ordered inst until batch tbl out k
    assume d': "d' = d\<lparr>d_rows := tbl, d_uuid := k\<rparr>"
      and c: "sql_claim gen (d_uuid d) now locked ordered inst until batch (d_rows d) = (tbl, out, k)"
    have "r' \<in> set tbl" using assms(3) d' by simp
    from sql_claim_rows [OF assms(2) c this] obtain r where "r \<in> set (d_rows d)"
      "if r \<in> set (claim_pick ordered batch now locked (d_rows d))
       then (\<exists>j. d_uuid d \<le> j \<and> j < k \<and> r' = claim_row inst until (gen j) r) \<and> r' \<in> set out
       else r' = r \<and> r' \<notin> set out" by blast
    then show ?thesis using assms(4) d' by (auto split: if_splits)
  qed
next
  case False
  from db_step_backward [OF assms(1-3)] show ?thesis
  proof
    assume "\<exists>r \<in> set (d_rows d). lifecycle l r r'"
    then show ?thesis
      using lifecycle_token [OF _ False assms(4)] lifecycle_origin same_origin_id by metis
  next
    assume "\<exists>ident now s v. r' = fresh_row ident now s v \<and> d_seq d \<le> s \<and> s < d_seq d'"
    then show ?thesis using assms(4) by (auto simp: fresh_row_def)
  qed
qed

lemma claim_tokens_unique:
  assumes "inj gen" and ok: "db_ok gen d"
    and c: "sql_claim gen (d_uuid d) now locked ordered inst until batch (d_rows d) = (tbl, out, k)"
    and ab: "a \<in> set tbl" "b \<in> set tbl" "r_lease_token a = r_lease_token b" "r_lease_token a \<noteq> None"
  shows "r_id a = r_id b"
proof -
  note cu = c [unfolded sql_claim_def]
  have dis: "distinct (map r_id (d_rows d))" using ok by (simp add: db_ok_def)
  have "distinct (map r_lease_token out)"
    using claim_update_spec(4) [OF cu] assms(1) by (auto simp: distinct_map inj_def intro: inj_onI)
  have new: "\<exists>j \<ge> d_uuid d. r_lease_token x = Some (gen j)" if x: "x \<in> set out" for x
    by (rule sql_claim_out [OF dis c x]) auto
  have old: "x \<in> set (d_rows d)" if x: "x \<in> set tbl" "x \<notin> set out" for x
    by (rule sql_claim_rows [OF dis c x(1)]) (use x(2) in \<open>auto split: if_splits\<close>)
  have apart: False
    if h: "x \<in> set out" "y \<in> set tbl" "y \<notin> set out" "r_lease_token x = r_lease_token y" for x y
  proof -
    obtain j where j: "d_uuid d \<le> j" "r_lease_token y = Some (gen j)"
      using new [OF h(1)] h(4) by auto
    have "issued gen d (gen j)"
      using ok old [OF h(2,3)] j(2) unfolding db_ok_def by blast
    then obtain i where i: "i < d_uuid d" "gen j = gen i"
      by (auto simp: issued_def)
    from injD [OF assms(1) i(2)] i(1) j(1) show False by simp
  qed
  consider "a \<in> set out \<and> b \<in> set out" | "a \<notin> set out \<and> b \<notin> set out"
    using apart [of a b] apart [of b a] ab by metis
  then show ?thesis
  proof cases
    case 1
    then have "a = b"
      using \<open>distinct (map r_lease_token out)\<close> ab(3) by (auto simp: distinct_map dest: inj_onD)
    then show ?thesis by simp
  next
    case 2
    then show ?thesis using ok old ab by (auto simp: db_ok_def)
  qed
qed

lemma db_step_headers:
  assumes "db_step gen l d d'" and "distinct (map r_id (d_rows d))"
    and "\<forall>r \<in> set (d_rows d). jsonb_ok (r_headers r)" and "r' \<in> set (d_rows d')"
  shows "jsonb_ok (r_headers r')"
proof (cases "l = LInsert")
  case True
  from assms(1) [unfolded True] show ?thesis
  proof cases
    case (step_insert now vs tbl k s)
    then have "r' \<in> set (fst (sql_insert gen now (d_uuid d) (d_seq d) vs (d_rows d)))" using assms(4) by simp
    from sql_insert_from [OF this] show ?thesis using assms(3) step_insert(3) by auto
  qed
next
  case False
  have "jsonb_ok []" by (simp add: jsonb_ok_def)
  moreover have "d_seq d' = d_seq d" using assms(1) False by cases simp_all
  then have "\<exists>r \<in> set (d_rows d). lifecycle l r r'" using db_step_backward [OF assms(1,2,4)] by auto
  ultimately show ?thesis using assms(3) lifecycle_headers by metis
qed

lemma db_step_ok:
  assumes "inj gen" and step: "db_step gen l d d'" and ok: "db_ok gen d"
  shows "db_ok gen d'"
proof -
  have dis: "distinct (map r_id (d_rows d))" and seqs: "distinct (map r_seq (d_rows d))"
    and bound: "\<forall>r \<in> set (d_rows d). r_seq r < d_seq d" and rows: "\<forall>r \<in> set (d_rows d). row_ok r"
    and toks: "\<forall>r \<in> set (d_rows d). \<forall>t. r_lease_token r = Some t \<longrightarrow> issued gen d t"
    and uniq: "\<forall>a \<in> set (d_rows d). \<forall>b \<in> set (d_rows d).
        r_lease_token a \<noteq> None \<longrightarrow> r_lease_token a = r_lease_token b \<longrightarrow> r_id a = r_id b"
    using ok unfolding db_ok_def by blast+
  note bwd = db_step_backward [OF step dis]
  have cnt: "d_uuid d \<le> d_uuid d'" "d_seq d \<le> d_seq d'" using db_step_counters [OF step] by auto
  have "r_seq r' < d_seq d'" if "r' \<in> set (d_rows d')" for r'
    using bwd [OF that] bound cnt(2) lifecycle_origin
    by (fastforce simp: fresh_row_def same_origin_def)
  moreover have "row_ok r'" if "r' \<in> set (d_rows d')" for r'
    using bwd [OF that] rows lifecycle_row_ok row_ok_fresh by blast
  moreover have "jsonb_ok (r_headers r')" if "r' \<in> set (d_rows d')" for r'
    using db_step_headers [OF step dis _ that] ok by (simp add: db_ok_def)
  moreover have "issued gen d' t" if "r' \<in> set (d_rows d')" "r_lease_token r' = Some t" for r' t
    using db_step_token [OF step dis that] toks issued_step [OF step]
    by (auto simp: issued_def)
  moreover have "r_id a = r_id b" if ab: "a \<in> set (d_rows d')" "b \<in> set (d_rows d')"
      "r_lease_token a \<noteq> None" "r_lease_token a = r_lease_token b" for a b
  proof (cases "l = LClaim")
    case True
    from step [unfolded True] show ?thesis
      by (rule claim_stepE)
        (use claim_tokens_unique [OF assms(1) ok _ _ _ ab(4,3)] ab in auto)
  next
    case False
    obtain t where t: "r_lease_token a = Some t" "r_lease_token b = Some t" using ab by auto
    have old: "\<exists>x \<in> set (d_rows d). r_id x = r_id r \<and> r_lease_token x = Some t"
      if r: "r \<in> set (d_rows d')" "r_lease_token r = Some t" for r
      using bwd [OF r(1)] lifecycle_token [OF _ False r(2)] lifecycle_origin r(2)
      by (fastforce simp: fresh_row_def same_origin_def)
    show ?thesis using old [OF ab(1) t(1)] old [OF ab(2) t(2)] uniq by (metis option.distinct(1))
  qed
  ultimately show ?thesis
    using db_step_ids_distinct [OF step dis] db_step_seqs [OF step seqs bound]
    unfolding db_ok_def by blast
qed

lemma db_steps_ok:
  assumes "inj gen" and "db_steps gen L d d'" and "db_ok gen d"
  shows "db_ok gen d'"
  using assms(2,3) by (induction rule: db_steps_induct) (auto intro: db_step_ok [OF assms(1)])

text \<open>Whatever happens, a row is there until it has come to a terminal state.\<close>

lemma db_steps_distinct:
  assumes "db_steps gen L d d'" and "distinct (map r_id (d_rows d))"
  shows "distinct (map r_id (d_rows d'))"
  using assms by (induction rule: db_steps_induct) (auto intro: db_step_ids_distinct)

definition same_message :: "row \<Rightarrow> row \<Rightarrow> bool" where
  "same_message r r' \<longleftrightarrow> same_origin r r' \<and> r_payload r' = r_payload r \<and> r_headers r' = r_headers r"

lemma same_message_refl [simp]: "same_message r r"
  by (simp add: same_message_def)

lemma same_message_trans: "same_message a b \<Longrightarrow> same_message b c \<Longrightarrow> same_message a c"
  unfolding same_message_def using same_origin_trans by auto

lemma lifecycle_message: "lifecycle l r r' \<Longrightarrow> same_message r r' \<or> terminal (r_status r')"
  by (induction rule: lifecycle.induct)
    (auto simp: same_message_def same_origin_def claim_row_def finish_row_def requeue_row_def Let_def)

lemma db_steps_row:
  assumes "db_steps gen L d d'" and "distinct (map r_id (d_rows d))" and "r \<in> set (d_rows d)"
  shows "(\<exists>r' \<in> set (d_rows d'). same_message r r') \<or>
    (\<exists>d1. \<exists>r1 \<in> set (d_rows d1). db_steps gen L d d1 \<and> db_steps gen L d1 d' \<and> same_origin r r1 \<and>
      terminal (r_status r1))"
proof -
  let ?ended = "\<lambda>e. \<exists>d1. \<exists>r1 \<in> set (d_rows d1). db_steps gen L d d1 \<and> db_steps gen L d1 e \<and> same_origin r r1 \<and>
      terminal (r_status r1)"
  have "db_steps gen L d d' \<and> distinct (map r_id (d_rows d')) \<and>
      ((\<exists>r' \<in> set (d_rows d'). same_message r r') \<or> ?ended d')"
    using assms(1)
  proof (induction rule: db_steps_induct)
    case base
    then show ?case using assms(2,3) same_message_refl by blast
  next
    case (step l e e')
    have on: "db_steps gen L e e'" using step(1,2) by (rule db_steps_single)
    then have reach: "db_steps gen L d e'" using step(3) db_steps_trans by blast
    have "(\<exists>r' \<in> set (d_rows e'). same_message r r') \<or> ?ended e'"
      if r': "r' \<in> set (d_rows e)" "same_message r r'" for r'
    proof (rule disjE [OF db_step_forward [OF step(2) _ r'(1)]])
      assume "\<exists>r2 \<in> set (d_rows e'). lifecycle l r' r2"
      then obtain r2 where r2: "r2 \<in> set (d_rows e')" "lifecycle l r' r2" by blast
      have "same_origin r r2"
        using r'(2) lifecycle_origin [OF r2(2)] same_origin_trans unfolding same_message_def by blast
      then show ?thesis
        using lifecycle_message [OF r2(2)] r2(1) r'(2) reach same_message_trans db_steps_refl by blast
    next
      assume "l = LCleanup \<and> terminal (r_status r')"
      then show ?thesis using r' step(3) on unfolding same_message_def by blast
    qed (use step(3) in blast)
    moreover have "?ended e'" if "?ended e" using that on db_steps_trans by blast
    ultimately show ?case using step(3) reach db_step_ids_distinct [OF step(2)] by blast
  qed
  then show ?thesis by blast
qed

section \<open>The fence\<close>

text \<open>An attempt is the pair of a row id and a lease token; it is live while the row carries the token.\<close>

definition live :: "database \<Rightarrow> string \<times> string \<Rightarrow> bool" where
  "live d key \<longleftrightarrow> (\<exists>r \<in> set (d_rows d). r_id r = fst key \<and> r_lease_token r = Some (snd key))"

lemma owned_live:
  assumes "r \<in> set (d_rows d)" and "owned keys clk r"
  shows "\<exists>key \<in> set keys. live d key \<and> fst key = r_id r"
  using assms(2) by (rule ownedE) (use assms(1) in \<open>auto simp: live_def intro!: bexI\<close>)

lemma live_issued: "db_ok gen d \<Longrightarrow> live d key \<Longrightarrow> issued gen d (snd key)"
  unfolding db_ok_def live_def by blast

text \<open>A token that has been issued and is gone from its row is gone for good.\<close>

lemma dead_attempt_step:
  assumes "inj gen" and "db_step gen l d d'" and "distinct (map r_id (d_rows d))"
    and "issued gen d (snd key)" and "\<not> live d key"
  shows "\<not> live d' key"
proof
  assume "live d' key"
  then obtain r' where r': "r' \<in> set (d_rows d')" "r_id r' = fst key" "r_lease_token r' = Some (snd key)"
    by (auto simp: live_def)
  from db_step_token [OF assms(2,3) r'(1,3)] show False
  proof
    assume "\<exists>r \<in> set (d_rows d). r_id r = r_id r' \<and> r_lease_token r = Some (snd key)"
    then show False using assms(5) r'(2) by (auto simp: live_def)
  next
    assume "\<exists>j. d_uuid d \<le> j \<and> j < d_uuid d' \<and> snd key = gen j"
    then obtain i j where "d_uuid d \<le> j" "i < d_uuid d" "gen j = gen i"
      using assms(4) by (auto simp: issued_def)
    with injD [OF assms(1) this(3)] show False by simp
  qed
qed

lemma dead_attempt_steps:
  assumes "inj gen" and "db_steps gen L d d'" and "db_ok gen d"
    and "issued gen d (snd key)" and "\<not> live d key"
  shows "\<not> live d' key \<and> issued gen d' (snd key) \<and> db_ok gen d'"
  using assms(2)
proof (induction rule: db_steps_induct)
  case base
  then show ?case using assms by simp
next
  case (step l e e')
  then have "distinct (map r_id (d_rows e))" by (simp add: db_ok_def)
  with step(2,3) show ?case
    using dead_attempt_step [OF assms(1) step(2)] issued_step [OF step(2)]
      db_step_ok [OF assms(1) step(2)] by simp
qed

lemma finish_not_live:
  assumes "\<forall>key \<in> set keys. \<not> live d key"
  shows "sql_finish keys st reason clk nxt clear (d_rows d) = (d_rows d, [])"
proof -
  have "\<forall>r \<in> set (d_rows d). \<not> owned keys clk r"
    using assms owned_live by blast
  then show ?thesis
    by (auto simp: sql_finish_def finish_upd.update_none filter_empty_conv)
qed

lemma renew_not_live:
  assumes "\<forall>key \<in> set keys. \<not> live d key"
  shows "sql_renew keys clk until (d_rows d) = (d_rows d, 0)"
proof -
  have "\<forall>r \<in> set (d_rows d). \<not> owned keys clk r"
    using assms owned_live by blast
  then show ?thesis
    by (auto simp: sql_renew_def renew_upd.update_none filter_empty_conv)
qed

text \<open>Completion consumes the attempt.\<close>

lemma finish_consumes:
  assumes "db_ok gen d" and "sql_finish keys st reason clk nxt clear (d_rows d) = (tbl, out)"
    and "m \<in> set out"
  shows "\<not> live (d\<lparr>d_rows := tbl\<rparr>) (r_id m, t)"
proof
  assume "live (d\<lparr>d_rows := tbl\<rparr>) (r_id m, t)"
  then obtain r' where r': "r' \<in> set tbl" "r_id r' = r_id m" "r_lease_token r' = Some t"
    by (auto simp: live_def)
  obtain r where r: "r \<in> set (d_rows d)" "owned keys clk r" "r_id m = r_id r"
    using assms(2,3) by (auto simp: sql_finish_def)
  have "r' \<in> set (d_rows d)" "\<not> owned keys clk r'"
    using r'(1,3) assms(2) by (auto simp: sql_finish_def)
  moreover have "r' = r"
    using calculation(1) r(1,3) r'(2) assms(1) by (auto simp: db_ok_def distinct_map dest: inj_onD)
  ultimately show False using r(2) by simp
qed

section \<open>Stalled attempts\<close>

text \<open>A single claimable row can be claimed, and so counted, any number of times.\<close>

lemma claim_single:
  assumes "d_rows d = [q]" and "claimable now q"
  shows "db_step gen LClaim d (d\<lparr>d_rows := [claim_row '''' now (gen (d_uuid d)) q], d_uuid := Suc (d_uuid d)\<rparr>)"
proof -
  have "sql_claim gen (d_uuid d) now (\<lambda>_. False) False '''' now 1 (d_rows d) =
      ([claim_row '''' now (gen (d_uuid d)) q], [claim_row '''' now (gen (d_uuid d)) q], Suc (d_uuid d))"
    using assms by (simp add: sql_claim_def claim_pick_def claim_candidates_def sort_key_def Let_def)
  then show ?thesis by (rule step_claim)
qed

lemma claims_end_nothing:
  assumes "db_steps gen {LClaim} d d'" and "distinct (map r_id (d_rows d))"
    and "\<forall>r \<in> set (d_rows d). \<not> terminal (r_status r)"
  shows "\<forall>r \<in> set (d_rows d'). \<not> terminal (r_status r)"
proof -
  have "distinct (map r_id (d_rows d')) \<and> (\<forall>r \<in> set (d_rows d'). \<not> terminal (r_status r))"
    using assms(1)
  proof (induction rule: db_steps_induct)
    case base
    then show ?case using assms(2,3) by blast
  next
    case (step l e e')
    then have l: "db_step gen LClaim e e'" by simp
    have "\<not> terminal (r_status r')" if r': "r' \<in> set (d_rows e')" for r'
    proof -
      have "d_seq e' = d_seq e" using l by (auto elim: claim_stepE)
      then obtain r where "r \<in> set (d_rows e)" "lifecycle LClaim r r'"
        using db_step_backward [OF l _ r'] step(3) by auto
      then show ?thesis using step(3) by (auto simp: lifecycle_iff claim_row_def)
    qed
    then show ?case using db_step_ids_distinct [OF l] step(3) by blast
  qed
  then show ?thesis by blast
qed

lemma stalled_claims:
  assumes "r_status r = StatusPending" and "d_rows d = [r]"
  shows "\<exists>r' d'. db_steps gen {LClaim} d d' \<and> d_rows d' = [r'] \<and> r_status r' = StatusProcessing \<and>
    r_attempts r' = r_attempts r + 1 + int n \<and> r_locked_until r' \<noteq> None"
proof (induction n)
  case 0
  have "claimable (r_next_attempt_at r) r" using assms(1) by (simp add: claimable_def)
  from db_steps_single [OF singletonI claim_single [OF assms(2) this, of gen]] show ?case
    by (intro exI [of _ "claim_row '''' (r_next_attempt_at r) (gen (d_uuid d)) r"] exI conjI) (assumption, simp_all)
next
  case (Suc n)
  then obtain d1 r1 u where d1: "db_steps gen {LClaim} d d1" "d_rows d1 = [r1]" "r_status r1 = StatusProcessing"
    "r_attempts r1 = r_attempts r + 1 + int n" "r_locked_until r1 = Some u" by blast
  then have "claimable (max (r_next_attempt_at r1) (u + 1)) r1" by (simp add: claimable_def)
  from db_steps_trans [OF d1(1) db_steps_single [OF singletonI claim_single [OF d1(2) this, of gen]]]
  show ?case
    by (intro exI [of _ "claim_row '''' (max (r_next_attempt_at r1) (u + 1)) (gen (d_uuid d1)) r1"] exI conjI)
      (assumption, simp_all add: d1(4))
qed

end
