(* ===== verification/Arguments.thy ===== *)
theory Arguments
  imports Store
begin

text \<open>
  The argument list of an insert is read back as the messages it was built from, and what is read
  can stand in the columns.
\<close>

section \<open>Arguments and columns\<close>

text \<open>The columns the database takes from one message; \<open>None\<close> when it rejects a value.\<close>

definition message_row :: "(string \<Rightarrow> string option) \<Rightarrow> message \<Rightarrow> new_row option" where
  "message_row uuid_in m =
     (case (if m_ID m = '''' then Some None else map_option Some (uuid_in (m_ID m)), m_Payload m,
            jsonb_in (Marshal_headers (headers_or_empty m)), as_int (Some (nullInt (m_MaxAttempts m)))) of
        (Some ident, Some payload, Some headers, Some _) \<Rightarrow>
          Some \<lparr>v_id = ident, v_topic = m_Topic m, v_partition_key = text_column (m_PartitionKey m),
                v_payload = payload, v_headers = headers,
                v_content_type = text_column (m_ContentType m),
                v_message_type = text_column (m_MessageType m), v_max_attempts = m_MaxAttempts m\<rparr>
      | _ \<Rightarrow> None)"

lemma nth_concat_uniform:
  assumes "\<forall>xs \<in> set xss. length xs = k" and "i < length xss" and "j < k"
  shows "concat xss ! (i * k + j) = xss ! i ! j" and "i * k + j < length (concat xss)"
  using assms
proof (induction xss arbitrary: i)
  case (Cons xs xss)
  {
    case 1
    then show ?case using Cons.IH(1) by (cases i) (auto simp: nth_append add.assoc)
  next
    case 2
    then show ?case using Cons.IH(2) by (cases i) (auto simp: add.assoc)
  }
qed simp_all

lemma nth_param_enqueue:
  assumes "i < length msgs" and "j < 8"
  shows "nth_param (enqueue_args msgs) (Suc (i * 8 + j)) = Some (message_args (msgs ! i) ! j)"
proof -
  have "\<forall>xs \<in> set (map message_args msgs). length xs = 8"
    by (auto simp: message_args_def)
  then have "concat (map message_args msgs) ! (i * 8 + j) = map message_args msgs ! i ! j"
    and "i * 8 + j < length (concat (map message_args msgs))"
    using nth_concat_uniform [of "map message_args msgs" 8 i j] assms by simp_all
  then show ?thesis
    using assms(1) unfolding nth_param_def enqueue_args_def by simp
qed

lemma group_params_nth: "j < 8 \<Longrightarrow> group_params i ! j = Suc (i * 8 + j)"
  by (cases j rule: nat.exhaust; simp add: group_params_def Let_def nth_Cons split: nat.splits) arith?

lemma decode_group_enqueue:
  assumes "i < length msgs"
  shows "decode_group uuid_in (enqueue_args msgs) i = message_row uuid_in (msgs ! i)"
proof -
  have param: "nth_param (enqueue_args msgs) (group_params i ! j) = Some (message_args (msgs ! i) ! j)"
    if "j < 8" for j
    using nth_param_enqueue [OF assms that] group_params_nth [OF that] by simp
  show ?thesis
    unfolding decode_group_def Let_def
    by (auto simp: param message_args_def message_row_def nullStr_def nullInt_def text_column_def
        split: option.splits)
qed

lemma decode_groups_enqueue:
  "decode_groups uuid_in (enqueue_args msgs) (length msgs) = those (map (message_row uuid_in) msgs)"
proof -
  have "map (decode_group uuid_in (enqueue_args msgs)) [0..<length msgs] = map (message_row uuid_in) msgs"
    by (rule nth_equalityI) (simp_all add: decode_group_enqueue)
  then show ?thesis by (simp add: decode_groups_def)
qed

text \<open>The statement's text has one group of placeholders per message, numbered without gaps.\<close>

lemma group_params_consecutive: "concat (map group_params [0..<n]) = [1..<Suc (8 * n)]"
proof (induction n)
  case (Suc n)
  have "[1..<Suc (8 * Suc n)] = [1..<Suc (8 * n)] @ [Suc (8 * n)..<Suc (8 * n) + 8]"
    by (simp only: upt_add_eq_append [symmetric]) (simp add: upt_add_eq_append [of 1 "Suc (8 * n)" 8, symmetric])
  moreover have "[Suc (8 * n)..<Suc (8 * n) + 8] = group_params n"
    by (simp add: group_params_def Let_def upt_rec mult.commute)
  ultimately show ?case using Suc by simp
qed (simp add: group_params_def)

lemma message_row_headers:
  assumes "message_row uuid_in m = Some v"
  shows "zero_free (headers_or_empty m)" and "v_headers v = stored_headers (headers_or_empty m)"
  using assms by (auto simp: message_row_def jsonb_in_Marshal split: option.splits if_splits)

lemma those_Some_in: "those xs = Some ys \<Longrightarrow> y \<in> set ys \<Longrightarrow> Some y \<in> set xs"
  by (induction xs arbitrary: ys) (auto split: option.splits)

lemma decoded_headers_ok:
  assumes "decode_groups uuid_in (enqueue_args msgs) (length msgs) = Some vs" and "v \<in> set vs"
  shows "jsonb_ok (v_headers v)"
proof -
  obtain m where "message_row uuid_in m = Some v"
    using those_Some_in [OF assms(1) [unfolded decode_groups_enqueue] assms(2)] by auto
  from message_row_headers [OF this] show ?thesis by (simp add: stored_headers_ok)
qed

end
