(* ===== verification/Engine_Steps.thy ===== *)
theory Engine_Steps
  imports Outbox Steps Arguments
begin

text \<open>
  The Go code refines the state machine of theory \<open>Steps\<close>: whatever the environment does, an
  operation of the relay, the cleaner or the facade moves the database along steps of the
  machine, interleaved with those of other sessions. The argument is made once, for any frame
  the store's statements stay within (locales \<open>relay_frame\<close> and \<open>cleaner_frame\<close>), and
  instantiated with the steps.
\<close>

section \<open>The relay within a frame\<close>

lemma recovered_run_snd: "snd (recovered_run fn w) = snd (fn w)"
  by (auto simp: recovered_run_def split: prod.splits res.splits)

context db_frame begin

lemma within_recovered_run [keeps]: "within R fn \<Longrightarrow> within R (recovered_run fn)"
  by (simp add: within_def recovered_run_snd)

lemma isFatal_within [keeps]: "within R (isFatal env cfg e)"
  unfolding isFatal_def by (auto split: option.splits res.splits intro!: keeps)

lemma call_backoff_within [keeps]: "within R (call_backoff cfg attempts)"
  unfolding call_backoff_def
  by (auto split: option.splits res.splits intro!: keeps)

lemma outcome_hooks_within [keeps]: "within R (outcome_hooks env cfg st completed cause)"
  unfolding outcome_hooks_def
  by (cases st) (auto split: option.splits intro!: keeps)

lemma call_publisher_within [keeps]: "within R (call_publisher env msgs)"
  unfolding call_publisher_def by (auto split: res.splits intro!: keeps)

lemma batch_failed_within [keeps]: "within R (batch_failed env cfg e)"
  unfolding batch_failed_def by (auto split: option.splits goerr.splits intro!: keeps)

text \<open>A composition whose second part only has to respect the frame after the first.\<close>

lemma bind_go_frame:
  assumes "within R m" and "\<And>x w1. m w = (Return x, w1) \<Longrightarrow> R (w_db w1) (w_db (snd (f x w1)))"
  shows "R (w_db w) (w_db (snd (bind_go m f w)))"
proof (cases "m w")
  case (Pair r w1)
  then have 1: "R (w_db w) (w_db w1)" using assms(1) by (blast intro: within_run)
  show ?thesis
  proof (cases r)
    case (Return x)
    then show ?thesis using Pair 1 assms(2) by (auto simp: bind_go_def intro: frame_trans)
  qed (use Pair 1 in \<open>simp add: bind_go_def\<close>)
qed

end

text \<open>The loops around a batch stay within any frame the batch stays within.\<close>

locale batch_frame = db_frame R for R +
  fixes env :: env and cfg :: settings
  assumes batch_within: "within R (processBatch env cfg)"
begin

lemma drain_within [keeps]: "within R (drain fuel env cfg)"
  by (induction fuel) (auto split: prod.splits option.splits intro!: keeps batch_within)

lemma worker_within [keeps]: "within R (worker fuel env cfg ws)"
proof (induction ws)
  case Nil
  then show ?case by (auto intro!: keeps)
next
  case (Cons a ws)
  then show ?case by (cases a) (auto split: run.splits option.splits intro!: keeps)
qed

lemma worker_goroutine_within: "within R (worker_goroutine fuel env cfg ws)"
  unfolding worker_goroutine_def by (intro keeps)

end

locale relay_frame = db_frame R for R +
  fixes env :: env and cfg :: settings
  assumes claim_within: "within R (claim env cfg)"
    and renew_within: "within R (renew env msgs duration)"
    and finish_within: "st \<noteq> StatusProcessing \<Longrightarrow> within R (Store_finish env msgs st reason delay clear)"
begin

lemma complete_within [keeps]:
  "st \<noteq> StatusProcessing \<Longrightarrow> within R (complete env cfg msgs st cause delay)"
  unfolding complete_def Let_def
  by (intro keeps finish_within) (auto split: sum.splits intro!: keeps)

lemma settle_retry_within [keeps]: "within R (settle_retry env cfg perr retry m)"
  unfolding settle_retry_def by (auto intro!: keeps)

lemma settle_within [keeps]: "within R (settle env cfg msgs perr)"
  unfolding settle_def by (auto split: option.splits intro!: keeps)

lemma settle_own_within [keeps]: "within R (settle_own env cfg outcomes batch_err msgs)"
  by (induction msgs) (auto split: prod.splits option.splits intro!: keeps)

lemma settleEach_within [keeps]: "within R (settleEach env cfg msgs outcomes batch_err)"
  unfolding settleEach_def by (auto split: prod.splits intro!: keeps)

lemma heartbeat_within [keeps]: "within R (heartbeat env cfg msgs beats)"
proof (induction beats)
  case Nil
  then show ?case by (auto intro!: keeps)
next
  case (Cons b beats)
  then show ?case
    by (cases b) (auto split: option.splits intro!: keeps renew_within)
qed

lemma publish_within [keeps]: "within R (publish env cfg msgs)"
  unfolding publish_def by (auto intro!: keeps)

lemma settle_batch_within [keeps]: "within R (settle_batch env cfg msgs perr)"
  unfolding settle_batch_def by (auto split: option.splits goerr.splits intro!: keeps)

lemma processBatch_within [keeps]: "within R (processBatch env cfg)"
  unfolding processBatch_def
  by (auto split: sum.splits prod.splits option.splits intro!: keeps claim_within)

end

sublocale relay_frame \<subseteq> batch_frame
  by unfold_locales (rule processBatch_within)

section \<open>The cleaner within a frame\<close>

locale cleaner_frame = db_frame R for R +
  fixes env :: env and cfg :: settings
  assumes cleanup_within: "within R (Store_cleanup env cfg)"
begin

lemma cleanup_pass_within [keeps]: "within R (cleanup_pass fuel env cfg)"
  by (induction fuel) (auto split: sum.splits intro!: keeps cleanup_within)

lemma cleaner_loop_within [keeps]: "within R (cleaner_loop fuel env cfg evs)"
proof (induction evs)
  case Nil
  then show ?case by (auto intro!: keeps)
next
  case (Cons a evs)
  then show ?case by (cases a) (auto split: run.splits option.splits intro!: keeps)
qed

lemma cleaner_run_within: "within R (cleaner_run fuel env cfg evs)"
  unfolding cleaner_run_def by (auto intro!: keeps)

lemma Cleaner_Run_within: "within R (Cleaner_Run fuel env cfg evs)"
  unfolding Cleaner_Run_def by (intro within_recovered_run cleaner_run_within)

end

section \<open>The statements are steps\<close>

text \<open>A statement whose arguments are rejected leaves the database as it is.\<close>

lemma claim_stmt_step:
  "e_text_ok env (s_InstanceID cfg) \<Longrightarrow> db_step (e_gen env) LClaim d (snd (claim_stmt env cfg n d))"
  by (auto simp: claim_stmt_def split: prod.splits intro: step_claim)

lemma claim_stmt_rejected: "\<not> e_text_ok env (s_InstanceID cfg) \<Longrightarrow> snd (claim_stmt env cfg n d) = d"
  by (simp add: claim_stmt_def)

lemma claim_stmt_steps: "LClaim \<in> L \<Longrightarrow> db_steps (e_gen env) L d (snd (claim_stmt env cfg n d))"
  by (cases "e_text_ok env (s_InstanceID cfg)")
    (auto simp: claim_stmt_rejected intro: db_steps_single claim_stmt_step)

lemma renew_stmt_steps: "LRenew \<in> L \<Longrightarrow> db_steps (e_gen env) L d (snd (renew_stmt env msgs duration n d))"
  by (auto simp: renew_stmt_def split: prod.splits option.splits
      intro!: db_steps_single [of LRenew] intro: step_renew)

lemma finish_stmt_steps:
  "LFinish \<in> L \<Longrightarrow> st \<noteq> StatusProcessing \<Longrightarrow>
    db_steps (e_gen env) L d (snd (finish_stmt env msgs st reason delay clear n d))"
  by (auto simp: finish_stmt_def split: prod.splits option.splits
      intro!: db_steps_single [of LFinish] intro: step_finish)

lemma cleanup_stmt_step: "db_step (e_gen env) LCleanup d (snd (cleanup_stmt env cfg n d))"
  by (auto simp: cleanup_stmt_def split: prod.splits intro: step_cleanup)

lemma requeue_stmt_steps: "LRequeue \<in> L \<Longrightarrow> db_steps (e_gen env) L d (snd (requeue_stmt env ident n d))"
  by (auto simp: requeue_stmt_def split: prod.splits option.splits
      intro!: db_steps_single [of LRequeue] intro: step_requeue)

lemma insert_stmt_steps: "LInsert \<in> L \<Longrightarrow> db_steps (e_gen env) L d (snd (insert_stmt env msgs n d))"
  by (auto simp: insert_stmt_def split: prod.splits option.splits
      intro!: db_steps_single [of LInsert] step_insert dest: decoded_headers_ok)

section \<open>Instantiation\<close>

definition relay_labels :: "label set" where
  "relay_labels = {LClaim, LRenew, LFinish}"

text \<open>Other sessions are instances of the same machine, restricted to the statements in \<open>L\<close>.\<close>

definition others_within :: "label set \<Rightarrow> env \<Rightarrow> bool" where
  "others_within L env \<longleftrightarrow> (\<forall>n d. db_steps (e_gen env) L d (e_others env n d))"

text \<open>The frame of the steps in \<open>L\<close>, for the environments whose other sessions respect it.\<close>

definition steps_frame :: "label set \<Rightarrow> label set \<Rightarrow> env \<Rightarrow> database \<Rightarrow> database \<Rightarrow> bool" where
  "steps_frame own L env d d' \<longleftrightarrow>
     (own \<subseteq> L \<longrightarrow> others_within L env \<longrightarrow> db_steps (e_gen env) L d d')"

interpretation steps: db_frame "steps_frame own L env" for own L env
  by unfold_locales (auto simp: steps_frame_def intro: db_steps_trans)

lemma steps_exec_call:
  assumes "\<And>n d. own \<subseteq> L \<Longrightarrow> db_steps (e_gen env) L d (snd (stmt n d))"
  shows "within (steps_frame own L env) (exec_call env stmt)"
proof (cases "own \<subseteq> L \<and> others_within L env")
  case True
  then show ?thesis
    by (intro steps.within_exec_call) (auto simp: steps_frame_def others_within_def intro: assms)
next
  case False
  then show ?thesis by (auto simp: within_def steps_frame_def)
qed

interpretation relay_steps: relay_frame "steps_frame relay_labels L env" env cfg for L env cfg
proof unfold_locales
  show "within (steps_frame relay_labels L env) (claim env cfg)"
    unfolding claim_def
    by (rule steps_exec_call)
      (auto simp: relay_labels_def intro: claim_stmt_steps)
next
  fix msgs duration
  show "within (steps_frame relay_labels L env) (renew env msgs duration)"
    unfolding renew_def
    by (intro keeps steps.within_bind steps.within_ret steps_exec_call)
      (auto simp: relay_labels_def intro: renew_stmt_steps)
next
  fix st msgs reason delay clear
  assume "st \<noteq> StatusProcessing"
  then show "within (steps_frame relay_labels L env) (Store_finish env msgs st reason delay clear)"
    unfolding Store_finish_def
    by (auto simp: relay_labels_def intro!: steps.within_ret steps_exec_call finish_stmt_steps)
qed

interpretation cleaner_steps: cleaner_frame "steps_frame {LCleanup} L env" env cfg for L env cfg
proof unfold_locales
  show "within (steps_frame {LCleanup} L env) (Store_cleanup env cfg)"
    unfolding Store_cleanup_def
    by (rule steps_exec_call) (auto intro: db_steps_single cleanup_stmt_step)
qed

lemma Store_Enqueue_within: "within (steps_frame {LInsert} L env) (Store_Enqueue env st msgs)"
  unfolding Store_Enqueue_def
  by (auto intro!: steps.within_bind steps.within_ret steps.within_panic steps_exec_call
      insert_stmt_steps)

lemma Store_Requeue_within: "within (steps_frame {LRequeue} L env) (Store_Requeue env st ident)"
  unfolding Store_Requeue_def
  by (auto intro!: steps.within_bind steps.within_ret steps.within_panic steps_exec_call
      requeue_stmt_steps)

text \<open>The form in which the properties use it.\<close>

lemma steps_run:
  assumes "within (steps_frame own L env) m" and "own \<subseteq> L" and "others_within L env"
  shows "db_steps (e_gen env) L (w_db w) (w_db (snd (m w)))"
  using withinD [OF assms(1), of w] assms(2,3) by (simp add: steps_frame_def)

end
