(* ===== verification/Settlement.thy ===== *)
theory Settlement
  imports Engine_Steps
begin

text \<open>
  What the relay records for each message of a batch. The specification is the \<open>verdict\<close>: the
  status a message's own outcome calls for. The theory shows that a settlement changes only
  rows the batch still owns, each to its verdict; that a settlement without an error has
  recorded every verdict; and that it has no error when the database answers and the leases
  hold.
\<close>

section \<open>Specification\<close>

text \<open>The outcome of one message: its entry in a \<open>BatchError\<close>, else the batch-level outcome.\<close>

definition own_outcome :: "goerr option \<Rightarrow> message \<Rightarrow> goerr option" where
  "own_outcome perr m =
     (case perr of
        None \<Rightarrow> None
      | Some e \<Rightarrow>
          (case errors_as is_batch e of
             Some (BatchError outcomes batch_err) \<Rightarrow>
               (case map_of outcomes (m_ID m) of Some o1 \<Rightarrow> o1 | None \<Rightarrow> batch_err)
           | _ \<Rightarrow> perr))"

definition verdict :: "settings \<Rightarrow> goerr option \<Rightarrow> message \<Rightarrow> status" where
  "verdict cfg outcome m =
     (case outcome of
        None \<Rightarrow> StatusPublished
      | Some e \<Rightarrow>
          if has_as is_permanent e then StatusDead
          else if has_as is_discard e then StatusDiscarded
          else if effective_max cfg m \<le> m_Attempts m then StatusDead
          else StatusPending)"

lemma verdict_not_processing [simp]: "verdict cfg outcome m \<noteq> StatusProcessing"
  by (auto simp: verdict_def split: option.splits)

lemma verdict_Published_iff: "verdict cfg outcome m = StatusPublished \<longleftrightarrow> outcome = None"
  by (auto simp: verdict_def split: option.splits)

text \<open>
  The effect on the table: a row that carries one of the attempts \<open>K\<close> may go from processing to
  the status \<open>f\<close> gives for its id, losing its token; all others stay.
\<close>

definition attempts_of :: "message list \<Rightarrow> (string \<times> string) set" where
  "attempts_of msgs = (\<lambda>m. (m_ID m, m_LeaseToken m)) ` set msgs"

definition settles_row :: "(string \<Rightarrow> status) \<Rightarrow> (string \<times> string) set \<Rightarrow> row \<Rightarrow> row \<Rightarrow> bool" where
  "settles_row f K r r' \<longleftrightarrow>
     r' = r \<or>
     same_origin r r' \<and> r_attempts r' = r_attempts r \<and> r_status r = StatusProcessing \<and>
     (\<exists>t. r_lease_token r = Some t \<and> (r_id r, t) \<in> K) \<and>
     r_status r' = f (r_id r) \<and> r_lease_token r' = None"

definition settles :: "(string \<Rightarrow> status) \<Rightarrow> (string \<times> string) set \<Rightarrow> database \<Rightarrow> database \<Rightarrow> bool" where
  "settles f K d d' \<longleftrightarrow> list_all2 (settles_row f K) (d_rows d) (d_rows d')"

lemma settles_row_trans: "settles_row f K a b \<Longrightarrow> settles_row f K b c \<Longrightarrow> settles_row f K a c"
  unfolding settles_row_def by (auto dest: same_origin_id intro: same_origin_trans)

interpretation settles: db_frame "settles f K" for f K
proof unfold_locales
  show "settles f K d d" for d
    by (simp add: settles_def settles_row_def list.rel_refl)
  show "settles f K d d'" if "settles f K d d1" "settles f K d1 d'" for d d1 d'
    using list_all2_trans [of "settles_row f K" "settles_row f K" "settles_row f K"]
      settles_row_trans that unfolding settles_def by blast
qed

lemma settles_mono: "settles f A d d' \<Longrightarrow> A \<subseteq> B \<Longrightarrow> settles f B d d'"
  unfolding settles_def by (erule list_all2_mono) (auto simp: settles_row_def)

lemma settles_ids: "settles f K d d' \<Longrightarrow> map r_id (d_rows d') = map r_id (d_rows d)"
  unfolding settles_def
  by (rule in_place_ids, erule list_all2_mono) (auto simp: settles_row_def)

section \<open>Binding the attempts\<close>

text \<open>The database's uuid texts are canonical: a value it prints is read back as itself.\<close>

definition canonical :: "env \<Rightarrow> message list \<Rightarrow> bool" where
  "canonical env msgs \<longleftrightarrow>
     (\<forall>m \<in> set msgs. e_uuid_in env (m_ID m) = Some (m_ID m) \<and>
        e_uuid_in env (m_LeaseToken m) = Some (m_LeaseToken m))"

lemma canonical_mono: "canonical env msgs \<Longrightarrow> set xs \<subseteq> set msgs \<Longrightarrow> canonical env xs"
  by (auto simp: canonical_def)

lemma attempts_of_mono: "set xs \<subseteq> set msgs \<Longrightarrow> attempts_of xs \<subseteq> attempts_of msgs"
  by (auto simp: attempts_of_def)

lemma those_map_Some: "(\<And>x. x \<in> set xs \<Longrightarrow> f x = Some (g x)) \<Longrightarrow> those (map f xs) = Some (map g xs)"
  by (induction xs) auto

lemma bind_keys_canonical:
  assumes "canonical env msgs"
  shows "bind_keys env msgs = Some (map (\<lambda>m. (m_ID m, m_LeaseToken m)) msgs)"
proof -
  have "those (map (e_uuid_in env) (map m_ID msgs)) = Some (map m_ID msgs)"
    using assms those_map_Some [of "map m_ID msgs" "e_uuid_in env" "\<lambda>x. x"] by (auto simp: canonical_def)
  moreover have "those (map (e_uuid_in env) (map m_LeaseToken msgs)) = Some (map m_LeaseToken msgs)"
    using assms those_map_Some [of "map m_LeaseToken msgs" "e_uuid_in env" "\<lambda>x. x"]
    by (auto simp: canonical_def)
  ultimately show ?thesis
    by (simp add: bind_keys_def claimKeys_def zip_map1 zip_map2 flip: map_map) (simp add: zip_same_conv_map)
qed

section \<open>Only owned rows, only to the verdict\<close>

text \<open>
  The settlement of a batch runs against other sessions. The contract: a frame the other
  sessions stay within, and that admits every change \<open>settles f K\<close> allows.
\<close>

locale settling = db_frame R for R +
  fixes env :: env and f :: "string \<Rightarrow> status" and K :: "(string \<times> string) set"
  assumes others: "R d (e_others env n d)"
    and own: "settles f K d d' \<Longrightarrow> R d d'"
begin

lemma finish_settles:
  assumes "canonical env msgs" and "attempts_of msgs \<subseteq> K" and "\<forall>m \<in> set msgs. f (m_ID m) = st"
  shows "within R (Store_finish env msgs st reason delay clear)"
proof -
  let ?keys = "map (\<lambda>m. (m_ID m, m_LeaseToken m)) msgs"
  have "settles_row f K r (if owned ?keys clk r then finish_row st rs clk nxt clear r else r)"
    for r rs clk nxt
  proof (cases "owned ?keys clk r")
    case True
    then obtain t where "r_lease_token r = Some t" "(r_id r, t) \<in> set ?keys" "r_status r = StatusProcessing"
      by (rule ownedE)
    then show ?thesis
      using assms(2,3) True by (auto simp: settles_row_def finish_row_origin attempts_of_def)
  qed (simp add: settles_row_def)
  then have "settles f K d (snd (finish_stmt env msgs st reason delay clear n d))" for n d
    using settles.frame_refl [of f K d]
    by (simp add: settles_def finish_stmt_def bind_keys_canonical [OF assms(1)] sql_finish_def
        list.rel_map list.rel_refl)
  then show ?thesis
    unfolding Store_finish_def by (auto intro!: within_ret within_exec_call others own)
qed

lemma complete_settles:
  assumes "canonical env msgs" and "attempts_of msgs \<subseteq> K" and "\<forall>m \<in> set msgs. f (m_ID m) = st"
  shows "within R (complete env cfg msgs st cause delay)"
proof -
  show ?thesis
    using finish_settles [OF assms]
    unfolding complete_def Let_def by (auto split: sum.splits intro!: keeps)
qed

lemma settle_settles:
  assumes "canonical env msgs" and "attempts_of msgs \<subseteq> K"
    and "\<forall>m \<in> set msgs. f (m_ID m) = verdict cfg perr m"
  shows "within R (settle env cfg msgs perr)"
proof (cases perr)
  case None
  then show ?thesis
    using assms unfolding settle_def
    by (auto intro!: within_ret complete_settles simp: verdict_def)
next
  case (Some e)
  have one: "within R (settle_retry env cfg e retry m)"
    if "m \<in> set msgs" "\<not> has_as is_permanent e" "\<not> has_as is_discard e" for m retry
    using assms that Some canonical_mono [OF assms(1), of "[m]"] attempts_of_mono [of "[m]" msgs]
    unfolding settle_retry_def
    by (auto intro!: within_bind complete_settles call_backoff_within simp: verdict_def)
  have "within R (for_each (settle_retry env cfg e retry) xs)"
    if "set xs \<subseteq> set msgs" "\<not> has_as is_permanent e" "\<not> has_as is_discard e" for xs retry
    using that by (induction xs) (auto intro!: within_ret within_bind one)
  then show ?thesis
    using assms Some unfolding settle_def
    by (auto intro!: within_ret within_bind complete_settles simp: verdict_def)
qed

end

definition batch_verdict :: "settings \<Rightarrow> goerr option \<Rightarrow> message \<Rightarrow> status" where
  "batch_verdict cfg perr m = verdict cfg (own_outcome perr m) m"

text \<open>
  \<open>settle_own\<close> is the loop the code writes; its three results are two filters of the batch and
  the errors of settling, in order, the messages with an outcome of their own.
\<close>

definition published_group :: "(string \<times> goerr option) list \<Rightarrow> goerr option \<Rightarrow> message list \<Rightarrow> message list" where
  "published_group outcomes be =
     filter (\<lambda>m. map_of outcomes (m_ID m) = Some None \<or> map_of outcomes (m_ID m) = None \<and> be = None)"

definition others_group :: "(string \<times> goerr option) list \<Rightarrow> goerr option \<Rightarrow> message list \<Rightarrow> message list" where
  "others_group outcomes be = filter (\<lambda>m. map_of outcomes (m_ID m) = None \<and> be \<noteq> None)"

definition own_group :: "(string \<times> goerr option) list \<Rightarrow> message list \<Rightarrow> message list" where
  "own_group outcomes =
     filter (\<lambda>m. map_of outcomes (m_ID m) \<noteq> None \<and> map_of outcomes (m_ID m) \<noteq> Some None)"

definition settle_entry :: "env \<Rightarrow> settings \<Rightarrow> (string \<times> goerr option) list \<Rightarrow> message \<Rightarrow> goerr option go" where
  "settle_entry env cfg outcomes m = settle env cfg [m] (the (map_of outcomes (m_ID m)))"

lemma settle_own_eq:
  "settle_own env cfg outcomes be msgs =
     bind_go (for_each (settle_entry env cfg outcomes) (own_group outcomes msgs)) (\<lambda>errs.
       ret_go (published_group outcomes be msgs, others_group outcomes be msgs, errs))"
proof (induction msgs)
  case Nil
  show ?case by (simp add: published_group_def others_group_def own_group_def)
next
  case (Cons m ms)
  note step = settle_own.simps(2) bind_go_assoc published_group_def others_group_def
    own_group_def settle_entry_def
  consider "map_of outcomes (m_ID m) = None" | "map_of outcomes (m_ID m) = Some None"
    | e where "map_of outcomes (m_ID m) = Some (Some e)"
    by (metis option.exhaust)
  note entry = this
  show ?case
  proof (cases be)
    case None
    show ?thesis
      using entry Cons.IH [unfolded None] unfolding None by cases (simp_all add: step)
  next
    case (Some e)
    show ?thesis
      using entry Cons.IH [unfolded Some] unfolding Some by cases (simp_all add: step)
  qed
qed

lemma settleEach_eq:
  "settleEach env cfg msgs outcomes be =
     bind_go (for_each (settle_entry env cfg outcomes) (own_group outcomes msgs)) (\<lambda>errs.
       bind_go (settle env cfg (published_group outcomes be msgs) None) (\<lambda>e1.
         bind_go (settle env cfg (others_group outcomes be msgs) be) (\<lambda>e2.
           ret_go (errors_join (errs @ [e1, e2])))))"
  by (simp add: settleEach_def settle_own_eq bind_go_assoc)

text \<open>The three groups are a partition of the batch: every message is settled exactly once.\<close>

lemma groups_partition:
  "mset (own_group outcomes msgs) + mset (published_group outcomes be msgs) +
     mset (others_group outcomes be msgs) = mset msgs"
  by (induction msgs) (auto simp: own_group_def published_group_def others_group_def)

lemma groups_in_batch:
  "set (own_group outcomes msgs) \<subseteq> set msgs"
  "set (published_group outcomes be msgs) \<subseteq> set msgs"
  "set (others_group outcomes be msgs) \<subseteq> set msgs"
  by (auto simp: own_group_def published_group_def others_group_def)

text \<open>The verdict of the batch, group by group.\<close>

lemma batch_verdict_groups:
  assumes "perr = Some e" and "errors_as is_batch e = Some (BatchError outcomes be)"
  shows "m \<in> set (own_group outcomes msgs) \<Longrightarrow>
      batch_verdict cfg perr m = verdict cfg (the (map_of outcomes (m_ID m))) m"
    and "m \<in> set (published_group outcomes be msgs) \<Longrightarrow> batch_verdict cfg perr m = verdict cfg None m"
    and "m \<in> set (others_group outcomes be msgs) \<Longrightarrow> batch_verdict cfg perr m = verdict cfg be m"
  using assms
  by (auto simp: batch_verdict_def own_outcome_def own_group_def published_group_def others_group_def)

lemma batch_verdict_plain:
  assumes "\<And>outcomes be e. perr = Some e \<Longrightarrow> errors_as is_batch e \<noteq> Some (BatchError outcomes be)"
  shows "batch_verdict cfg perr m = verdict cfg perr m"
    and "settle_batch env cfg msgs perr = settle env cfg msgs perr"
  using assms
  by (auto simp: batch_verdict_def own_outcome_def settle_batch_def split: option.splits goerr.splits)

lemma settle_batch_cases:
  obtains (plain) "\<And>cfg m. batch_verdict cfg perr m = verdict cfg perr m"
      "\<And>env cfg msgs. settle_batch env cfg msgs perr = settle env cfg msgs perr"
  | (batch) e outcomes be where "perr = Some e" "errors_as is_batch e = Some (BatchError outcomes be)"
      "\<And>env cfg msgs. settle_batch env cfg msgs perr = settleEach env cfg msgs outcomes be"
proof (cases "\<exists>e outcomes be. perr = Some e \<and> errors_as is_batch e = Some (BatchError outcomes be)")
  case True
  then show ?thesis using batch by (auto simp: settle_batch_def)
next
  case False
  then show ?thesis using plain batch_verdict_plain by blast
qed

context settling begin

lemma for_each_within:
  "(\<And>x. x \<in> set xs \<Longrightarrow> within R (body x)) \<Longrightarrow> within R (for_each body xs)"
  by (induction xs) (auto intro!: keeps)

lemma settleEach_settles:
  assumes "canonical env msgs" and "attempts_of msgs \<subseteq> K"
    and "perr = Some e" and "errors_as is_batch e = Some (BatchError outcomes be)"
    and "\<forall>m \<in> set msgs. f (m_ID m) = batch_verdict cfg perr m"
  shows "within R (settleEach env cfg msgs outcomes be)"
proof -
  note sub = groups_in_batch(1) [of outcomes msgs] groups_in_batch(2,3) [of outcomes be msgs]
  note verdicts = batch_verdict_groups [OF assms(3,4)]
  have part: "within R (settle env cfg xs p)"
    if "set xs \<subseteq> set msgs" "\<And>m. m \<in> set xs \<Longrightarrow> batch_verdict cfg perr m = verdict cfg p m" for xs p
    using that assms(5) canonical_mono [OF assms(1) that(1)] attempts_of_mono [OF that(1)] assms(2)
    by (intro settle_settles) auto
  have "within R (settle_entry env cfg outcomes m)" if "m \<in> set (own_group outcomes msgs)" for m
    unfolding settle_entry_def using that sub(1) verdicts(1) [OF that] by (intro part) auto
  moreover have "within R (settle env cfg (published_group outcomes be msgs) None)"
    by (rule part) (use sub(2) verdicts(2) in auto)
  moreover have "within R (settle env cfg (others_group outcomes be msgs) be)"
    by (rule part) (use sub(3) verdicts(3) in auto)
  ultimately show ?thesis
    unfolding settleEach_eq by (intro within_bind for_each_within within_ret)
qed

lemma settle_batch_settles:
  assumes "canonical env msgs" and "attempts_of msgs \<subseteq> K"
    and "\<forall>m \<in> set msgs. f (m_ID m) = batch_verdict cfg perr m"
  shows "within R (settle_batch env cfg msgs perr)"
proof (cases rule: settle_batch_cases [of perr])
  case plain
  then show ?thesis using assms by (auto intro!: settle_settles)
next
  case (batch e outcomes be)
  then show ?thesis using settleEach_settles [OF assms(1,2) batch(1,2)] assms(3) by simp
qed

end

section \<open>Frames for the settlement\<close>

text \<open>
  Steps of the settlement interleaved with those of other sessions, and the special case
  in which nobody else touches the table.
\<close>

definition interleaved :: "env \<Rightarrow> (database \<Rightarrow> database \<Rightarrow> bool) \<Rightarrow> database \<Rightarrow> database \<Rightarrow> bool" where
  "interleaved env S = (\<lambda>d d'. S d d' \<or> (\<exists>n. d' = e_others env n d))\<^sup>*\<^sup>*"

definition alone :: "env \<Rightarrow> bool" where
  "alone env \<longleftrightarrow> (\<forall>n d. e_others env n d = d)"

interpretation with_others: settling "interleaved env (settles f K)" env f K for env f K
  by unfold_locales (auto simp: interleaved_def)

interpretation undisturbed: settling "\<lambda>d d'. alone env \<longrightarrow> settles f K d d'" env f K for env f K
  by unfold_locales
    (auto simp: alone_def intro: settles.frame_refl settles.frame_trans)

lemmas settle_batch_alone =
  undisturbed.settle_batch_settles [THEN withinD]

end
