(* ===== verification/Batch.thy ===== *)
theory Batch
  imports Settlement
begin

text \<open>
  What a batch achieves when its processing reports no error: every message of it has been
  handed to the publisher once and its row carries the verdict of the publisher's answer. The
  theory is about a relay that nobody disturbs on its rows; the safety of a disturbed one is in
  theories \<open>Steps\<close> and \<open>Settlement\<close>.
\<close>

section \<open>Recorded outcomes\<close>

definition recorded :: "(string \<Rightarrow> status) \<Rightarrow> string set \<Rightarrow> database \<Rightarrow> bool" where
  "recorded f ids d \<longleftrightarrow> (\<forall>i \<in> ids. \<exists>r \<in> set (d_rows d). r_id r = i \<and> r_status r = f i)"

lemma recorded_Un [simp]: "recorded f (A \<union> B) d \<longleftrightarrow> recorded f A d \<and> recorded f B d"
  by (auto simp: recorded_def)

lemma recorded_empty [simp]: "recorded f {} d"
  by (simp add: recorded_def)

lemma recorded_settles:
  assumes "recorded f ids d" and "settles f K d d'" and "\<forall>i \<in> ids. f i \<noteq> StatusProcessing"
  shows "recorded f ids d'"
  unfolding recorded_def
proof
  fix i assume i: "i \<in> ids"
  then obtain r where r: "r \<in> set (d_rows d)" "r_id r = i" "r_status r = f i"
    using assms(1) by (auto simp: recorded_def)
  then obtain r' where r': "r' \<in> set (d_rows d')" "settles_row f K r r'"
    using list_all2_in_set1 [OF assms(2) [unfolded settles_def]] by blast
  have "r' = r" using r'(2) r(2,3) assms(3) i by (auto simp: settles_row_def)
  then show "\<exists>r \<in> set (d_rows d'). r_id r = i \<and> r_status r = f i" using r r' by auto
qed

text \<open>The RETURNING rows come back in any order, but none is lost or added.\<close>

definition returning_ok :: "env \<Rightarrow> bool" where
  "returning_ok env \<longleftrightarrow> (\<forall>n rows. mset (e_returning env n rows) = mset rows)"

lemma returning_length: "returning_ok env \<Longrightarrow> length (e_returning env n rows) = length rows"
  unfolding returning_ok_def by (metis size_mset)

lemma returning_set: "returning_ok env \<Longrightarrow> set (e_returning env n rows) = set rows"
  unfolding returning_ok_def by (metis set_mset_mset)

text \<open>The row count the code compares is enough: equal counts mean that every attempt was owned.\<close>

lemma owned_count_all:
  assumes "distinct (map r_id tbl)" and "distinct (map fst keys)"
    and "length (filter (owned keys clk) tbl) = length keys"
  shows "r_id ` set (filter (owned keys clk) tbl) = fst ` set keys"
proof (rule card_subset_eq)
  show "finite (fst ` set keys)" by simp
  show "r_id ` set (filter (owned keys clk) tbl) \<subseteq> fst ` set keys"
    by (force elim: ownedE)
  have "card (r_id ` set (filter (owned keys clk) tbl)) = length (map r_id (filter (owned keys clk) tbl))"
    using assms(1) by (subst distinct_card [symmetric]) (simp_all add: distinct_map_filter)
  also have "\<dots> = length (map fst keys)" using assms(3) by simp
  also have "\<dots> = card (fst ` set keys)"
    using distinct_card [OF assms(2)] by simp
  finally show "card (r_id ` set (filter (owned keys clk) tbl)) = card (fst ` set keys)" .
qed

section \<open>Completion\<close>

text \<open>Hooks do not touch the database.\<close>

interpretation unmoved: db_frame "\<lambda>d d'. d' = d"
  by unfold_locales auto


lemma exec_call_InrD:
  assumes "exec_call env stmt w = (Return (Inr x), w')"
  shows "stmt (w_tick w) (e_others env (w_tick w) (w_db w)) = (Inr x, w_db w') \<and> w_log w' = w_log w \<and>
    w_tick w' = Suc (w_tick w)"
  using assms by (auto simp: exec_call_def Let_def split: prod.splits call_outcome.splits)

lemma complete_recorded:
  assumes "complete env cfg msgs st cause delay w = (Return None, w')"
    and "alone env" and "returning_ok env" and "canonical env msgs" and "distinct (map m_ID msgs)"
    and "distinct (map r_id (d_rows (w_db w)))"
  shows "recorded (\<lambda>_. st) (m_ID ` set msgs) (w_db w')"
proof (cases "msgs = []")
  case False
  let ?keys = "map (\<lambda>m. (m_ID m, m_LeaseToken m)) msgs"
  obtain completed w1 where fin: "Store_finish env msgs st (case cause of None \<Rightarrow> '''' | Some e \<Rightarrow> error_text e)
        delay (s_ClearPayloadOnComplete cfg) w = (Return (Inr completed), w1)"
    and len: "length completed = length msgs" and same: "w_db w' = w_db w1"
    using assms(1) unfolding complete_def Let_def
    by (auto elim!: bind_go_ReturnE split: sum.splits if_splits
        dest!: ret_go_ReturnD within_run [OF unmoved.outcome_hooks_within])
  let ?d = "w_db w" and ?clk = "e_clk env (w_tick w)"
  let ?row = "finish_row st (text_column (case cause of None \<Rightarrow> '''' | Some e \<Rightarrow> error_text e)) ?clk
    (?clk + e_interval env delay) (s_ClearPayloadOnComplete cfg)"
  let ?fin = "sql_finish ?keys st (text_column (case cause of None \<Rightarrow> '''' | Some e \<Rightarrow> error_text e)) ?clk
    (?clk + e_interval env delay) (s_ClearPayloadOnComplete cfg) (d_rows ?d)"
  have "finish_stmt env msgs st (case cause of None \<Rightarrow> '''' | Some e \<Rightarrow> error_text e) delay
      (s_ClearPayloadOnComplete cfg) (w_tick w) ?d = (Inr completed, w_db w1)"
    using fin False assms(2) by (auto simp: Store_finish_def alone_def dest: exec_call_InrD)
  then have "(Inr (scanMessages (e_returning env (w_tick w) (snd ?fin))), ?d\<lparr>d_rows := fst ?fin\<rparr>) =
      (Inr completed, w_db w1)"
    by (simp add: finish_stmt_def bind_keys_canonical [OF assms(4)] case_prod_beta split: if_splits)
  then have rows: "d_rows (w_db w1) = fst ?fin"
    and "completed = scanMessages (e_returning env (w_tick w) (snd ?fin))"
    by (auto dest: sym)
  then have "length (filter (owned ?keys ?clk) (d_rows ?d)) = length ?keys"
    using len returning_length [OF assms(3)] by (simp add: scanMessages_def sql_finish_def)
  then have ids: "r_id ` set (filter (owned ?keys ?clk) (d_rows ?d)) = m_ID ` set msgs"
    using owned_count_all [OF assms(6), of ?keys ?clk] assms(5) by (simp add: comp_def image_image)
  show ?thesis
    unfolding recorded_def
  proof
    fix i assume "i \<in> m_ID ` set msgs"
    then have "i \<in> r_id ` set (filter (owned ?keys ?clk) (d_rows ?d))" by (simp only: ids)
    then obtain r where "r \<in> set (d_rows ?d)" "owned ?keys ?clk r" "r_id r = i" by auto
    moreover from this have "?row r \<in> set (d_rows (w_db w'))"
      unfolding same rows sql_finish_def by (auto simp: image_iff intro!: bexI [of _ r])
    ultimately show "\<exists>r \<in> set (d_rows (w_db w')). r_id r = i \<and> r_status r = st"
      by (intro bexI [of _ "?row r"]) simp_all
  qed
qed simp

section \<open>Settlement\<close>

text \<open>
  An operation that settles the messages \<open>msgs\<close>: it only changes rows of the attempts \<open>K\<close>, to
  the status \<open>f\<close>, and when it returns nil all of them are recorded.
\<close>

definition achieves ::
  "(string \<Rightarrow> status) \<Rightarrow> (string \<times> string) set \<Rightarrow> message list \<Rightarrow> goerr option go \<Rightarrow> bool" where
  "achieves f K msgs m \<longleftrightarrow>
     within (settles f K) m \<and>
     (\<forall>w w'. distinct (map r_id (d_rows (w_db w))) \<longrightarrow> m w = (Return None, w') \<longrightarrow>
        recorded f (m_ID ` set msgs) (w_db w'))"

lemma achieves_recorded:
  "achieves f K msgs m \<Longrightarrow> m w = (Return None, w') \<Longrightarrow> distinct (map r_id (d_rows (w_db w))) \<Longrightarrow>
    recorded f (m_ID ` set msgs) (w_db w')"
  unfolding achieves_def by blast

lemma achieves_settles:
  "achieves f K msgs m \<Longrightarrow> m w = (r, w') \<Longrightarrow> settles f K (w_db w) (w_db w')"
  unfolding achieves_def using within_run by blast

lemma achieves_nil: "achieves f K [] (ret_go None)"
  by (simp add: achieves_def settles.within_ret)

lemma settles_distinct:
  "settles f K d d' \<Longrightarrow> distinct (map r_id (d_rows d)) \<Longrightarrow> distinct (map r_id (d_rows d'))"
  by (simp add: settles_ids)

text \<open>A loop over the batch achieves what its passes achieve.\<close>

lemma for_each_achieves:
  assumes "\<And>x. x \<in> set xs \<Longrightarrow> achieves f K [x] (body x)"
    and "\<And>x. x \<in> set xs \<Longrightarrow> f (m_ID x) \<noteq> StatusProcessing"
    and "for_each body xs w = (Return errs, w')" and "\<forall>e \<in> set errs. e = None"
    and "distinct (map r_id (d_rows (w_db w)))"
  shows "recorded f (m_ID ` set xs) (w_db w')"
  using assms
proof (induction xs arbitrary: w errs)
  case (Cons x xs)
  obtain e w1 where body: "body x w = (Return e, w1)"
    and rest: "bind_go (for_each body xs) (\<lambda>ys. ret_go (e # ys)) w1 = (Return errs, w')"
    using Cons.prems(3) by (auto elim: bind_go_ReturnE)
  then obtain ys where ys: "for_each body xs w1 = (Return ys, w')" and errs: "errs = e # ys"
    by (auto elim!: bind_go_ReturnE dest!: ret_go_ReturnD)
  have e: "e = None" using Cons.prems(4) errs by simp
  have x: "achieves f K [x] (body x)" using Cons.prems(1) by simp
  have d1: "distinct (map r_id (d_rows (w_db w1)))"
    using achieves_settles [OF x body] Cons.prems(5) by (rule settles_distinct)
  have "recorded f {m_ID x} (w_db w1)"
    using achieves_recorded [OF x body [unfolded e] Cons.prems(5)] by simp
  moreover have "within (settles f K) (for_each body zs)" if "set zs \<subseteq> set xs" for zs
    using that Cons.prems(1)
    by (induction zs) (auto simp: achieves_def intro!: settles.within_ret settles.within_bind)
  then have "settles f K (w_db w1) (w_db w')"
    using ys by (blast intro: within_run)
  ultimately have "recorded f {m_ID x} (w_db w')"
    using recorded_settles Cons.prems(2) by fastforce
  moreover have "recorded f (m_ID ` set xs) (w_db w')"
    using Cons.IH [OF _ _ ys _ d1] Cons.prems(1,2,4) errs by auto
  ultimately show ?case by (simp add: recorded_def)
qed simp

text \<open>What the settlement of a batch needs to be undisturbed.\<close>

definition undisturbed_batch :: "env \<Rightarrow> message list \<Rightarrow> bool" where
  "undisturbed_batch env msgs \<longleftrightarrow>
     alone env \<and> returning_ok env \<and> canonical env msgs \<and> distinct (map m_ID msgs)"

lemma undisturbed_batch_filter: "undisturbed_batch env msgs \<Longrightarrow> undisturbed_batch env (filter P msgs)"
  by (auto simp: undisturbed_batch_def canonical_def distinct_map_filter)

lemma undisturbed_batch_one: "undisturbed_batch env msgs \<Longrightarrow> m \<in> set msgs \<Longrightarrow> undisturbed_batch env [m]"
  by (auto simp: undisturbed_batch_def canonical_def)

lemma complete_achieves:
  assumes "undisturbed_batch env msgs" and "attempts_of msgs \<subseteq> K" and "\<forall>m \<in> set msgs. f (m_ID m) = st"
  shows "achieves f K msgs (complete env cfg msgs st cause delay)"
  unfolding achieves_def
proof (intro conjI allI impI)
  show "within (settles f K) (complete env cfg msgs st cause delay)"
    using undisturbed.complete_settles [of env msgs K f st cfg cause delay] assms
    by (simp add: undisturbed_batch_def)
  fix w w'
  assume "distinct (map r_id (d_rows (w_db w)))" "complete env cfg msgs st cause delay w = (Return None, w')"
  then have "recorded (\<lambda>_. st) (m_ID ` set msgs) (w_db w')"
    using complete_recorded assms(1) by (auto simp: undisturbed_batch_def)
  then show "recorded f (m_ID ` set msgs) (w_db w')"
    using assms(3) by (simp add: recorded_def)
qed

lemma settle_retry_achieves:
  assumes "undisturbed_batch env [m]" and "attempts_of [m] \<subseteq> K"
    and "\<not> has_as is_permanent e" and "\<not> has_as is_discard e" and "f (m_ID m) = verdict cfg (Some e) m"
  shows "achieves f K [m] (settle_retry env cfg e retry m)"
proof (cases "effective_max cfg m \<le> m_Attempts m")
  case True
  then show ?thesis
    using assms unfolding settle_retry_def by (auto intro!: complete_achieves simp: verdict_def)
next
  case False
  have fin: "achieves f K [m] (complete env cfg [m] StatusPending (Some e) d)" for d
    using assms False by (intro complete_achieves) (auto simp: verdict_def)
  have eq: "settle_retry env cfg e retry m = bind_go (call_backoff cfg (m_Attempts m))
      (\<lambda>d. complete env cfg [m] StatusPending (Some e) (retry_delay d retry))"
    using False by (simp add: settle_retry_def)
  show ?thesis
    unfolding achieves_def eq
  proof (intro conjI allI impI)
    show "within (settles f K) (bind_go (call_backoff cfg (m_Attempts m))
        (\<lambda>d. complete env cfg [m] StatusPending (Some e) (retry_delay d retry)))"
      using fin by (auto simp: achieves_def intro!: settles.within_bind settles.call_backoff_within)
  next
    fix w w'
    assume d: "distinct (map r_id (d_rows (w_db w)))"
      and run: "bind_go (call_backoff cfg (m_Attempts m))
        (\<lambda>d. complete env cfg [m] StatusPending (Some e) (retry_delay d retry)) w = (Return None, w')"
    from run obtain x w1 where "call_backoff cfg (m_Attempts m) w = (Return x, w1)"
      and fin1: "complete env cfg [m] StatusPending (Some e) (retry_delay x retry) w1 = (Return None, w')"
      by (rule bind_go_ReturnE)
    then have "w_db w1 = w_db w" using within_run [OF unmoved.call_backoff_within] by blast
    then show "recorded f (m_ID ` set [m]) (w_db w')"
      using achieves_recorded [OF fin fin1] d by simp
  qed
qed

lemma settle_achieves:
  assumes "undisturbed_batch env msgs" and "attempts_of msgs \<subseteq> K"
    and "\<forall>m \<in> set msgs. f (m_ID m) = verdict cfg perr m"
  shows "achieves f K msgs (settle env cfg msgs perr)"
proof (cases "msgs = [] \<or> perr = None \<or> has_as is_permanent (the perr) \<or> has_as is_discard (the perr)")
  case True
  then show ?thesis
    using assms unfolding settle_def
    by (auto intro!: complete_achieves simp: achieves_nil verdict_def split: option.splits)
next
  case False
  then obtain e where e: "perr = Some e" "\<not> has_as is_permanent e" "\<not> has_as is_discard e" by auto
  have one: "achieves f K [m] (settle_retry env cfg e (errors_as is_retry e) m)" if "m \<in> set msgs" for m
    using assms that e undisturbed_batch_one [OF assms(1)] attempts_of_mono [of "[m]" msgs]
    by (intro settle_retry_achieves) auto
  have "f (m_ID m) \<noteq> StatusProcessing" if "m \<in> set msgs" for m
    using assms(3) that by simp
  then show ?thesis
    unfolding achieves_def
  proof (intro conjI allI impI)
    show "within (settles f K) (settle env cfg msgs perr)"
      using undisturbed.settle_settles [of env msgs K f cfg perr] assms
      by (simp add: undisturbed_batch_def)
  next
    fix w w'
    assume f: "\<And>m. m \<in> set msgs \<Longrightarrow> f (m_ID m) \<noteq> StatusProcessing"
      and d: "distinct (map r_id (d_rows (w_db w)))" and "settle env cfg msgs perr w = (Return None, w')"
    then obtain errs where "for_each (settle_retry env cfg e (errors_as is_retry e)) msgs w = (Return errs, w')"
      "errors_join errs = None"
      using False e by (auto simp: settle_def elim!: bind_go_ReturnE dest!: ret_go_ReturnD)
    then have "for_each (settle_retry env cfg e (errors_as is_retry e)) msgs w = (Return errs, w')"
      "\<forall>x \<in> set errs. x = None"
      by (simp_all add: errors_join_None_iff)
    with for_each_achieves [OF one f] d show "recorded f (m_ID ` set msgs) (w_db w')" by blast
  qed
qed

lemma settleEach_recorded:
  assumes "undisturbed_batch env msgs"
    and "perr = Some e" and "errors_as is_batch e = Some (BatchError outcomes be)"
    and "\<forall>m \<in> set msgs. f (m_ID m) = batch_verdict cfg perr m"
    and "settleEach env cfg msgs outcomes be w = (Return None, w')"
    and "distinct (map r_id (d_rows (w_db w)))"
  shows "recorded f (m_ID ` set msgs) (w_db w')"
proof -
  let ?K = "attempts_of msgs"
  let ?own = "own_group outcomes msgs" and ?pub = "published_group outcomes be msgs"
    and ?oth = "others_group outcomes be msgs"
  note sub = groups_in_batch(1) [of outcomes msgs] groups_in_batch(2,3) [of outcomes be msgs]
  note verdicts = batch_verdict_groups [OF assms(2,3)]
  have part: "achieves f ?K xs (settle env cfg xs p)"
    if "undisturbed_batch env xs" "set xs \<subseteq> set msgs"
      "\<And>m. m \<in> set xs \<Longrightarrow> batch_verdict cfg perr m = verdict cfg p m" for xs p
    using that assms(4) attempts_of_mono [OF that(2)] by (intro settle_achieves) auto
  have own: "achieves f ?K [m] (settle_entry env cfg outcomes m)" if "m \<in> set ?own" for m
    unfolding settle_entry_def
    using that sub(1) verdicts(1) [OF that] undisturbed_batch_one [OF assms(1)] by (intro part) auto
  have pub: "achieves f ?K ?pub (settle env cfg ?pub None)"
    using sub(2) verdicts(2) undisturbed_batch_filter [OF assms(1)]
    by (intro part) (auto simp: published_group_def)
  have oth: "achieves f ?K ?oth (settle env cfg ?oth be)"
    using sub(3) verdicts(3) undisturbed_batch_filter [OF assms(1)]
    by (intro part) (auto simp: others_group_def)
  obtain errs w1 e1 w2 e2 w3 where
    run1: "for_each (settle_entry env cfg outcomes) ?own w = (Return errs, w1)" and
    run2: "settle env cfg ?pub None w1 = (Return e1, w2)" and
    run3: "settle env cfg ?oth be w2 = (Return e2, w3)" and
    nil: "errors_join (errs @ [e1, e2]) = None" and w': "w' = w3"
    using assms(5) unfolding settleEach_eq
    by (elim bind_go_ReturnE) (auto dest: ret_go_ReturnD)
  have fine: "\<forall>x \<in> set errs. x = None" "e1 = None" "e2 = None"
    using nil by (auto simp: errors_join_None_iff)
  have live: "\<forall>i \<in> m_ID ` set xs. f i \<noteq> StatusProcessing" if "set xs \<subseteq> set msgs" for xs
    using assms(4) that by (auto simp: batch_verdict_def)
  have "within (settles f ?K) (for_each (settle_entry env cfg outcomes) zs)" if "set zs \<subseteq> set ?own" for zs
    using that own by (induction zs) (auto simp: achieves_def intro!: settles.within_ret settles.within_bind)
  then have s1: "settles f ?K (w_db w) (w_db w1)" using run1 by (blast intro: within_run)
  have s2: "settles f ?K (w_db w1) (w_db w2)" using achieves_settles [OF pub run2] .
  have s3: "settles f ?K (w_db w2) (w_db w3)" using achieves_settles [OF oth run3] .
  have d1: "distinct (map r_id (d_rows (w_db w1)))" using settles_distinct [OF s1 assms(6)] .
  have d2: "distinct (map r_id (d_rows (w_db w2)))" using settles_distinct [OF s2 d1] .
  have "recorded f (m_ID ` set ?own) (w_db w1)"
    using for_each_achieves [OF own _ run1 fine(1) assms(6)] live [OF sub(1)] by blast
  then have r1: "recorded f (m_ID ` set ?own) (w_db w3)"
    using recorded_settles [OF _ settles.frame_trans [OF s2 s3]] live [OF sub(1)] by blast
  have "recorded f (m_ID ` set ?pub) (w_db w2)"
    using achieves_recorded [OF pub run2 [unfolded fine] d1] .
  then have r2: "recorded f (m_ID ` set ?pub) (w_db w3)"
    using recorded_settles [OF _ s3] live [OF sub(2)] by blast
  have r3: "recorded f (m_ID ` set ?oth) (w_db w3)"
    using achieves_recorded [OF oth run3 [unfolded fine] d2] .
  have "set msgs = set ?own \<union> set ?pub \<union> set ?oth"
    using arg_cong [OF groups_partition [of outcomes msgs be, symmetric], of set_mset] by simp
  then show ?thesis using r1 r2 r3 unfolding w' by (simp only: image_Un recorded_Un)
qed

lemma settle_batch_recorded:
  assumes "undisturbed_batch env msgs" and "\<forall>m \<in> set msgs. f (m_ID m) = batch_verdict cfg perr m"
    and "settle_batch env cfg msgs perr w = (Return None, w')"
    and "distinct (map r_id (d_rows (w_db w)))"
  shows "recorded f (m_ID ` set msgs) (w_db w')"
proof (cases rule: settle_batch_cases [of perr])
  case plain
  then have "achieves f (attempts_of msgs) msgs (settle env cfg msgs perr)"
    using assms(1,2) by (intro settle_achieves) auto
  then show ?thesis using achieves_recorded assms(3,4) plain by metis
next
  case (batch e outcomes be)
  then show ?thesis using settleEach_recorded [OF assms(1) batch(1,2) assms(2)] assms(3,4) by simp
qed

end
