(* ===== verification/Events.thy ===== *)
theory Events
  imports Outbox
begin

text \<open>
  What the Go code tells user code: the log of an operation only grows, and each part of the
  relay emits only its own kind of events.
\<close>

section \<open>Emitted events\<close>

definition emits :: "(event \<Rightarrow> bool) \<Rightarrow> 'a go \<Rightarrow> bool" where
  "emits P m \<longleftrightarrow> (\<forall>w. \<exists>evs. w_log (snd (m w)) = w_log w @ evs \<and> list_all P evs)"

lemma emits_run: "emits P m \<Longrightarrow> m w = (r, w') \<Longrightarrow> \<exists>evs. w_log w' = w_log w @ evs \<and> list_all P evs"
  unfolding emits_def by (metis snd_conv)

lemma emits_mono: "emits P m \<Longrightarrow> (\<And>e. P e \<Longrightarrow> Q e) \<Longrightarrow> emits Q m"
  unfolding emits_def list_all_iff by meson

text \<open>The rules follow the shape of \<open>within\<close>; a silent operation emits nothing at all.\<close>

lemma emits_ret: "emits P (ret_go x)"
  by (simp add: emits_def ret_go_run)

lemma emits_panic: "emits P (panic_go v)"
  by (simp add: emits_def panic_go_run)

lemma emits_take_tick: "emits P take_tick"
  by (simp add: emits_def)

lemma emits_ctx_done: "emits P (ctx_done env)"
  by (simp add: emits_def)

lemma emits_emit: "P ev \<Longrightarrow> emits P (emit ev)"
  by (simp add: emits_def)

lemma emits_exec_call: "emits P (exec_call env stmt)"
  by (auto simp: emits_def exec_call_def Let_def split: prod.splits call_outcome.splits)

lemma emits_bind:
  assumes "emits P m" and "\<And>x. emits P (f x)"
  shows "emits P (bind_go m f)"
  unfolding emits_def
proof
  fix w
  obtain r w1 where m: "m w = (r, w1)" by fastforce
  obtain evs where 1: "w_log w1 = w_log w @ evs" "list_all P evs"
    using emits_run [OF assms(1) m] by blast
  show "\<exists>evs. w_log (snd (bind_go m f w)) = w_log w @ evs \<and> list_all P evs"
  proof (cases r)
    case (Return x)
    obtain evs' where "w_log (snd (f x w1)) = w_log w1 @ evs'" "list_all P evs'"
      using assms(2) unfolding emits_def by blast
    then show ?thesis using m 1 Return by (simp add: bind_go_def)
  qed (use m 1 in \<open>simp add: bind_go_def\<close>)
qed

lemma emits_recovered: "emits P fn \<Longrightarrow> emits P (recovered fn)"
proof -
  assume "emits P fn"
  moreover have "snd (recovered fn w) = snd (fn w)" for w
    by (auto simp: recovered_def split: prod.splits res.splits)
  ultimately show ?thesis by (simp add: emits_def)
qed

lemma emits_for_each: "(\<And>x. x \<in> set xs \<Longrightarrow> emits P (body x)) \<Longrightarrow> emits P (for_each body xs)"
  by (induction xs) (auto intro!: emits_ret emits_bind)

lemma emits_call_hook: "P ev \<Longrightarrow> emits P (call_hook env cfg ev)"
  unfolding call_hook_def
  by (auto split: option.splits hooks.splits
      intro!: emits_ret emits_panic emits_bind emits_emit emits_take_tick)

lemmas emits_rules = emits_ret emits_panic emits_take_tick emits_ctx_done emits_emit emits_exec_call
  emits_bind emits_recovered emits_for_each emits_call_hook

section \<open>The relay's events\<close>

text \<open>The events of the outcome hooks, and the others the relay can cause.\<close>

fun outcome_event :: "event \<Rightarrow> bool" where
  "outcome_event (EvOnPublished _) = True"
| "outcome_event (EvOnDiscarded _ _) = True"
| "outcome_event (EvOnDead _) = True"
| "outcome_event (EvOnFailed _ _) = True"
| "outcome_event _ = False"

fun publish_event :: "event \<Rightarrow> bool" where
  "publish_event (EvPublish _) = True"
| "publish_event _ = False"

lemma not_outcome_event: "\<not> outcome_event ev \<Longrightarrow> ev_outcome ev = []"
  by (cases ev) auto

lemma isFatal_emits: "emits P (isFatal env cfg e)"
  unfolding isFatal_def by (auto split: option.splits res.splits intro!: emits_rules)

lemma renew_emits: "emits P (renew env msgs duration)"
  unfolding renew_def by (auto intro!: emits_rules)

lemma claim_emits: "emits P (claim env cfg)"
  unfolding claim_def by (rule emits_exec_call)

lemma Store_finish_emits: "emits P (Store_finish env msgs st reason delay clear)"
  unfolding Store_finish_def by (auto intro!: emits_rules)

lemma complete_emits: "emits outcome_event (complete env cfg msgs st cause delay)"
proof -
  have "emits outcome_event (outcome_hooks env cfg st completed cause)" for completed
    unfolding outcome_hooks_def by (cases st) (auto split: option.splits intro!: emits_rules)
  then show ?thesis
    unfolding complete_def Let_def by (auto split: sum.splits intro!: emits_rules Store_finish_emits)
qed

lemma settle_emits: "emits outcome_event (settle env cfg msgs perr)"
proof -
  have "emits outcome_event (call_backoff cfg k)" for k
    unfolding call_backoff_def by (auto split: option.splits res.splits intro!: emits_rules)
  then have "emits outcome_event (settle_retry env cfg e retry m)" for e retry m
    unfolding settle_retry_def by (auto intro!: emits_rules complete_emits)
  then show ?thesis
    unfolding settle_def by (auto split: option.splits intro!: emits_rules complete_emits)
qed

lemma settle_batch_emits: "emits outcome_event (settle_batch env cfg msgs perr)"
proof -
  have "emits outcome_event (settle_own env cfg outcomes be ms)" for outcomes be ms
    by (induction ms) (auto split: prod.splits option.splits intro!: emits_rules settle_emits)
  then show ?thesis
    unfolding settle_batch_def settleEach_def
    by (auto split: option.splits goerr.splits prod.splits intro!: emits_rules settle_emits)
qed

lemma heartbeat_emits: "emits (\<lambda>ev. ev = EvCancelPublish) (heartbeat env cfg msgs beats)"
proof (induction beats)
  case (Cons b beats)
  then show ?case by (cases b) (auto split: option.splits intro!: emits_rules renew_emits)
qed (simp add: emits_ret)

text \<open>The publisher is called once, with the whole batch.\<close>

lemma publish_log:
  assumes "publish env cfg msgs w = (r, w')"
  shows "\<exists>evs. w_log w' = w_log w @ EvPublish msgs # evs \<and> list_all (\<lambda>ev. ev = EvCancelPublish) evs"
proof -
  let ?m = "bind_go take_tick (\<lambda>n. bind_go (recovered (heartbeat env cfg msgs (e_beats env n)))
    (\<lambda>lease_err. bind_go (call_publisher env msgs) (\<lambda>perr. ret_go (perr, lease_err))))"
  have "emits (\<lambda>ev. ev = EvCancelPublish) (call_publisher env msgs)"
    unfolding call_publisher_def by (auto split: res.splits intro!: emits_rules)
  then have "emits (\<lambda>ev. ev = EvCancelPublish) ?m"
    by (intro emits_rules heartbeat_emits)
  moreover have "?m (w\<lparr>w_log := w_log w @ [EvPublish msgs]\<rparr>) = (r, w')"
    using assms by (simp add: publish_def bind_go_def)
  ultimately show ?thesis using emits_run by fastforce
qed

end
