(* ===== verification/Pipeline.thy ===== *)
theory Pipeline
  imports Batch Events
begin

text \<open>
  One batch from claim to settlement, row by row, and the drain loop that runs batches until
  the outbox has nothing due.
\<close>

section \<open>The claim\<close>

text \<open>The rows a claim of this relay would pick now.\<close>

definition due :: "env \<Rightarrow> settings \<Rightarrow> nat \<Rightarrow> row list \<Rightarrow> row list" where
  "due env cfg n tbl =
     claim_pick (s_Ordered cfg) (s_BatchSize cfg) (e_now env n) (e_locked env n) tbl"

definition uuid_ok :: "env \<Rightarrow> database \<Rightarrow> bool" where
  "uuid_ok env d \<longleftrightarrow>
     (\<forall>r \<in> set (d_rows d). e_uuid_in env (r_id r) = Some (r_id r)) \<and>
     (\<forall>k. e_uuid_in env (e_gen env k) = Some (e_gen env k))"

text \<open>How the claim changes a row: those picked carry a token and one more attempt.\<close>

definition claimed_as :: "row list \<Rightarrow> message list \<Rightarrow> row \<Rightarrow> row \<Rightarrow> bool" where
  "claimed_as picked msgs r r' \<longleftrightarrow>
     (if r \<in> set picked
      then (\<exists>inst until tok. r' = claim_row inst until tok r) \<and> scan_row r' \<in> set msgs
      else r' = r)"

lemma scan_row_sel [simp]:
  "m_ID (scan_row r) = r_id r" "m_Topic (scan_row r) = r_topic r"
  "m_Payload (scan_row r) = Some (r_payload r)" "m_Attempts (scan_row r) = r_attempts r"
  "m_MaxAttempts (scan_row r) = r_max_attempts r" "m_LeaseToken (scan_row r) = derefStr (r_lease_token r)"
  by (simp_all add: scan_row_def)

lemma claim_run:
  assumes "claim env cfg w = (Return (Inr msgs), w')" and "alone env" and "returning_ok env"
    and "distinct (map r_id (d_rows (w_db w)))"
  shows "list_all2 (claimed_as (due env cfg (w_tick w) (d_rows (w_db w))) msgs)
      (d_rows (w_db w)) (d_rows (w_db w'))"
    and "set (map m_ID msgs) = r_id ` set (due env cfg (w_tick w) (d_rows (w_db w)))"
    and "distinct (map m_ID msgs)"
    and "length msgs = length (due env cfg (w_tick w) (d_rows (w_db w)))"
    and "\<And>m. m \<in> set msgs \<Longrightarrow> \<exists>k. m_LeaseToken m = e_gen env k"
    and "d_uuid (w_db w) \<le> d_uuid (w_db w')" and "w_log w' = w_log w"
proof -
  let ?n = "w_tick w" and ?d = "w_db w"
  let ?p = "due env cfg ?n (d_rows ?d)"
  obtain tbl out k where sql: "sql_claim (e_gen env) (d_uuid ?d) (e_now env ?n) (e_locked env ?n) (s_Ordered cfg)
      (s_InstanceID cfg) (e_clk env ?n + e_interval env (s_LeaseDuration cfg)) (s_BatchSize cfg) (d_rows ?d)
      = (tbl, out, k)"
    by (metis prod_cases3)
  from exec_call_InrD [OF assms(1) [unfolded claim_def]]
  have msgs: "msgs = scanMessages (e_returning env ?n out)" and db: "w_db w' = ?d\<lparr>d_rows := tbl, d_uuid := k\<rparr>"
    and log: "w_log w' = w_log w"
    using assms(2) sql by (auto simp: claim_stmt_def alone_def split: if_splits)
  have mem: "m \<in> set msgs \<longleftrightarrow> (\<exists>r \<in> set out. m = scan_row r)" for m
    using returning_set [OF assms(3)] by (auto simp: msgs scanMessages_def)
  have ids: "mset (map m_ID msgs) = mset (map r_id out)"
  proof -
    have "map m_ID msgs = map r_id (e_returning env ?n out)"
      by (simp add: msgs scanMessages_def)
    then have "mset (map m_ID msgs) = image_mset r_id (mset (e_returning env ?n out))"
      by (simp only: mset_map)
    also have "mset (e_returning env ?n out) = mset out"
      using assms(3) by (simp add: returning_ok_def)
    finally show ?thesis by (simp only: mset_map)
  qed
  have out_ids: "mset (map r_id out) = mset (map r_id ?p)"
    using sql_claim_out_ids [OF assms(4) sql] by (simp add: due_def)
  show "set (map m_ID msgs) = r_id ` set ?p"
    using mset_set_eq [OF ids] mset_set_eq [OF out_ids] by simp
  show "distinct (map m_ID msgs)"
    using claim_pick_distinct [OF assms(4)] ids out_ids
    by (metis due_def mset_eq_imp_distinct_iff)
  show "length msgs = length ?p"
    using ids out_ids by (metis length_map mset_eq_length)
  show "\<exists>k. m_LeaseToken m = e_gen env k" if m: "m \<in> set msgs" for m
  proof -
    obtain r where r: "r \<in> set out" "m = scan_row r" using mem [of m] m by auto
    from assms(4) sql r(1) obtain r0 j where "r = claim_row (s_InstanceID cfg)
        (e_clk env ?n + e_interval env (s_LeaseDuration cfg)) (e_gen env j) r0"
      by (rule sql_claim_out)
    then show ?thesis using r(2) by (auto simp: derefStr_def)
  qed
  show "d_uuid ?d \<le> d_uuid (w_db w')"
    using claim_update_spec(3) [OF sql [unfolded sql_claim_def]] by (simp add: db)
  show "w_log w' = w_log w" by (rule log)
  have rows: "list_all2 (\<lambda>r r'. if r_id r \<in> set (map r_id ?p)
        then \<exists>j \<ge> d_uuid ?d. j < k \<and> r' = claim_row (s_InstanceID cfg)
          (e_clk env ?n + e_interval env (s_LeaseDuration cfg)) (e_gen env j) r else r' = r) (d_rows ?d) tbl"
    using claim_update_spec(1) [OF sql [unfolded sql_claim_def]] by (simp add: due_def)
  have "list_all2 (claimed_as ?p msgs) (d_rows ?d) tbl"
  proof (rule list.rel_mono_strong [OF rows])
    fix r r'
    assume r: "r \<in> set (d_rows ?d)" "r' \<in> set tbl"
      and row: "if r_id r \<in> set (map r_id ?p)
        then \<exists>j \<ge> d_uuid ?d. j < k \<and> r' = claim_row (s_InstanceID cfg)
          (e_clk env ?n + e_interval env (s_LeaseDuration cfg)) (e_gen env j) r else r' = r"
    have "r_id r \<in> set (map r_id ?p) \<longleftrightarrow> r \<in> set ?p"
      using in_pick_iff [OF assms(4) r(1)] by (simp add: due_def)
    moreover have "scan_row r' \<in> set msgs" if "r_id r' \<in> set (map r_id ?p)"
    proof -
      have "r' \<in> set out"
        using that r(2) claim_update_spec(2) [OF sql [unfolded sql_claim_def]] by (auto simp: due_def)
      then show ?thesis using mem by blast
    qed
    moreover have "\<exists>inst until tok. r' = claim_row inst until tok r" if "r_id r \<in> set (map r_id ?p)"
      using row that by (simp only: if_True) blast
    moreover have "r' = r" if "r_id r \<notin> set (map r_id ?p)"
      using row that by (simp only: if_False)
    moreover have "r_id r' = r_id r"
      using row by (auto split: if_splits)
    ultimately show "claimed_as ?p msgs r r'"
      unfolding claimed_as_def by (simp split: if_split)
  qed
  then show "list_all2 (claimed_as ?p msgs) (d_rows ?d) (d_rows (w_db w'))"
    by (simp add: db)
qed

lemma claimed_as_ids: "list_all2 (claimed_as picked msgs) tbl tbl' \<Longrightarrow> map r_id tbl' = map r_id tbl"
  by (rule in_place_ids, erule list_all2_mono) (auto simp: claimed_as_def claim_row_origin split: if_splits)

section \<open>Publishing\<close>

text \<open>While the publisher runs, the heartbeat only moves the leases of the batch.\<close>

definition kept_row :: "string set \<Rightarrow> row \<Rightarrow> row \<Rightarrow> bool" where
  "kept_row ids r r' \<longleftrightarrow> r' = r \<or> r_id r \<in> ids \<and> (\<exists>u. r' = r\<lparr>r_locked_until := u\<rparr>)"

definition keeps_claims :: "string set \<Rightarrow> database \<Rightarrow> database \<Rightarrow> bool" where
  "keeps_claims ids d d' \<longleftrightarrow> list_all2 (kept_row ids) (d_rows d) (d_rows d')"

lemma kept_row_trans: "kept_row ids a b \<Longrightarrow> kept_row ids b c \<Longrightarrow> kept_row ids a c"
  by (auto simp: kept_row_def)

lemma keeps_claims_ids: "keeps_claims ids d d' \<Longrightarrow> map r_id (d_rows d') = map r_id (d_rows d)"
  unfolding keeps_claims_def
  by (rule in_place_ids, erule list_all2_mono) (auto simp: kept_row_def same_origin_def)

interpretation claims_kept: db_frame "keeps_claims ids" for ids
proof unfold_locales
  show "keeps_claims ids d d" for d
    by (simp add: keeps_claims_def kept_row_def list.rel_refl)
  show "keeps_claims ids d d'" if "keeps_claims ids d d1" "keeps_claims ids d1 d'" for d d1 d'
    using list_all2_trans [of "kept_row ids" "kept_row ids" "kept_row ids"] kept_row_trans that
    unfolding keeps_claims_def by blast
qed

lemma renew_keeps:
  assumes "alone env" and "canonical env msgs"
  shows "within (keeps_claims (m_ID ` set msgs)) (renew env msgs duration)"
proof -
  let ?keys = "map (\<lambda>m. (m_ID m, m_LeaseToken m)) msgs"
  have "kept_row (m_ID ` set msgs) r (if owned ?keys clk r then r\<lparr>r_locked_until := Some u\<rparr> else r)" for r clk u
  proof (cases "owned ?keys clk r")
    case True
    then obtain t where "(r_id r, t) \<in> set ?keys" by (rule ownedE)
    then show ?thesis using True by (auto simp: kept_row_def)
  qed (simp add: kept_row_def)
  then have "keeps_claims (m_ID ` set msgs) d (snd (renew_stmt env msgs duration n d))" for n d
    by (simp add: keeps_claims_def renew_stmt_def bind_keys_canonical [OF assms(2)] sql_renew_def
        list.rel_map list.rel_refl)
  then show ?thesis
    using assms(1) unfolding renew_def
    by (auto intro!: claims_kept.within_bind claims_kept.within_ret claims_kept.within_exec_call
        claims_kept.frame_refl simp: alone_def)
qed

lemma publish_keeps:
  assumes "alone env" and "canonical env msgs"
  shows "within (keeps_claims (m_ID ` set msgs)) (publish env cfg msgs)"
proof -
  let ?R = "keeps_claims (m_ID ` set msgs)"
  have "within ?R (heartbeat env cfg msgs beats)" for beats
  proof (induction beats)
    case (Cons b beats)
    then show ?case
      by (cases b) (auto split: option.splits intro!: claims_kept.within_bind claims_kept.within_ret
          claims_kept.within_emit renew_keeps assms)
  qed (simp add: claims_kept.within_ret)
  then show ?thesis
    unfolding publish_def call_publisher_def
    by (auto split: res.splits intro!: claims_kept.within_bind claims_kept.within_ret
        claims_kept.within_panic claims_kept.within_emit claims_kept.within_take_tick
        claims_kept.within_recovered)
qed

text \<open>What the publisher was asked and answered.\<close>

definition published_as :: "env \<Rightarrow> message list \<Rightarrow> goerr option \<Rightarrow> bool" where
  "published_as env msgs perr \<longleftrightarrow> (\<exists>k. e_publish env k msgs = Return perr)"

lemma publish_answer:
  "publish env cfg msgs w = (Return (perr, lease_err), w') \<Longrightarrow> published_as env msgs perr"
  unfolding publish_def call_publisher_def published_as_def
  by (auto elim!: bind_go_ReturnE split: res.splits dest!: ret_go_ReturnD simp: panic_go_run)

section \<open>One batch, row by row\<close>

text \<open>
  The reference: a row that was due is settled to the verdict of the publisher's answer, with
  one more attempt; every other row is as it was.
\<close>

definition processed_row ::
  "settings \<Rightarrow> goerr option \<Rightarrow> row list \<Rightarrow> message list \<Rightarrow> row \<Rightarrow> row \<Rightarrow> bool" where
  "processed_row cfg perr picked msgs r r' \<longleftrightarrow>
     (if r \<in> set picked
      then \<exists>inst until tok. let m = scan_row (claim_row inst until tok r) in
        m \<in> set msgs \<and> same_origin r r' \<and> r_attempts r' = r_attempts r + 1 \<and>
        r_status r' = batch_verdict cfg perr m
      else r' = r)"

lemma settle_rows:
  assumes "list_all2 (claimed_as picked msgs) tbl (d_rows d1)"
    and "keeps_claims (m_ID ` set msgs) d1 d2" and "settles f (attempts_of msgs) d2 d3"
    and "recorded f (m_ID ` set msgs) d3" and "distinct (map r_id tbl)"
    and "set (map m_ID msgs) = r_id ` set picked" and "set picked \<subseteq> set tbl"
    and "\<And>m. m \<in> set msgs \<Longrightarrow> f (m_ID m) = batch_verdict cfg perr m"
  shows "list_all2 (processed_row cfg perr picked msgs) tbl (d_rows d3)"
proof (rule list_all2_all_nthI)
  have len: "length (d_rows d1) = length tbl" "length (d_rows d2) = length tbl" "length (d_rows d3) = length tbl"
    using list_all2_lengthD [OF assms(1)] list_all2_lengthD [OF assms(2) [unfolded keeps_claims_def]]
      list_all2_lengthD [OF assms(3) [unfolded settles_def]] by simp_all
  then show "length tbl = length (d_rows d3)" by simp
  fix i assume i: "i < length tbl"
  let ?r = "tbl ! i" and ?r1 = "d_rows d1 ! i" and ?r2 = "d_rows d2 ! i" and ?r3 = "d_rows d3 ! i"
  have c: "claimed_as picked msgs ?r ?r1" using list_all2_nthD [OF assms(1) i] .
  have k: "kept_row (m_ID ` set msgs) ?r1 ?r2"
    using list_all2_nthD [OF assms(2) [unfolded keeps_claims_def], of i] i len by simp
  have s: "settles_row f (attempts_of msgs) ?r2 ?r3"
    using list_all2_nthD [OF assms(3) [unfolded settles_def], of i] i len by simp
  have ids: "m_ID ` set msgs = r_id ` set picked" using assms(6) by simp
  show "processed_row cfg perr picked msgs ?r ?r3"
  proof (cases "?r \<in> set picked")
    case False
    have "r_id ?r \<notin> m_ID ` set msgs"
    proof
      assume "r_id ?r \<in> m_ID ` set msgs"
      then obtain p where p: "p \<in> set picked" "r_id p = r_id ?r" unfolding ids by auto
      then have "p = ?r"
        using assms(5,7) i by (auto simp: distinct_map dest!: inj_onD)
      then show False using False p by simp
    qed
    moreover have "?r1 = ?r" using c False by (simp add: claimed_as_def)
    ultimately have "?r2 = ?r" "?r3 = ?r2"
      using k s by (auto simp: kept_row_def settles_row_def attempts_of_def)
    then show ?thesis using False by (simp add: processed_row_def)
  next
    case True
    then obtain inst until tok where r1: "?r1 = claim_row inst until tok ?r" and m: "scan_row ?r1 \<in> set msgs"
      using c by (auto simp: claimed_as_def)
    have chain: "same_origin ?r ?r3" "r_attempts ?r3 = r_attempts ?r + 1" "r_id ?r3 = r_id ?r"
      using k s r1 claim_row_origin [of ?r inst until tok]
      by (auto simp: kept_row_def settles_row_def same_origin_def)
    have "r_id ?r \<in> m_ID ` set msgs" using True unfolding ids by simp
    then obtain r' where r': "r' \<in> set (d_rows d3)" "r_id r' = r_id ?r3" "r_status r' = f (r_id ?r3)"
      using assms(4) chain(3) by (auto simp: recorded_def)
    have "map r_id (d_rows d3) = map r_id tbl"
      using claimed_as_ids [OF assms(1)] keeps_claims_ids [OF assms(2)] settles_ids [OF assms(3)] by simp
    then have "distinct (map r_id (d_rows d3))" using assms(5) by simp
    then have "r' = ?r3"
      using r'(1,2) i len by (auto simp: distinct_map dest!: inj_onD)
    then have "r_status ?r3 = f (r_id ?r)" using r'(3) chain(3) by simp
    also have "\<dots> = batch_verdict cfg perr (scan_row ?r1)"
      using assms(8) [OF m] r1 by simp
    finally show ?thesis
      using True m r1 chain(1,2) by (auto simp: processed_row_def Let_def)
  qed
qed

lemma uuid_ok_claimed:
  assumes "uuid_ok env d" and "set (map m_ID msgs) = r_id ` set picked" and "set picked \<subseteq> set (d_rows d)"
    and "\<And>m. m \<in> set msgs \<Longrightarrow> \<exists>k. m_LeaseToken m = e_gen env k"
  shows "canonical env msgs"
  unfolding canonical_def
proof
  fix m assume m: "m \<in> set msgs"
  then have "m_ID m \<in> r_id ` set picked" using assms(2) by auto
  then show "e_uuid_in env (m_ID m) = Some (m_ID m) \<and> e_uuid_in env (m_LeaseToken m) = Some (m_LeaseToken m)"
    using assms(1,3) assms(4) [OF m] by (auto simp: uuid_ok_def)
qed

text \<open>The verdict as a function of the message id, for a batch with distinct ids.\<close>

definition verdict_of :: "settings \<Rightarrow> goerr option \<Rightarrow> message list \<Rightarrow> string \<Rightarrow> status" where
  "verdict_of cfg perr msgs i =
     (case map_of (map (\<lambda>m. (m_ID m, batch_verdict cfg perr m)) msgs) i of
        Some s \<Rightarrow> s | None \<Rightarrow> StatusPending)"

lemma verdict_of_message:
  assumes "distinct (map m_ID msgs)" and "m \<in> set msgs"
  shows "verdict_of cfg perr msgs (m_ID m) = batch_verdict cfg perr m"
proof -
  have "map_of (map (\<lambda>m. (m_ID m, batch_verdict cfg perr m)) msgs) (m_ID m) = Some (batch_verdict cfg perr m)"
    using assms by (intro map_of_is_SomeI) (auto simp: comp_def)
  then show ?thesis by (simp add: verdict_of_def)
qed

lemma due_in_table: "set (due env cfg n tbl) \<subseteq> set tbl"
  unfolding due_def by (auto dest: claim_pickD(1))

text \<open>A batch that reports no error, from start to end.\<close>

lemma isFatal_unmoved: "isFatal env cfg e w = (r, w') \<Longrightarrow> w_db w' = w_db w \<and> w_log w' = w_log w"
  by (auto simp: isFatal_def go_run split: if_splits option.splits res.splits)

lemma processBatch_nilE:
  assumes "processBatch env cfg w = (Return (n, None), w')"
  obtains (idle) "claim env cfg w = (Return (Inr []), w')" "n = 0"
  | (batch) msgs w1 perr w2 w3 where "claim env cfg w = (Return (Inr msgs), w1)" "msgs \<noteq> []"
      "n = length msgs" "publish env cfg msgs w1 = (Return (perr, None), w2)"
      "w_db w3 = w_db w2" "w_log w3 = w_log w2" "settle_batch env cfg msgs perr w3 = (Return None, w')"
proof -
  let ?judge = "\<lambda>perr. case perr of None \<Rightarrow> ret_go False | Some e \<Rightarrow> isFatal env cfg e"
  obtain msgs w1 where cl: "claim env cfg w = (Return (Inr msgs), w1)"
    and rest: "(if msgs = [] then ret_go (0, None) else
        bind_go (publish env cfg msgs) (\<lambda>(perr, lease_err).
          bind_go (?judge perr) (\<lambda>fatal.
            if fatal then ret_go (length msgs, map_option FatalError perr)
            else if lease_err \<noteq> None then ret_go (length msgs, lease_err)
            else bind_go (settle_batch env cfg msgs perr) (\<lambda>err. ret_go (length msgs, err))))) w1
        = (Return (n, None), w')"
    using assms unfolding processBatch_def
    by (elim bind_go_ReturnE) (auto split: sum.splits dest!: ret_go_ReturnD)
  show thesis
  proof (cases "msgs = []")
    case True
    then show thesis using idle cl rest by (auto dest: ret_go_ReturnD)
  next
    case False
    then obtain perr lease_err w2 fatal w3 where
      pub: "publish env cfg msgs w1 = (Return (perr, lease_err), w2)" and
      judge: "?judge perr w2 = (Return fatal, w3)" and
      last: "(if fatal then ret_go (length msgs, map_option FatalError perr)
        else if lease_err \<noteq> None then ret_go (length msgs, lease_err)
        else bind_go (settle_batch env cfg msgs perr) (\<lambda>err. ret_go (length msgs, err))) w3
        = (Return (n, None), w')"
      using rest by (auto elim!: bind_go_ReturnE split: prod.splits)
    have same: "w_db w3 = w_db w2 \<and> w_log w3 = w_log w2"
      using judge by (auto split: option.splits dest!: ret_go_ReturnD isFatal_unmoved)
    have "perr \<noteq> None" if fatal
      using judge that by (cases perr) (auto dest!: ret_go_ReturnD)
    then have "\<not> fatal" using last by (auto dest!: ret_go_ReturnD)
    moreover from this have "lease_err = None" using last by (auto dest!: ret_go_ReturnD split: if_splits)
    ultimately have "settle_batch env cfg msgs perr w3 = (Return None, w')" "n = length msgs"
      using last by (auto elim!: bind_go_ReturnE dest!: ret_go_ReturnD)
    then show thesis
      using batch cl False pub \<open>lease_err = None\<close> same by blast
  qed
qed

lemma processBatch_rows:
  assumes "processBatch env cfg w = (Return (n, None), w')"
    and "alone env" and "returning_ok env" and "uuid_ok env (w_db w)"
    and "distinct (map r_id (d_rows (w_db w)))"
  shows "\<exists>perr msgs. n = length (due env cfg (w_tick w) (d_rows (w_db w))) \<and>
    list_all2 (processed_row cfg perr (due env cfg (w_tick w) (d_rows (w_db w))) msgs)
      (d_rows (w_db w)) (d_rows (w_db w')) \<and>
    (0 < n \<longrightarrow> published_as env msgs perr \<and>
      set (map m_ID msgs) = r_id ` set (due env cfg (w_tick w) (d_rows (w_db w))) \<and>
      distinct (map m_ID msgs) \<and>
      (\<exists>evs. w_log w' = w_log w @ EvPublish msgs # evs \<and> list_all (\<lambda>ev. \<not> publish_event ev) evs))"
  using assms(1)
proof (cases rule: processBatch_nilE)
  case idle
  note claimed = claim_run [OF idle(1) assms(2,3,5)]
  have "due env cfg (w_tick w) (d_rows (w_db w)) = []" using claimed(4) by simp
  moreover have "list_all2 (processed_row cfg None [] []) (d_rows (w_db w)) (d_rows (w_db w'))"
    using claimed(1) calculation by (auto simp: claimed_as_def processed_row_def elim!: list_all2_mono)
  ultimately show ?thesis using idle(2) by auto
next
  case (batch msgs w1 perr w2 w3)
  let ?p = "due env cfg (w_tick w) (d_rows (w_db w))" and ?f = "verdict_of cfg perr msgs"
  note claimed = claim_run [OF batch(1) assms(2,3,5)]
  have canon: "canonical env msgs"
    using uuid_ok_claimed [OF assms(4) claimed(2) due_in_table claimed(5)] .
  have f: "\<forall>m \<in> set msgs. ?f (m_ID m) = batch_verdict cfg perr m"
    using verdict_of_message [OF claimed(3)] by blast
  have ub: "undisturbed_batch env msgs"
    using assms(2,3) canon claimed(3) by (simp add: undisturbed_batch_def)
  have pub: "keeps_claims (m_ID ` set msgs) (w_db w1) (w_db w3)"
    using within_run [OF publish_keeps [OF assms(2) canon] batch(4)] batch(5) by simp
  have ids3: "map r_id (d_rows (w_db w3)) = map r_id (d_rows (w_db w))"
    using keeps_claims_ids [OF pub] claimed_as_ids [OF claimed(1)] by simp
  have set3: "settles ?f (attempts_of msgs) (w_db w3) (w_db w')"
    using settle_batch_alone [OF canon subset_refl f, of w3] assms(2) batch(7) by simp
  have rec: "recorded ?f (m_ID ` set msgs) (w_db w')"
    using settle_batch_recorded [OF ub f batch(7)] ids3 assms(5) by simp
  have rows: "list_all2 (processed_row cfg perr ?p msgs) (d_rows (w_db w)) (d_rows (w_db w'))"
    by (rule settle_rows [OF claimed(1) pub set3 rec assms(5) claimed(2) due_in_table]) (use f in blast)
  obtain evs1 evs2 where log: "w_log w2 = w_log w1 @ EvPublish msgs # evs1"
      "list_all (\<lambda>ev. ev = EvCancelPublish) evs1" "w_log w' = w_log w3 @ evs2" "list_all outcome_event evs2"
    using publish_log [OF batch(4)] emits_run [OF settle_batch_emits batch(7)] by blast
  have "\<not> publish_event ev" if "ev = EvCancelPublish \<or> outcome_event ev" for ev
    using that by (cases ev) auto
  then have "list_all (\<lambda>ev. \<not> publish_event ev) (evs1 @ evs2)"
    using log(2,4) by (auto simp: list_all_iff)
  moreover have "w_log w' = w_log w @ EvPublish msgs # (evs1 @ evs2)"
    using log(1,3) batch(6) claimed(7) by simp
  ultimately show ?thesis
    using rows claimed(2,3,4) batch(3) publish_answer [OF batch(4)] by blast
qed

end
