(* ===== verification/Drain.thy ===== *)
theory Drain
  imports Pipeline
begin

text \<open>
  The drain loop and the loops around it: why draining ends, and what has been reached when it
  does.
\<close>

section \<open>The work left\<close>

text \<open>
  A row that is not settled can still be claimed until its attempts reach the limit, and once
  more.
\<close>

definition row_max :: "settings \<Rightarrow> row \<Rightarrow> int" where
  "row_max cfg r = (case r_max_attempts r of Some n \<Rightarrow> n | None \<Rightarrow> s_MaxAttempts cfg)"

definition budget :: "settings \<Rightarrow> row \<Rightarrow> nat" where
  "budget cfg r = (if terminal (r_status r) then 0 else nat (row_max cfg r - r_attempts r) + 1)"

definition work :: "settings \<Rightarrow> database \<Rightarrow> nat" where
  "work cfg d = sum_list (map (budget cfg) (d_rows d))"

lemma budget_claimable: "claimable now r \<Longrightarrow> 0 < budget cfg r"
  by (auto simp: budget_def dest: claimable_not_terminal)

lemma verdict_cases:
  "terminal (verdict cfg outcome m) \<or>
   verdict cfg outcome m = StatusPending \<and> m_Attempts m < effective_max cfg m"
  by (auto simp: verdict_def split: option.splits)

lemma budget_processed:
  assumes "processed_row cfg perr picked msgs r r'" and "r \<in> set picked" and "claimable now r"
  shows "budget cfg r' < budget cfg r"
proof -
  obtain inst until tok where m: "same_origin r r'" "r_attempts r' = r_attempts r + 1"
      "r_status r' = batch_verdict cfg perr (scan_row (claim_row inst until tok r))"
    using assms(1,2) by (auto simp: processed_row_def Let_def)
  let ?m = "scan_row (claim_row inst until tok r)"
  have max: "effective_max cfg ?m = row_max cfg r" "row_max cfg r' = row_max cfg r"
    using m(1) by (auto simp: effective_max_def row_max_def same_origin_def claim_row_def)
  have "terminal (r_status r') \<or> r_status r' = StatusPending \<and> r_attempts r + 1 < row_max cfg r"
    using verdict_cases [of cfg "own_outcome perr ?m" ?m] m(3) max(1)
    by (simp add: batch_verdict_def)
  moreover have "\<not> terminal (r_status r)" using assms(3) by (rule claimable_not_terminal)
  ultimately show ?thesis using m(2) max(2) by (auto simp: budget_def)
qed

lemma sum_list_all2_less:
  fixes f g :: "'a \<Rightarrow> nat"
  assumes "list_all2 (\<lambda>x y. g y \<le> f x) xs ys" and "\<exists>i < length xs. g (ys ! i) < f (xs ! i)"
  shows "sum_list (map g ys) < sum_list (map f xs)"
  using assms
proof (induction xs arbitrary: ys)
  case (Cons x xs)
  from Cons.prems(1) obtain y zs where ys: "ys = y # zs" "g y \<le> f x" "list_all2 (\<lambda>x y. g y \<le> f x) xs zs"
    by (auto simp: list_all2_Cons1)
  have le: "sum_list (map g zs) \<le> sum_list (map f xs)"
    using ys(3) by (induction rule: list_all2_induct) auto
  from Cons.prems(2) obtain i where i: "i < length (x # xs)" "g (ys ! i) < f ((x # xs) ! i)" by blast
  show ?case
  proof (cases i)
    case 0
    then show ?thesis using i le ys(1) by simp
  next
    case (Suc j)
    then have "\<exists>j < length xs. g (zs ! j) < f (xs ! j)" using i ys(1) by auto
    then show ?thesis using Cons.IH [OF ys(3)] ys(1,2) by simp
  qed
qed simp

lemma processed_row_origin: "processed_row cfg perr picked msgs r r' \<Longrightarrow> same_origin r r'"
  by (auto simp: processed_row_def Let_def split: if_splits)

lemma work_decreases:
  assumes "list_all2 (processed_row cfg perr (due env cfg n (d_rows d)) msgs) (d_rows d) (d_rows d')"
    and "due env cfg n (d_rows d) \<noteq> []"
  shows "work cfg d' < work cfg d"
  unfolding work_def
proof (rule sum_list_all2_less)
  let ?p = "due env cfg n (d_rows d)"
  have claimable: "\<exists>now. claimable now r" if "r \<in> set ?p" for r
    using that by (auto simp: due_def dest: claim_pickD)
  show "list_all2 (\<lambda>x y. budget cfg y \<le> budget cfg x) (d_rows d) (d_rows d')"
  proof (rule list_all2_mono [OF assms(1)])
    fix r r' assume row: "processed_row cfg perr ?p msgs r r'"
    show "budget cfg r' \<le> budget cfg r"
    proof (cases "r \<in> set ?p")
      case True
      then show ?thesis using budget_processed [OF row True] claimable by (meson less_imp_le)
    qed (use row in \<open>simp add: processed_row_def\<close>)
  qed
  obtain p where p: "p \<in> set ?p" using assms(2) by (meson last_in_set)
  then obtain i where i: "i < length (d_rows d)" "d_rows d ! i = p"
    using due_in_table by (metis in_set_conv_nth subsetD)
  then show "\<exists>i < length (d_rows d). budget cfg (d_rows d' ! i) < budget cfg (d_rows d ! i)"
    using budget_processed [OF list_all2_nthD [OF assms(1) i(1)]] claimable p by metis
qed

section \<open>Draining ends\<close>

lemma uuid_ok_ids:
  assumes "uuid_ok env d" and "map r_id (d_rows d') = map r_id (d_rows d)"
  shows "uuid_ok env d'"
proof -
  have "r_id ` set (d_rows d') = r_id ` set (d_rows d)"
    using assms(2) by (metis list.set_map)
  then show ?thesis
    using assms(1) unfolding uuid_ok_def by (metis (no_types, opaque_lifting) imageE imageI)
qed

lemma drain_ends:
  assumes "alone env" and "returning_ok env" and "uuid_ok env (w_db w)"
    and "distinct (map r_id (d_rows (w_db w)))" and "work cfg (w_db w) < fuel"
  shows "fst (drain fuel env cfg w) \<noteq> Return Running"
  using assms(3-5)
proof (induction fuel arbitrary: w)
  case (Suc fuel)
  show ?case
  proof
    assume "fst (drain (Suc fuel) env cfg w) = Return Running"
    then obtain w' where run: "drain (Suc fuel) env cfg w = (Return Running, w')"
      by (metis prod.collapse)
    let ?w1 = "w\<lparr>w_tick := Suc (w_tick w)\<rparr>"
    from run obtain n w2 where batch: "processBatch env cfg ?w1 = (Return (n, None), w2)" and n: "n \<noteq> 0"
      and rest: "drain fuel env cfg w2 = (Return Running, w')"
      by (auto elim!: bind_go_ReturnE split: if_splits option.splits dest!: ret_go_ReturnD)
    let ?p = "due env cfg (w_tick ?w1) (d_rows (w_db w))"
    from processBatch_rows [OF batch assms(1,2)] Suc.prems(1,2) obtain perr msgs where
      rows: "n = length ?p" "list_all2 (processed_row cfg perr ?p msgs) (d_rows (w_db w)) (d_rows (w_db w2))"
      by auto
    have "work cfg (w_db w2) < work cfg (w_db w)"
      using work_decreases [OF rows(2)] rows(1) n by simp
    moreover have ids: "map r_id (d_rows (w_db w2)) = map r_id (d_rows (w_db w))"
      by (rule in_place_ids, rule list_all2_mono [OF rows(2)]) (rule processed_row_origin)
    then have "uuid_ok env (w_db w2)"
      using uuid_ok_ids [OF Suc.prems(1)] by simp
    ultimately show False
      using Suc.IH [of w2] Suc.prems(2,3) ids rest by auto
  qed
qed simp

section \<open>What a finished drain has reached\<close>

text \<open>
  Unless it was cancelled or stopped by an error it logged, a drain that returned nil has seen an
  empty claim as its last act.
\<close>

definition log_ends_with_error :: "world \<Rightarrow> bool" where
  "log_ends_with_error w \<longleftrightarrow>
     (\<exists>evs e. w_log w = evs @ [EvLogError ''outbox: relay batch failed'' e])"

lemma batch_failed_nil:
  "batch_failed env cfg e w = (Return None, w') \<Longrightarrow> log_ends_with_error w'"
  unfolding batch_failed_def log_ends_with_error_def
  by (auto elim!: bind_go_ReturnE split: option.splits goerr.splits if_splits
      dest!: ret_go_ReturnD intro: isFatal_unmoved)

lemma processBatch_idle:
  assumes "processBatch env cfg w = (Return (0, None), w')"
    and "alone env" and "returning_ok env" and "uuid_ok env (w_db w)"
    and "distinct (map r_id (d_rows (w_db w)))"
  shows "due env cfg (w_tick w) (d_rows (w_db w)) = [] \<and> d_rows (w_db w') = d_rows (w_db w)"
proof -
  obtain perr msgs where none: "due env cfg (w_tick w) (d_rows (w_db w)) = []"
    and rows: "list_all2 (processed_row cfg perr (due env cfg (w_tick w) (d_rows (w_db w))) msgs)
      (d_rows (w_db w)) (d_rows (w_db w'))"
    using processBatch_rows [OF assms] by auto
  have "list_all2 (=) (d_rows (w_db w)) (d_rows (w_db w'))"
    using rows unfolding none by (rule list_all2_mono) (simp add: processed_row_def)
  then show ?thesis using none by (simp add: list.rel_eq)
qed

lemma drain_reaches:
  assumes "alone env" and "returning_ok env" and "uuid_ok env (w_db w)"
    and "distinct (map r_id (d_rows (w_db w)))" and "\<forall>n. \<not> e_done env n"
    and "drain fuel env cfg w = (Return (Done None), w')"
  shows "(\<exists>n. due env cfg n (d_rows (w_db w')) = []) \<or> log_ends_with_error w'"
  using assms(3,4,6)
proof (induction fuel arbitrary: w)
  case (Suc fuel)
  let ?w1 = "w\<lparr>w_tick := Suc (w_tick w)\<rparr>"
  from Suc.prems(3) obtain n err w2 where batch: "processBatch env cfg ?w1 = (Return (n, err), w2)"
    and rest: "(case err of
         Some e \<Rightarrow> bind_go (batch_failed env cfg e) (\<lambda>r. ret_go (Done r))
       | None \<Rightarrow> if n = 0 then ret_go (Done None) else drain fuel env cfg) w2 = (Return (Done None), w')"
    using assms(5) by (auto elim!: bind_go_ReturnE split: prod.splits)
  show ?case
  proof (cases err)
    case (Some e)
    then show ?thesis
      using rest by (auto elim!: bind_go_ReturnE dest!: ret_go_ReturnD batch_failed_nil)
  next
    case None
    note batch' = batch [unfolded None]
    show ?thesis
    proof (cases "n = 0")
      case True
      then have "due env cfg (w_tick ?w1) (d_rows (w_db ?w1)) = [] \<and> d_rows (w_db w2) = d_rows (w_db ?w1)"
        using processBatch_idle [OF batch' [unfolded True] assms(1,2)] Suc.prems(1,2) by simp
      moreover have "w' = w2" using rest None True by (auto dest: ret_go_ReturnD)
      ultimately show ?thesis by auto
    next
      case False
      from processBatch_rows [OF batch' assms(1,2)] Suc.prems(1,2) obtain perr picked msgs where
        rows: "list_all2 (processed_row cfg perr picked msgs) (d_rows (w_db w)) (d_rows (w_db w2))"
        by auto
      have ids: "map r_id (d_rows (w_db w2)) = map r_id (d_rows (w_db w))"
        by (rule in_place_ids, rule list_all2_mono [OF rows]) (rule processed_row_origin)
      show ?thesis
        using Suc.IH [of w2] uuid_ok_ids [OF Suc.prems(1) ids] Suc.prems(2) ids rest None False by simp
    qed
  qed
qed (auto dest: ret_go_ReturnD)

end
