(* ===== verification/Guarantees.thy ===== *)
theory Guarantees
  imports Drain
begin

text \<open>
  Delivery guarantees of the relay that hold whatever fails: nothing is marked published that the
  publisher did not acknowledge, an attempt that lost its lease cannot write, a fatal error
  leaves the batch claimed, and the hooks hear of exactly the rows that were completed.
\<close>

section \<open>At least once\<close>

text \<open>The publisher was handed a batch with this message and its answer reports no failure for it.\<close>

definition acknowledged :: "env \<Rightarrow> string \<Rightarrow> bool" where
  "acknowledged env i \<longleftrightarrow>
     (\<exists>msgs perr m. published_as env msgs perr \<and> m \<in> set msgs \<and> m_ID m = i \<and> own_outcome perr m = None)"

text \<open>The frame: the rows stay, and one becomes published only if \<open>A\<close> holds of its id.\<close>

definition justified_row :: "(string \<Rightarrow> bool) \<Rightarrow> row \<Rightarrow> row \<Rightarrow> bool" where
  "justified_row A r r' \<longleftrightarrow>
     r_id r' = r_id r \<and>
     (r_status r' = StatusPublished \<longrightarrow> r_status r = StatusPublished \<or> A (r_id r))"

definition justified :: "(string \<Rightarrow> bool) \<Rightarrow> env \<Rightarrow> database \<Rightarrow> database \<Rightarrow> bool" where
  "justified A env d d' \<longleftrightarrow>
     (alone env \<longrightarrow> returning_ok env \<longrightarrow> uuid_ok env d \<longrightarrow> distinct (map r_id (d_rows d)) \<longrightarrow>
      list_all2 (justified_row A) (d_rows d) (d_rows d'))"

lemma justified_ids:
  assumes "list_all2 (justified_row A) tbl tbl'"
  shows "map r_id tbl' = map r_id tbl"
  using assms by (induction rule: list_all2_induct) (auto simp: justified_row_def)

lemma justified_row_trans:
  "justified_row A a b \<Longrightarrow> justified_row A b c \<Longrightarrow> justified_row A a c"
  by (auto simp: justified_row_def)

interpretation justified: db_frame "justified A env" for A env
proof unfold_locales
  show "justified A env d d" for d
    by (simp add: justified_def justified_row_def list.rel_refl)
  show "justified A env d d'" if 1: "justified A env d d1" and 2: "justified A env d1 d'" for d d1 d'
    unfolding justified_def
  proof (intro impI)
    assume *: "alone env" "returning_ok env" "uuid_ok env d" "distinct (map r_id (d_rows d))"
    then have a: "list_all2 (justified_row A) (d_rows d) (d_rows d1)"
      using 1 by (simp add: justified_def)
    have "uuid_ok env d1" "distinct (map r_id (d_rows d1))"
      using uuid_ok_ids [OF *(3)] justified_ids [OF a] *(4) by simp_all
    then have b: "list_all2 (justified_row A) (d_rows d1) (d_rows d')"
      using 2 * by (simp add: justified_def)
    show "list_all2 (justified_row A) (d_rows d) (d_rows d')"
      by (rule list_all2_trans [OF _ a b]) (rule justified_row_trans)
  qed
qed

lemma justified_exec_call:
  assumes "\<And>n d. list_all2 (justified_row A) (d_rows d) (d_rows (snd (stmt n d)))"
  shows "within (justified A env) (exec_call env stmt)"
proof (cases "alone env")
  case True
  then show ?thesis
    using assms by (intro justified.within_exec_call) (simp_all add: alone_def justified.frame_refl justified_def)
next
  case False
  then show ?thesis by (simp add: within_def justified_def)
qed

lemma claim_justified: "within (justified A env) (claim env cfg)"
  unfolding claim_def
proof (rule justified_exec_call)
  fix n and d :: database
  obtain tbl out k where sql: "sql_claim (e_gen env) (d_uuid d) (e_now env n) (e_locked env n) (s_Ordered cfg)
      (s_InstanceID cfg) (e_clk env n + e_interval env (s_LeaseDuration cfg)) (s_BatchSize cfg) (d_rows d)
      = (tbl, out, k)"
    by (metis prod_cases3)
  have "list_all2 (justified_row A) (d_rows d) tbl"
    by (rule list_all2_mono [OF claim_update_spec(1) [OF sql [unfolded sql_claim_def]]])
      (auto simp: justified_row_def split: if_splits)
  then show "list_all2 (justified_row A) (d_rows d) (d_rows (snd (claim_stmt env cfg n d)))"
    using sql by (simp add: claim_stmt_def justified_row_def list.rel_refl)
qed

lemma publish_justified: "within (justified A env) (publish env cfg msgs)"
proof -
  have "list_all2 (justified_row A) (d_rows d) (d_rows (snd (renew_stmt env msgs duration n d)))"
    for n d duration
    by (auto simp: renew_stmt_def sql_renew_def list.rel_map justified_row_def
        intro!: list.rel_refl split: option.splits)
  then have renew: "within (justified A env) (renew env msgs duration)" for duration
    unfolding renew_def
    by (intro justified.within_bind justified.within_ret justified_exec_call)
  have "within (justified A env) (heartbeat env cfg msgs beats)" for beats
  proof (induction beats)
    case (Cons b beats)
    then show ?case
      by (cases b) (auto split: option.splits intro!: renew justified.within_bind justified.within_ret
          justified.within_emit)
  qed (simp add: justified.within_ret)
  then show ?thesis
    unfolding publish_def by (intro justified.within_bind justified.within_ret justified.within_emit
        justified.within_take_tick justified.within_recovered justified.call_publisher_within)
qed

lemma settle_batch_justified:
  assumes "alone env" and "canonical env msgs" and "distinct (map m_ID msgs)"
    and "\<forall>m \<in> set msgs. own_outcome perr m = None \<longrightarrow> A (m_ID m)"
  shows "list_all2 (justified_row A) (d_rows (w_db w)) (d_rows (w_db (snd (settle_batch env cfg msgs perr w))))"
proof -
  let ?f = "verdict_of cfg perr msgs"
  have "\<forall>m \<in> set msgs. ?f (m_ID m) = batch_verdict cfg perr m"
    using verdict_of_message [OF assms(3)] by blast
  then have "settles ?f (attempts_of msgs) (w_db w) (w_db (snd (settle_batch env cfg msgs perr w)))"
    using settle_batch_alone [OF assms(2) subset_refl] assms(1) by blast
  then show ?thesis
    unfolding settles_def
  proof (rule list_all2_mono)
    fix r r' assume r: "settles_row ?f (attempts_of msgs) r r'"
    show "justified_row A r r'"
    proof (cases "r' = r")
      case False
      then obtain m where m: "m \<in> set msgs" "m_ID m = r_id r" and st: "r_status r' = ?f (r_id r)"
        and same: "same_origin r r'"
        using r by (auto simp: settles_row_def attempts_of_def)
      then have "r_status r' = batch_verdict cfg perr m"
        using verdict_of_message [OF assms(3) m(1)] by simp
      then have "own_outcome perr m = None" if "r_status r' = StatusPublished"
        using that by (metis batch_verdict_def verdict_Published_iff)
      then show ?thesis
        using m assms(4) same_origin_id [OF same] unfolding justified_row_def by metis
    qed (simp add: justified_row_def)
  qed
qed

text \<open>A batch that starts in \<open>w\<close> is handed to the publisher, whose answer reports no failure for message \<open>i\<close>.\<close>

definition batch_acknowledged :: "env \<Rightarrow> settings \<Rightarrow> world \<Rightarrow> string \<Rightarrow> bool" where
  "batch_acknowledged env cfg w i \<longleftrightarrow>
     (\<exists>msgs w1 perr lease_err w2 m. claim env cfg w = (Return (Inr msgs), w1) \<and>
        publish env cfg msgs w1 = (Return (perr, lease_err), w2) \<and> m \<in> set msgs \<and> m_ID m = i \<and>
        own_outcome perr m = None)"

lemma batch_acknowledged_answer: "batch_acknowledged env cfg w i \<Longrightarrow> acknowledged env i"
  unfolding batch_acknowledged_def acknowledged_def using publish_answer by blast

lemma processBatch_justified_by:
  assumes "\<And>i. batch_acknowledged env cfg w i \<Longrightarrow> A i"
  shows "justified A env (w_db w) (w_db (snd (processBatch env cfg w)))"
proof -
  show ?thesis
  proof (cases "alone env \<and> returning_ok env \<and> uuid_ok env (w_db w) \<and> distinct (map r_id (d_rows (w_db w)))")
    case True
    note ok = True
    show ?thesis
      unfolding processBatch_def
    proof (rule justified.bind_go_frame [OF claim_justified])
      fix r w1
      assume cl: "claim env cfg w = (Return r, w1)"
      show "justified A env (w_db w1) (w_db (snd ((case r of Inl err \<Rightarrow> ret_go (0, Some err)
        | Inr msgs \<Rightarrow> if msgs = [] then ret_go (0, None)
            else bind_go (publish env cfg msgs) (\<lambda>(perr, lease_err).
              bind_go (case perr of None \<Rightarrow> ret_go False | Some e \<Rightarrow> isFatal env cfg e) (\<lambda>fatal.
                if fatal then ret_go (length msgs, map_option FatalError perr)
                else if lease_err \<noteq> None then ret_go (length msgs, lease_err)
                else bind_go (settle_batch env cfg msgs perr) (\<lambda>err. ret_go (length msgs, err))))) w1)))"
      proof (cases r)
        case (Inr msgs)
        note claimed = claim_run [OF cl [unfolded Inr] conjunct1 [OF ok] _ _]
        have canon: "canonical env msgs" and dist: "distinct (map m_ID msgs)"
          using uuid_ok_claimed [OF _ claimed(2) due_in_table claimed(5)] claimed(3) ok by blast+
        have settled: "justified A env (w_db u) (w_db (snd (settle_batch env cfg msgs perr u)))"
          if "\<forall>m \<in> set msgs. own_outcome perr m = None \<longrightarrow> A (m_ID m)" for perr u
          using settle_batch_justified [OF _ canon dist that] ok by (simp add: justified_def)
        have judge: "within (justified A env) (case perr of None \<Rightarrow> ret_go False | Some e \<Rightarrow> isFatal env cfg e)" for perr
          by (cases perr) (auto intro: justified.within_ret justified.isFatal_within)
        show ?thesis
          unfolding Inr sum.case
        proof (cases "msgs = []", simp add: ret_go_run justified.frame_refl, simp only: if_False,
            rule justified.bind_go_frame [OF publish_justified], clarify,
            rule justified.bind_go_frame [OF judge])
          fix perr lease_err w2 fatal w3
          assume pub: "publish env cfg msgs w1 = (Return (perr, lease_err), w2)"
          have "\<forall>m \<in> set msgs. own_outcome perr m = None \<longrightarrow> A (m_ID m)"
            using assms cl [unfolded Inr] pub unfolding batch_acknowledged_def by blast
          then have "justified A env (w_db w3) (w_db (snd (bind_go (settle_batch env cfg msgs perr)
              (\<lambda>err. ret_go (length msgs, err)) w3)))"
            using settled [of perr w3]
            by (auto simp: bind_go_def ret_go_run split: prod.splits res.splits)
          then show "justified A env (w_db w3) (w_db (snd ((if fatal then ret_go (length msgs, map_option FatalError perr)
                else if lease_err \<noteq> None then ret_go (length msgs, lease_err)
                else bind_go (settle_batch env cfg msgs perr) (\<lambda>err. ret_go (length msgs, err))) w3)))"
            by (simp add: ret_go_run justified.frame_refl)
        qed
      qed (simp add: ret_go_run justified.frame_refl)
    qed
  qed (auto simp: justified_def)
qed

lemma processBatch_justified: "within (justified (acknowledged env) env) (processBatch env cfg)"
  by (rule withinI) (rule processBatch_justified_by [OF batch_acknowledged_answer])

interpretation justified_loops: batch_frame "justified (acknowledged env) env" env cfg for env cfg
  by unfold_locales (rule processBatch_justified)

subsection \<open>The batches of a run\<close>

text \<open>The worlds in which a drain, and the drains of a worker, start their batches.\<close>

fun drain_batches :: "nat \<Rightarrow> env \<Rightarrow> settings \<Rightarrow> world \<Rightarrow> world list" where
  "drain_batches 0 env cfg w = []"
| "drain_batches (Suc fuel) env cfg w =
     (case ctx_done env w of
        (Return False, w1) \<Rightarrow>
          w1 # (case processBatch env cfg w1 of
                  (Return (n, None), w2) \<Rightarrow> if n = 0 then [] else drain_batches fuel env cfg w2
                | _ \<Rightarrow> [])
      | _ \<Rightarrow> [])"

fun worker_batches :: "nat \<Rightarrow> env \<Rightarrow> settings \<Rightarrow> wakeup list \<Rightarrow> world \<Rightarrow> world list" where
  "worker_batches fuel env cfg [] w = []"
| "worker_batches fuel env cfg (WakeDone # _) w = []"
| "worker_batches fuel env cfg (_ # ws) w =
     drain_batches fuel env cfg w @
     (case drain fuel env cfg w of
        (Return (Done None), w') \<Rightarrow> worker_batches fuel env cfg ws w'
      | _ \<Rightarrow> [])"

lemma drain_justified_by:
  assumes "\<forall>w1 \<in> set (drain_batches fuel env cfg w). \<forall>i. batch_acknowledged env cfg w1 i \<longrightarrow> A i"
  shows "justified A env (w_db w) (w_db (snd (drain fuel env cfg w)))"
  using assms
proof (induction fuel arbitrary: w)
  case (Suc fuel)
  let ?w1 = "w\<lparr>w_tick := Suc (w_tick w)\<rparr>"
  have ctx: "ctx_done env w = (Return (e_done env (w_tick w)), ?w1)"
    by (simp add: ctx_done_def take_tick_def bind_go_def ret_go_run)
  show ?case
  proof (cases "e_done env (w_tick w)")
    case True
    then show ?thesis by (simp add: bind_go_def ctx ret_go_run justified.frame_refl)
  next
    case False
    obtain r w2 where pb: "processBatch env cfg ?w1 = (r, w2)" by fastforce
    have "?w1 \<in> set (drain_batches (Suc fuel) env cfg w)" by (simp add: ctx False)
    then have one: "justified A env (w_db w) (w_db w2)"
      using processBatch_justified_by [of env cfg ?w1 A] Suc.prems pb by simp
    show ?thesis
    proof (cases r)
      case (Return ne)
      obtain n err where ne: "ne = (n, err)" by fastforce
      show ?thesis
      proof (cases err)
        case None
        show ?thesis
        proof (cases "n = 0")
          case True
          then show ?thesis using one by (simp add: bind_go_def ctx False pb Return ne None ret_go_run)
        next
          case more: False
          have "set (drain_batches fuel env cfg w2) \<subseteq> set (drain_batches (Suc fuel) env cfg w)"
            by (auto simp: ctx False pb Return ne None more)
          then have "justified A env (w_db w2) (w_db (snd (drain fuel env cfg w2)))"
            using Suc.IH Suc.prems by blast
          then show ?thesis
            using one justified.frame_trans
            by (simp add: bind_go_def ctx False pb Return ne None more; blast)
        qed
      next
        case (Some e)
        have "justified A env (w_db w2) (w_db (snd (bind_go (batch_failed env cfg e) (\<lambda>r. ret_go (Done r)) w2)))"
          by (rule withinD) (intro justified.within_bind justified.batch_failed_within justified.within_ret)
        then show ?thesis
          using one justified.frame_trans by (simp add: bind_go_def ctx False pb Return ne Some; blast)
      qed
    qed (use one in \<open>simp add: bind_go_def ctx False pb\<close>)
  qed
qed (simp add: ret_go_run justified.frame_refl)

lemma worker_justified_by:
  assumes "\<forall>w1 \<in> set (worker_batches fuel env cfg ws w). \<forall>i. batch_acknowledged env cfg w1 i \<longrightarrow> A i"
  shows "justified A env (w_db w) (w_db (snd (worker fuel env cfg ws w)))"
  using assms
proof (induction ws arbitrary: w)
  case (Cons x ws)
  show ?case
  proof (cases "x = WakeDone")
    case False
    have batches: "worker_batches fuel env cfg (x # ws) w = drain_batches fuel env cfg w @
        (case drain fuel env cfg w of (Return (Done None), w') \<Rightarrow> worker_batches fuel env cfg ws w' | _ \<Rightarrow> [])"
      and run: "worker fuel env cfg (x # ws) = bind_go (drain fuel env cfg) (\<lambda>r.
        case r of Running \<Rightarrow> ret_go Running | Done (Some e) \<Rightarrow> ret_go (Done (Some e))
        | Done None \<Rightarrow> worker fuel env cfg ws)"
      using False by (cases x; simp)+
    obtain r w1 where dr: "drain fuel env cfg w = (r, w1)" by fastforce
    have one: "justified A env (w_db w) (w_db w1)"
      using drain_justified_by [of fuel env cfg w A] Cons.prems unfolding batches dr by auto
    show ?thesis
    proof (cases "r = Return (Done None)")
      case True
      then have "justified A env (w_db w1) (w_db (snd (worker fuel env cfg ws w1)))"
        using Cons.IH [of w1] Cons.prems dr unfolding batches by auto
      then show ?thesis
        using one justified.frame_trans by (simp add: run bind_go_def dr True; blast)
    next
      case other: False
      then show ?thesis
        using one by (cases r) (auto simp: run bind_go_def dr ret_go_run split: run.splits option.splits)
    qed
  qed (simp add: ret_go_run justified.frame_refl)
qed (simp add: ret_go_run justified.frame_refl)

text \<open>A row becomes published only by a batch of the run whose publisher took the row's message.\<close>

lemma published_row_batch:
  assumes "alone env" and "returning_ok env" and "uuid_ok env (w_db w)"
    and "distinct (map r_id (d_rows (w_db w)))"
    and "r' \<in> set (d_rows (w_db (snd (worker_goroutine fuel env cfg ws w))))"
    and "r_status r' = StatusPublished"
  shows "(\<exists>r \<in> set (d_rows (w_db w)). r_id r = r_id r' \<and> r_status r = StatusPublished) \<or>
    (\<exists>w1 \<in> set (worker_batches fuel env cfg ws w). batch_acknowledged env cfg w1 (r_id r'))"
proof -
  let ?A = "\<lambda>i. \<exists>w1 \<in> set (worker_batches fuel env cfg ws w). batch_acknowledged env cfg w1 i"
  have "justified ?A env (w_db w) (w_db (snd (worker_goroutine fuel env cfg ws w)))"
    using worker_justified_by [of fuel env cfg ws w ?A]
    by (cases "worker fuel env cfg ws w")
      (auto simp: worker_goroutine_def recovered_run_def split: res.splits)
  then have "list_all2 (justified_row ?A) (d_rows (w_db w)) (d_rows (w_db (snd (worker_goroutine fuel env cfg ws w))))"
    using assms(1-4) by (simp add: justified_def)
  from list_all2_in_set2 [OF this assms(5)] show ?thesis
    using assms(6) by (auto simp: justified_row_def)
qed

section \<open>The fence\<close>

text \<open>
  Messages of attempts that have left the table: completing them changes nothing, reports
  nothing to the hooks and returns \<open>ErrLeaseLost\<close>.
\<close>

definition stale :: "database \<Rightarrow> message list \<Rightarrow> bool" where
  "stale d msgs \<longleftrightarrow> (\<forall>m \<in> set msgs. \<not> live d (m_ID m, m_LeaseToken m))"

lemma stale_steps:
  assumes "inj gen" and "db_ok gen d" and "db_steps gen L d d'" and "stale d msgs"
    and "\<forall>m \<in> set msgs. issued gen d (m_LeaseToken m)"
  shows "stale d' msgs \<and> (\<forall>m \<in> set msgs. issued gen d' (m_LeaseToken m)) \<and> db_ok gen d'"
proof (cases "msgs = []")
  case True
  then show ?thesis using db_steps_ok assms(1-3) by (auto simp: stale_def)
next
  case False
  then show ?thesis
    using dead_attempt_steps [OF assms(1,3,2), of "(m_ID m, m_LeaseToken m)" for m] assms(4,5)
    unfolding stale_def by (metis fst_conv last_in_set snd_conv)
qed

text \<open>The database takes the error text a completion records.\<close>

definition recordable_text :: "env \<Rightarrow> goerr option \<Rightarrow> bool" where
  "recordable_text env cause \<longleftrightarrow>
     arg_ok (e_text_ok env) (nullStr (case cause of None \<Rightarrow> '''' | Some e \<Rightarrow> error_text e))"

lemma recordable_text_None [simp]: "recordable_text env None"
  by (simp add: recordable_text_def nullStr_def)

lemma stale_complete:
  assumes "msgs \<noteq> []" and "canonical env msgs" and "returning_ok env"
    and "stale (e_others env (w_tick w) (w_db w)) msgs" and "e_call env (w_tick w) = CallOk"
  shows "complete env cfg msgs st cause delay w =
    (Return (Some (if recordable_text env cause then ErrLeaseLost else e_sql_error env)),
     w\<lparr>w_tick := Suc (w_tick w), w_db := e_others env (w_tick w) (w_db w)\<rparr>)"
proof -
  let ?d = "e_others env (w_tick w) (w_db w)"
  have "\<forall>key \<in> set (map (\<lambda>m. (m_ID m, m_LeaseToken m)) msgs). \<not> live ?d key"
    using assms(4) by (auto simp: stale_def)
  from finish_not_live [OF this]
  have "finish_stmt env msgs st reason delay clear (w_tick w) ?d =
      (if arg_ok (e_text_ok env) (nullStr reason) then Inr (scanMessages (e_returning env (w_tick w) []))
       else Inl (e_sql_error env), ?d)" for reason clear
    by (simp add: finish_stmt_def bind_keys_canonical [OF assms(2)])
  moreover have "e_returning env (w_tick w) [] = []"
    using returning_length [OF assms(3), of "w_tick w" "[]"] by simp
  ultimately show ?thesis
    using assms(1,5)
    by (simp add: complete_def recordable_text_def Store_finish_def exec_call_def bind_go_def ret_go_run scanMessages_def Let_def)
qed

lemma stale_renew:
  assumes "msgs \<noteq> []" and "canonical env msgs"
    and "stale (e_others env (w_tick w) (w_db w)) msgs" and "e_call env (w_tick w) = CallOk"
  shows "renew env msgs duration w =
    (Return (Some ErrLeaseLost),
     w\<lparr>w_tick := Suc (w_tick w), w_db := e_others env (w_tick w) (w_db w)\<rparr>)"
proof -
  let ?d = "e_others env (w_tick w) (w_db w)"
  have "\<forall>key \<in> set (map (\<lambda>m. (m_ID m, m_LeaseToken m)) msgs). \<not> live ?d key"
    using assms(3) by (auto simp: stale_def)
  from renew_not_live [OF this]
  have "renew_stmt env msgs duration (w_tick w) ?d = (Inr 0, ?d)"
    by (simp add: renew_stmt_def bind_keys_canonical [OF assms(2)])
  then show ?thesis
    using assms(1,4) by (simp add: renew_def exec_call_def bind_go_def ret_go_run Let_def)
qed

section \<open>Fatal errors and lost leases\<close>

text \<open>The two ways a batch is left claimed: nothing is completed and no outcome is reported.\<close>

lemma abort_batch:
  assumes "claim env cfg w = (Return (Inr msgs), w1)" and "msgs \<noteq> []"
    and "publish env cfg msgs w1 = (Return (Some e, lease_err), w2)"
    and "has_as is_abort e \<or> has_as is_panic e"
  shows "processBatch env cfg w = (Return (length msgs, Some (FatalError e)), w2)"
  using assms by (auto simp: processBatch_def bind_go_def ret_go_run isFatal_def)

lemma lease_lost_batch:
  assumes "claim env cfg w = (Return (Inr msgs), w1)" and "msgs \<noteq> []"
    and "publish env cfg msgs w1 = (Return (perr, Some le), w2)"
    and "(case perr of None \<Rightarrow> Return False | Some e \<Rightarrow> fst (isFatal env cfg e w2)) = Return fatal"
  shows "\<exists>w'. processBatch env cfg w =
      (Return (length msgs, Some (if fatal then FatalError (the perr) else le)), w') \<and>
    w_db w' = w_db w2 \<and> w_log w' = w_log w2"
proof (cases perr)
  case None
  then show ?thesis
    using assms by (auto simp: processBatch_def bind_go_def ret_go_run)
next
  case (Some e)
  obtain w3 where f: "isFatal env cfg e w2 = (Return fatal, w3)"
    using assms(4) Some by (metis option.simps(5) prod.collapse)
  then show ?thesis
    using assms(1-3) Some isFatal_unmoved [OF f] by (auto simp: processBatch_def bind_go_def ret_go_run)
qed

lemma publish_no_outcome:
  assumes "publish env cfg msgs w = (r, w')"
  shows "outcomes_of (w_log w') = outcomes_of (w_log w)"
proof -
  obtain evs where log: "w_log w' = w_log w @ EvPublish msgs # evs"
    and evs: "list_all (\<lambda>ev. ev = EvCancelPublish) evs"
    using publish_log [OF assms] by blast
  from evs have "outcomes_of evs = []" by (induction evs) auto
  then show ?thesis using log by simp
qed

section \<open>Hooks\<close>

text \<open>Hooks that do not panic, the default ones among them.\<close>

definition calm_hooks :: "env \<Rightarrow> settings \<Rightarrow> bool" where
  "calm_hooks env cfg \<longleftrightarrow> s_Hooks cfg \<noteq> None \<and> (\<forall>n. e_hook env n = None)"

lemma call_hook_calm:
  assumes "calm_hooks env cfg"
  shows "\<exists>w'. call_hook env cfg ev w = (Return (), w') \<and> w_db w' = w_db w \<and> w_log w' = w_log w @ [ev]"
  using assms by (auto simp: calm_hooks_def call_hook_def bind_go_def ret_go_run split: hooks.splits)

lemma for_each_hook_calm:
  assumes "calm_hooks env cfg"
  shows "\<exists>ys w'. for_each (\<lambda>m. call_hook env cfg (ev m)) ms w = (Return ys, w') \<and> w_db w' = w_db w \<and>
    w_log w' = w_log w @ map ev ms"
proof (induction ms arbitrary: w)
  case (Cons m ms)
  from call_hook_calm [OF assms] obtain w1 where
    1: "call_hook env cfg (ev m) w = (Return (), w1)" "w_db w1 = w_db w" "w_log w1 = w_log w @ [ev m]"
    by blast
  from Cons.IH obtain ys w2 where
    "for_each (\<lambda>m. call_hook env cfg (ev m)) ms w1 = (Return ys, w2)" "w_db w2 = w_db w1"
    "w_log w2 = w_log w1 @ map ev ms"
    by blast
  then show ?case using 1 by (simp add: bind_go_def ret_go_run)
qed (simp add: ret_go_run)

text \<open>What the hooks are told for rows completed with a status.\<close>

definition told :: "settings \<Rightarrow> status \<Rightarrow> message list \<Rightarrow> (status \<times> message) list" where
  "told cfg st ms =
     (if st = StatusDiscarded \<and> \<not> (case s_Hooks cfg of Some h \<Rightarrow> implements_discard h | None \<Rightarrow> False)
      then [] else map (Pair st) ms)"

lemma outcomes_of_map: "(\<And>m. ev_outcome (ev m) = [(st, m)]) \<Longrightarrow> outcomes_of (map ev ms) = map (Pair st) ms"
  by (induction ms) auto

lemma outcome_hooks_told:
  assumes "calm_hooks env cfg" and "st \<noteq> StatusProcessing"
  shows "\<exists>w'. outcome_hooks env cfg st ms cause w = (Return (), w') \<and> w_db w' = w_db w \<and>
    outcomes_of (w_log w') = outcomes_of (w_log w) @ told cfg st ms"
proof -
  note one = call_hook_calm [OF assms(1), of _ w] and each = for_each_hook_calm [OF assms(1), of _ ms w]
  obtain h where h: "s_Hooks cfg = Some h" using assms(1) by (auto simp: calm_hooks_def)
  show ?thesis
  proof (cases st)
    case StatusPublished
    then show ?thesis using one [of "EvOnPublished ms"] by (auto simp: outcome_hooks_def told_def)
  next
    case StatusDiscarded
    then show ?thesis
      using one [of "EvOnDiscarded ms cause"] h by (auto simp: outcome_hooks_def told_def ret_go_run)
  next
    case StatusDead
    then show ?thesis
      using each [of EvOnDead]
      by (auto simp: outcome_hooks_def told_def bind_go_def ret_go_run outcomes_of_map [of EvOnDead])
  next
    case StatusPending
    then show ?thesis
      using each [of "\<lambda>m. EvOnFailed m cause"]
      by (auto simp: outcome_hooks_def told_def bind_go_def ret_go_run
          outcomes_of_map [of "\<lambda>m. EvOnFailed m cause"])
  qed (use assms(2) in simp)
qed

lemma complete_told:
  assumes "calm_hooks env cfg" and "st \<noteq> StatusProcessing"
    and "Store_finish env msgs st (case cause of None \<Rightarrow> '''' | Some e \<Rightarrow> error_text e) delay
      (s_ClearPayloadOnComplete cfg) w = (Return (Inr completed), w1)"
  shows "\<exists>w'. complete env cfg msgs st cause delay w =
      (Return (if length completed = length msgs then None else Some ErrLeaseLost), w') \<and>
    w_db w' = w_db w1 \<and> outcomes_of (w_log w') = outcomes_of (w_log w) @ told cfg st completed"
proof -
  have log: "w_log w1 = w_log w"
    using assms(3) by (auto simp: Store_finish_def dest: exec_call_InrD ret_go_ReturnD split: if_splits)
  show ?thesis
  proof (cases "completed = []")
    case True
    then show ?thesis
      using assms(3) log by (auto simp: complete_def Let_def bind_go_def ret_go_run told_def)
  next
    case False
    from outcome_hooks_told [OF assms(1,2)] obtain w2 where
      "outcome_hooks env cfg st completed cause w1 = (Return (), w2)" "w_db w2 = w_db w1"
      "outcomes_of (w_log w2) = outcomes_of (w_log w1) @ told cfg st completed"
      by blast
    then show ?thesis
      using assms(3) log False by (auto simp: complete_def Let_def bind_go_def ret_go_run)
  qed
qed

end
