(* ===== verification/Publishers.thy ===== *)
theory Publishers
  imports Message
begin

text \<open>
  The contract of the transport publishers under \<^verbatim>\<open>contrib/publishers/\<close>: a batch is mapped to
  transport messages, which are handed over in batch order, and nil is returned only when all of
  them have been. A publisher is modelled as the function from the moment of the call and a batch to the
  messages handed over and the returned error. The transport client is a parameter whose answer
  depends on the moment too, so that a call may fail once and succeed when it is repeated; a mapper
  is a function of the message.
\<close>

section \<open>The contract\<close>

locale batch_publisher =
  fixes mapper :: "message \<Rightarrow> goerr + 'c" and deliver :: "nat \<Rightarrow> message list \<Rightarrow> 'c list \<times> goerr option"
  assumes prefix: "map Inr (fst (deliver t ms)) = map mapper (take (length (fst (deliver t ms))) ms)"
    and complete: "snd (deliver t ms) = None \<Longrightarrow> length (fst (deliver t ms)) = length ms"
begin

lemma nil_means_all: "snd (deliver t ms) = None \<Longrightarrow> map mapper ms = map Inr (fst (deliver t ms))"
  using prefix [of t ms] complete [of t ms] by simp

lemma nil_handed_over:
  assumes "snd (deliver t ms) = None" and "m \<in> set ms"
  shows "\<exists>c \<in> set (fst (deliver t ms)). mapper m = Inr c"
proof -
  have "mapper m \<in> set (map mapper ms)" using assms(2) by simp
  then show ?thesis unfolding nil_means_all [OF assms(1)] by auto
qed

lemma sent_at_most: "length (fst (deliver t ms)) \<le> length ms"
  using arg_cong [OF prefix [of t ms], of length] by simp

end

section \<open>Sending one by one\<close>

text \<open>
  The loop of the publishers that send message by message: it stops at the first mapping or
  transport error. The client's answer may depend on the number of the call.
\<close>

fun send_each ::
  "(message \<Rightarrow> goerr + 'c) \<Rightarrow> (nat \<Rightarrow> 'c \<Rightarrow> goerr option) \<Rightarrow> nat \<Rightarrow> message list \<Rightarrow> 'c list \<times> goerr option" where
  "send_each mapper send k [] = ([], None)"
| "send_each mapper send k (m # ms) =
     (case mapper m of
        Inl err \<Rightarrow> ([], Some err)
      | Inr c \<Rightarrow>
          (case send k c of
             Some err \<Rightarrow> ([c], Some err)
           | None \<Rightarrow> (let (cs, r) = send_each mapper send (Suc k) ms in (c # cs, r))))"

lemma send_each_prefix:
  "map Inr (fst (send_each mapper send k ms)) = map mapper (take (length (fst (send_each mapper send k ms))) ms)"
  by (induction ms arbitrary: k) (auto split: sum.splits option.splits simp: Let_def case_prod_beta)

lemma send_each_complete:
  "snd (send_each mapper send k ms) = None \<Longrightarrow> length (fst (send_each mapper send k ms)) = length ms"
  by (induction ms arbitrary: k) (auto split: sum.splits option.splits simp: Let_def case_prod_beta)

text \<open>What stopped it: the mapper on the next message, or the transport on the last one handed over.\<close>

lemma send_each_error:
  assumes "send_each mapper send k ms = (cs, Some e)"
  shows "(\<exists>m. length cs < length ms \<and> m = ms ! length cs \<and> mapper m = Inl e) \<or>
    (cs \<noteq> [] \<and> send (k + length cs - 1) (last cs) = Some e)"
  using assms
proof (induction ms arbitrary: k cs)
  case (Cons m ms)
  show ?case
  proof (cases "mapper m")
    case (Inr c)
    show ?thesis
    proof (cases "send k c")
      case None
      obtain ds r where rec: "send_each mapper send (Suc k) ms = (ds, r)" by fastforce
      then have "cs = c # ds" "r = Some e" using Cons.prems Inr None by auto
      then show ?thesis using Cons.IH [of "Suc k" ds] rec by auto
    qed (use Cons.prems Inr in auto)
  qed (use Cons.prems in auto)
qed simp

text \<open>The mapping loop of a publisher that sends the batch in one call.\<close>

fun map_each :: "(message \<Rightarrow> goerr + 'c) \<Rightarrow> message list \<Rightarrow> goerr + 'c list" where
  "map_each mapper [] = Inr []"
| "map_each mapper (m # ms) =
     (case mapper m of
        Inl err \<Rightarrow> Inl err
      | Inr c \<Rightarrow> (case map_each mapper ms of Inl err \<Rightarrow> Inl err | Inr cs \<Rightarrow> Inr (c # cs)))"

lemma map_each_Inr_iff: "map_each mapper ms = Inr cs \<longleftrightarrow> map mapper ms = map Inr cs"
proof (induction ms arbitrary: cs)
  case (Cons m ms)
  show ?case
  proof (cases "map_each mapper ms")
    case (Inl e)
    then have "map mapper ms \<noteq> map Inr zs" for zs using Cons.IH [of zs] by simp
    then show ?thesis using Inl by (auto split: sum.splits)
  next
    case (Inr zs)
    then have "map mapper ms = map Inr zs" using Cons.IH [of zs] by simp
    moreover have "map Inr zs = map Inr ws \<longleftrightarrow> zs = ws" for ws :: "'a list"
      by (rule inj_map_eq_map) (simp add: inj_on_def)
    ultimately show ?thesis using Inr by (cases cs) (auto split: sum.splits)
  qed
qed auto

lemma map_each_total: "(\<And>m. mapper m = Inr (f m)) \<Longrightarrow> map_each mapper ms = Inr (map f ms)"
  by (simp add: map_each_Inr_iff)

end
