(* ===== verification/Kafka.thy ===== *)
theory Kafka
  imports Publishers
begin

text \<open>
  The Kafka publisher of \<^verbatim>\<open>contrib/publishers/kafka/kafka.go\<close>. The \<open>Writer\<close> of kafka-go is a
  parameter: the answer to a \<open>WriteMessages\<close> call, by the moment of the call and its messages.
\<close>

definition kafka_HeaderOutboxID :: string where
  "kafka_HeaderOutboxID = ''pg-outbox-id''"

definition kafka_HeaderContentType :: string where
  "kafka_HeaderContentType = ''content-type''"

definition kafka_HeaderMessageType :: string where
  "kafka_HeaderMessageType = ''message-type''"

text \<open>The fields of kafka-go's \<open>Message\<close> the mapper sets; a header is a pair of key and value.\<close>

record kafka_message =
  km_Topic :: string
  km_Key :: string
  km_Value :: "string option"
  km_Headers :: "(string \<times> string) list"

type_synonym kafka_mapper = "message \<Rightarrow> goerr + kafka_message"

record kafka_publisher =
  kp_writer :: "nat \<Rightarrow> kafka_message list \<Rightarrow> goerr option"
  kp_mapper :: kafka_mapper

definition kafka_appendMetadata :: "(string \<times> string) list \<Rightarrow> message \<Rightarrow> (string \<times> string) list" where
  "kafka_appendMetadata headers m =
     headers
     @ (if m_ID m \<noteq> '''' then [(kafka_HeaderOutboxID, m_ID m)] else [])
     @ (if m_ContentType m \<noteq> '''' then [(kafka_HeaderContentType, m_ContentType m)] else [])
     @ (if m_MessageType m \<noteq> '''' then [(kafka_HeaderMessageType, m_MessageType m)] else [])"

definition kafka_DefaultMapper :: kafka_mapper where
  "kafka_DefaultMapper m =
     Inr \<lparr>km_Topic = m_Topic m, km_Key = m_PartitionKey m, km_Value = m_Payload m,
          km_Headers = kafka_appendMetadata (case m_Headers m of None \<Rightarrow> [] | Some h \<Rightarrow> h) m\<rparr>"

text \<open>Options; a nil mapper leaves the publisher as it is.\<close>

definition kafka_WithMapper :: "kafka_mapper option \<Rightarrow> kafka_publisher \<Rightarrow> kafka_publisher" where
  "kafka_WithMapper f p = (case f of Some g \<Rightarrow> p\<lparr>kp_mapper := g\<rparr> | None \<Rightarrow> p)"

definition kafka_New ::
  "(nat \<Rightarrow> kafka_message list \<Rightarrow> goerr option) \<Rightarrow> (kafka_publisher \<Rightarrow> kafka_publisher) list \<Rightarrow> kafka_publisher" where
  "kafka_New writer opts =
     fold (\<lambda>opt p. opt p) opts \<lparr>kp_writer = writer, kp_mapper = kafka_DefaultMapper\<rparr>"

text \<open>\<open>Publish\<close>: the arguments of the \<open>WriteMessages\<close> calls it makes (none or one), and its result.\<close>

definition kafka_Publish ::
  "kafka_publisher \<Rightarrow> nat \<Rightarrow> message list \<Rightarrow> kafka_message list list \<times> goerr option" where
  "kafka_Publish p t msgs =
     (case map_each (kp_mapper p) msgs of
        Inl err \<Rightarrow> ([], Some err)
      | Inr kmsgs \<Rightarrow> ([kmsgs], kp_writer p t kmsgs))"

text \<open>The messages handed over, over all calls.\<close>

definition kafka_sent :: "kafka_publisher \<Rightarrow> nat \<Rightarrow> message list \<Rightarrow> kafka_message list \<times> goerr option" where
  "kafka_sent p t msgs = (concat (fst (kafka_Publish p t msgs)), snd (kafka_Publish p t msgs))"

lemma kafka_sent_cases:
  "kafka_sent p t msgs =
     (case map_each (kp_mapper p) msgs of Inl err \<Rightarrow> ([], Some err) | Inr ks \<Rightarrow> (ks, kp_writer p t ks))"
  by (simp add: kafka_sent_def kafka_Publish_def split: sum.splits)

interpretation kafka: batch_publisher "kp_mapper p" "kafka_sent p" for p
proof unfold_locales
  fix t ms
  show "map Inr (fst (kafka_sent p t ms)) = map (kp_mapper p) (take (length (fst (kafka_sent p t ms))) ms)"
  proof (cases "map_each (kp_mapper p) ms")
    case (Inr ks)
    then have "map (kp_mapper p) ms = map Inr ks" by (simp add: map_each_Inr_iff)
    then show ?thesis using Inr by (simp add: kafka_sent_cases) (metis length_map take_all order_refl)
  qed (simp add: kafka_sent_cases)
  show "length (fst (kafka_sent p t ms)) = length ms" if "snd (kafka_sent p t ms) = None"
  proof (cases "map_each (kp_mapper p) ms")
    case (Inr ks)
    then have "map (kp_mapper p) ms = map Inr ks" by (simp add: map_each_Inr_iff)
    then have "length ms = length ks" by (metis length_map)
    then show ?thesis using Inr by (simp add: kafka_sent_cases)
  qed (use that in \<open>simp add: kafka_sent_cases\<close>)
qed

text \<open>
  The default mapping: never an error, everything is carried over, and the last header named
  \<open>pg-outbox-id\<close> is the row id, whatever headers the message brings.
\<close>

lemma kafka_default_batch:
  "kp_mapper p = kafka_DefaultMapper \<Longrightarrow> length (fst (kafka_Publish p t msgs)) = 1"
  by (simp add: kafka_Publish_def kafka_DefaultMapper_def map_each_total [where f = "\<lambda>m. projr (kafka_DefaultMapper m)"]
      split: sum.splits)

lemma kafka_id_last:
  assumes "m_ID m \<noteq> ''''"
  shows "map_of (rev (kafka_appendMetadata headers m)) kafka_HeaderOutboxID = Some (m_ID m)"
  using assms
  by (simp add: kafka_appendMetadata_def kafka_HeaderOutboxID_def kafka_HeaderContentType_def
      kafka_HeaderMessageType_def map_add_def)

end
