(* ===== verification/Nats.thy ===== *)
theory Nats
  imports Publishers
begin

text \<open>
  The NATS publisher of \<^verbatim>\<open>contrib/publishers/nats/nats.go\<close>. The client and the \<open>Header\<close> type of
  nats.go are parameters: the answers to \<open>PublishMsg\<close> (by the moment of the call, the position in the
  batch and the message) and \<open>FlushWithContext\<close>, the empty header and its \<open>Set\<close> method.
\<close>

definition nats_HeaderOutboxID :: string where
  "nats_HeaderOutboxID = ''pg-outbox-id''"

definition nats_HeaderContentType :: string where
  "nats_HeaderContentType = ''content-type''"

definition nats_HeaderMessageType :: string where
  "nats_HeaderMessageType = ''message-type''"

definition nats_HeaderPartitionKey :: string where
  "nats_HeaderPartitionKey = ''partition-key''"

record 'h nats_message =
  nm_Subject :: string
  nm_Data :: "string option"
  nm_Header :: 'h

type_synonym 'h nats_mapper = "message \<Rightarrow> goerr + 'h nats_message"

record 'h nats_publisher =
  np_PublishMsg :: "nat \<Rightarrow> nat \<Rightarrow> 'h nats_message \<Rightarrow> goerr option"
  np_Flush :: "nat \<Rightarrow> goerr option"
  np_mapper :: "'h nats_mapper"
  np_flush :: bool

definition nats_setMetadata :: "('h \<Rightarrow> string \<Rightarrow> string \<Rightarrow> 'h) \<Rightarrow> 'h \<Rightarrow> message \<Rightarrow> 'h" where
  "nats_setMetadata hset h m =
     (let h = (if m_ID m \<noteq> '''' then hset h nats_HeaderOutboxID (m_ID m) else h);
          h = (if m_ContentType m \<noteq> '''' then hset h nats_HeaderContentType (m_ContentType m) else h);
          h = (if m_MessageType m \<noteq> '''' then hset h nats_HeaderMessageType (m_MessageType m) else h)
      in if m_PartitionKey m \<noteq> '''' then hset h nats_HeaderPartitionKey (m_PartitionKey m) else h)"

definition nats_DefaultMapper :: "('h \<Rightarrow> string \<Rightarrow> string \<Rightarrow> 'h) \<Rightarrow> 'h \<Rightarrow> 'h nats_mapper" where
  "nats_DefaultMapper hset hempty m =
     Inr \<lparr>nm_Subject = m_Topic m, nm_Data = m_Payload m,
          nm_Header = nats_setMetadata hset
            (fold (\<lambda>(k, v) h. hset h k v) (case m_Headers m of None \<Rightarrow> [] | Some hs \<Rightarrow> hs) hempty) m\<rparr>"

definition nats_WithMapper :: "'h nats_mapper option \<Rightarrow> 'h nats_publisher \<Rightarrow> 'h nats_publisher" where
  "nats_WithMapper f p = (case f of Some g \<Rightarrow> p\<lparr>np_mapper := g\<rparr> | None \<Rightarrow> p)"

definition nats_WithoutFlush :: "'h nats_publisher \<Rightarrow> 'h nats_publisher" where
  "nats_WithoutFlush p = p\<lparr>np_flush := False\<rparr>"

definition nats_New ::
  "('h \<Rightarrow> string \<Rightarrow> string \<Rightarrow> 'h) \<Rightarrow> 'h \<Rightarrow> (nat \<Rightarrow> nat \<Rightarrow> 'h nats_message \<Rightarrow> goerr option) \<Rightarrow>
     (nat \<Rightarrow> goerr option) \<Rightarrow>
     ('h nats_publisher \<Rightarrow> 'h nats_publisher) list \<Rightarrow> 'h nats_publisher" where
  "nats_New hset hempty publish_msg flush opts =
     fold (\<lambda>opt p. opt p) opts
       \<lparr>np_PublishMsg = publish_msg, np_Flush = flush, np_mapper = nats_DefaultMapper hset hempty,
        np_flush = True\<rparr>"

text \<open>
  \<open>Publish\<close>: the messages passed to \<open>PublishMsg\<close>, whether \<open>FlushWithContext\<close> was called, and
  the result.
\<close>

definition nats_Publish ::
  "'h nats_publisher \<Rightarrow> nat \<Rightarrow> message list \<Rightarrow> 'h nats_message list \<times> bool \<times> goerr option" where
  "nats_Publish p t msgs =
     (case send_each (np_mapper p) (np_PublishMsg p t) 0 msgs of
        (sent, Some err) \<Rightarrow> (sent, False, Some err)
      | (sent, None) \<Rightarrow> if np_flush p then (sent, True, np_Flush p t) else (sent, False, None))"

definition nats_sent :: "'h nats_publisher \<Rightarrow> nat \<Rightarrow> message list \<Rightarrow> 'h nats_message list \<times> goerr option" where
  "nats_sent p t msgs = (fst (nats_Publish p t msgs), snd (snd (nats_Publish p t msgs)))"

interpretation nats: batch_publisher "np_mapper p" "nats_sent p" for p
proof unfold_locales
  fix t ms
  have "fst (nats_sent p t ms) = fst (send_each (np_mapper p) (np_PublishMsg p t) 0 ms)"
    by (auto simp: nats_sent_def nats_Publish_def split: prod.splits option.splits)
  then show "map Inr (fst (nats_sent p t ms)) = map (np_mapper p) (take (length (fst (nats_sent p t ms))) ms)"
    using send_each_prefix by metis
  show "length (fst (nats_sent p t ms)) = length ms" if "snd (nats_sent p t ms) = None"
    using that send_each_complete [of "np_mapper p" "np_PublishMsg p t" 0 ms]
    by (auto simp: nats_sent_def nats_Publish_def split: prod.splits option.splits if_splits)
qed

text \<open>A flushing publisher returns nil only after the flush has confirmed the batch.\<close>

lemma nats_flushed:
  assumes "np_flush p" and "snd (snd (nats_Publish p t msgs)) = None"
  shows "fst (snd (nats_Publish p t msgs)) \<and> np_Flush p t = None"
  using assms by (auto simp: nats_Publish_def split: prod.splits option.splits)

text \<open>
  The reserved headers win over headers of the same name the message brings. The law of \<open>Set\<close>
  is the one documented for nats.go: it replaces the values of the key and no others.
\<close>

definition header_law :: "('h \<Rightarrow> string \<Rightarrow> string \<Rightarrow> 'h) \<Rightarrow> ('h \<Rightarrow> string \<Rightarrow> string option) \<Rightarrow> bool" where
  "header_law hset hget \<longleftrightarrow> (\<forall>h k v j. hget (hset h k v) j = (if j = k then Some v else hget h j))"

lemma nats_reserved:
  assumes "header_law hset hget"
  shows "m_ID m \<noteq> '''' \<Longrightarrow> hget (nats_setMetadata hset h m) nats_HeaderOutboxID = Some (m_ID m)"
    and "m_ContentType m \<noteq> '''' \<Longrightarrow>
      hget (nats_setMetadata hset h m) nats_HeaderContentType = Some (m_ContentType m)"
    and "m_MessageType m \<noteq> '''' \<Longrightarrow>
      hget (nats_setMetadata hset h m) nats_HeaderMessageType = Some (m_MessageType m)"
    and "m_PartitionKey m \<noteq> '''' \<Longrightarrow>
      hget (nats_setMetadata hset h m) nats_HeaderPartitionKey = Some (m_PartitionKey m)"
  using assms
  by (simp_all add: nats_setMetadata_def Let_def header_law_def nats_HeaderOutboxID_def
      nats_HeaderContentType_def nats_HeaderMessageType_def nats_HeaderPartitionKey_def)

text \<open>Other headers reach the wire as the message has them.\<close>

lemma nats_other_headers:
  assumes "header_law hset hget" and "distinct (map fst hs)" and "(k, v) \<in> set hs"
    and "k \<notin> {nats_HeaderOutboxID, nats_HeaderContentType, nats_HeaderMessageType, nats_HeaderPartitionKey}"
  shows "hget (nats_setMetadata hset (fold (\<lambda>(k, v) h. hset h k v) hs h0) m) k = Some v"
proof -
  have keep: "hget (fold (\<lambda>(k, v) h. hset h k v) xs h) j = hget h j" if "j \<notin> fst ` set xs" for xs h j
    using that assms(1) by (induction xs arbitrary: h) (auto simp: header_law_def)
  have "hget (fold (\<lambda>(k, v) h. hset h k v) hs h0) k = Some v"
    using assms(2,3)
  proof (induction hs arbitrary: h0)
    case (Cons p hs)
    then show ?case
    proof (cases "p = (k, v)")
      case True
      have "hget (fold (\<lambda>(k, v) h. hset h k v) hs (hset h0 k v)) k = hget (hset h0 k v) k"
        using Cons.prems(1) True by (intro keep) simp
      then show ?thesis using True assms(1) by (simp add: header_law_def)
    qed auto
  qed simp
  then show ?thesis
    using assms(1,4) by (simp add: nats_setMetadata_def Let_def header_law_def)
qed

section \<open>Properties\<close>

text \<open>With the default mapper every NATS message carries the outbox metadata under the reserved
  header names, whatever headers the message brings, and all its other headers unchanged; the
  only assumption is the documented law of the header's \<open>Set\<close>.\<close>

theorem nats_headers:
  assumes "header_law hset hget" and "nats_DefaultMapper hset hempty m = Inr msg"
    and "m_Headers m = Some hs" and "distinct (map fst hs)"
  shows "nm_Subject msg = m_Topic m \<and> nm_Data msg = m_Payload m \<and>
    (m_ID m \<noteq> '''' \<longrightarrow> hget (nm_Header msg) nats_HeaderOutboxID = Some (m_ID m)) \<and>
    (m_ContentType m \<noteq> '''' \<longrightarrow> hget (nm_Header msg) nats_HeaderContentType = Some (m_ContentType m)) \<and>
    (m_MessageType m \<noteq> '''' \<longrightarrow> hget (nm_Header msg) nats_HeaderMessageType = Some (m_MessageType m)) \<and>
    (m_PartitionKey m \<noteq> '''' \<longrightarrow> hget (nm_Header msg) nats_HeaderPartitionKey = Some (m_PartitionKey m)) \<and>
    (\<forall>(k, v) \<in> set hs. k \<notin> {nats_HeaderOutboxID, nats_HeaderContentType, nats_HeaderMessageType,
       nats_HeaderPartitionKey} \<longrightarrow> hget (nm_Header msg) k = Some v)"
proof -
  let ?h = "fold (\<lambda>(k, v) h. hset h k v) hs hempty"
  have msg: "msg = \<lparr>nm_Subject = m_Topic m, nm_Data = m_Payload m, nm_Header = nats_setMetadata hset ?h m\<rparr>"
    using assms(2,3) by (simp add: nats_DefaultMapper_def)
  show ?thesis
    unfolding msg nats_message.simps
    using nats_reserved [OF assms(1), of m ?h] nats_other_headers [OF assms(1,4)] by blast
qed

theorem nats_headers_witness:
  "\<exists>msg. nats_DefaultMapper (\<lambda>h k v. (k, v) # h) []
      (undefined\<lparr>m_ID := ''i'', m_Headers := Some [(''pg-outbox-id'', ''x''), (''a'', ''b'')]\<rparr>) = Inr msg \<and>
    map_of (nm_Header msg) ''pg-outbox-id'' = Some ''i'' \<and> map_of (nm_Header msg) ''a'' = Some ''b''"
proof -
  let ?set = "\<lambda>h k v. (k, v) # h" and ?hs = "[(''pg-outbox-id'', ''x''), (''a'', ''b'')]"
  let ?m = "undefined\<lparr>m_ID := ''i'', m_Headers := Some ?hs\<rparr> :: message"
  obtain msg where msg: "nats_DefaultMapper ?set [] ?m = Inr msg" by (simp add: nats_DefaultMapper_def)
  have "header_law ?set map_of" by (simp add: header_law_def)
  from nats_headers [OF this msg] show ?thesis
    using msg by (auto simp: nats_HeaderOutboxID_def nats_HeaderContentType_def
        nats_HeaderMessageType_def nats_HeaderPartitionKey_def)
qed

end
