(* ===== verification/Valkey.thy ===== *)
theory Valkey
  imports Publishers "HOL-Library.Word"
begin

text \<open>
  The Valkey publishers of \<^verbatim>\<open>contrib/publishers/valkey/valkey.go\<close>: Pub/Sub and Streams. The client
  is a parameter that answers the \<open>k\<close>-th command of a batch, by the moment of the call; a command is the arguments the code gives
  the builder.
\<close>

section \<open>Pub/Sub\<close>

type_synonym pubsub_mapper = "message \<Rightarrow> goerr + (string \<times> string)"

record pubsub_publisher =
  ps_Do :: "nat \<Rightarrow> nat \<Rightarrow> string \<times> string \<Rightarrow> goerr option"
  ps_mapper :: pubsub_mapper

text \<open>\<open>string(b)\<close> of a byte slice; nil is the empty string.\<close>

definition bytes_string :: "string option \<Rightarrow> string" where
  "bytes_string b = (case b of None \<Rightarrow> '''' | Some s \<Rightarrow> s)"

definition DefaultPubSubMapper :: pubsub_mapper where
  "DefaultPubSubMapper m = Inr (m_Topic m, bytes_string (m_Payload m))"

definition WithPubSubMapper :: "pubsub_mapper option \<Rightarrow> pubsub_publisher \<Rightarrow> pubsub_publisher" where
  "WithPubSubMapper f p = (case f of Some g \<Rightarrow> p\<lparr>ps_mapper := g\<rparr> | None \<Rightarrow> p)"

definition NewPubSub ::
  "(nat \<Rightarrow> nat \<Rightarrow> string \<times> string \<Rightarrow> goerr option) \<Rightarrow> (pubsub_publisher \<Rightarrow> pubsub_publisher) list \<Rightarrow> pubsub_publisher" where
  "NewPubSub client opts =
     fold (\<lambda>opt p. opt p) opts \<lparr>ps_Do = client, ps_mapper = DefaultPubSubMapper\<rparr>"

definition pubsub_Publish :: "pubsub_publisher \<Rightarrow> nat \<Rightarrow> message list \<Rightarrow> (string \<times> string) list \<times> goerr option" where
  "pubsub_Publish p t msgs = send_each (ps_mapper p) (ps_Do p t) 0 msgs"

interpretation pubsub: batch_publisher "ps_mapper p" "pubsub_Publish p" for p
  by unfold_locales (auto simp: pubsub_Publish_def send_each_prefix send_each_complete)

section \<open>Streams\<close>

definition StreamFieldPayload :: string where
  "StreamFieldPayload = ''payload''"

definition StreamFieldOutboxID :: string where
  "StreamFieldOutboxID = ''pg_outbox_id''"

definition StreamFieldPartitionKey :: string where
  "StreamFieldPartitionKey = ''partition_key''"

definition StreamFieldContentType :: string where
  "StreamFieldContentType = ''content_type''"

definition StreamFieldMessageType :: string where
  "StreamFieldMessageType = ''message_type''"

definition StreamFieldCreatedAtUnixNano :: string where
  "StreamFieldCreatedAtUnixNano = ''created_at_unix_nano''"

definition streamHeaderPrefix :: string where
  "streamHeaderPrefix = ''header.''"

lemmas stream_names = StreamFieldPayload_def StreamFieldOutboxID_def StreamFieldPartitionKey_def
  StreamFieldContentType_def StreamFieldMessageType_def StreamFieldCreatedAtUnixNano_def
  streamHeaderPrefix_def

type_synonym stream_mapper = "message \<Rightarrow> goerr + (string \<times> (string \<times> string) list)"

text \<open>
  \<open>Time.UnixNano\<close> of an instant in microseconds since the zero time, as the \<open>int64\<close> it is.
\<close>

definition unix_nano :: "int \<Rightarrow> int" where
  "unix_nano t = sint (word_of_int ((t - 62135596800 * 1000000) * 1000) :: 64 word)"

definition DefaultStreamMapper :: stream_mapper where
  "DefaultStreamMapper m =
     Inr (m_Topic m,
       [(StreamFieldPayload, bytes_string (m_Payload m))]
       @ (if m_ID m \<noteq> '''' then [(StreamFieldOutboxID, m_ID m)] else [])
       @ (if m_PartitionKey m \<noteq> '''' then [(StreamFieldPartitionKey, m_PartitionKey m)] else [])
       @ (if m_ContentType m \<noteq> '''' then [(StreamFieldContentType, m_ContentType m)] else [])
       @ (if m_MessageType m \<noteq> '''' then [(StreamFieldMessageType, m_MessageType m)] else [])
       @ (if m_CreatedAt m \<noteq> 0
          then [(StreamFieldCreatedAtUnixNano, show_int (unix_nano (m_CreatedAt m)))] else [])
       @ map (\<lambda>(k, v). (streamHeaderPrefix @ k, v)) (case m_Headers m of None \<Rightarrow> [] | Some h \<Rightarrow> h))"

text \<open>One \<open>XADD\<close>: the stream, the entry id \<open>*\<close> and the field/value pairs.\<close>

record xadd =
  xa_Key :: string
  xa_Id :: string
  xa_Fields :: "(string \<times> string) list"

record stream_publisher =
  sp_Do :: "nat \<Rightarrow> nat \<Rightarrow> xadd \<Rightarrow> goerr option"
  sp_mapper :: stream_mapper

definition WithStreamMapper :: "stream_mapper option \<Rightarrow> stream_publisher \<Rightarrow> stream_publisher" where
  "WithStreamMapper f p = (case f of Some g \<Rightarrow> p\<lparr>sp_mapper := g\<rparr> | None \<Rightarrow> p)"

definition NewStream ::
  "(nat \<Rightarrow> nat \<Rightarrow> xadd \<Rightarrow> goerr option) \<Rightarrow> (stream_publisher \<Rightarrow> stream_publisher) list \<Rightarrow> stream_publisher" where
  "NewStream client opts =
     fold (\<lambda>opt p. opt p) opts \<lparr>sp_Do = client, sp_mapper = DefaultStreamMapper\<rparr>"

text \<open>The command of one message: the mapped fields, added to the builder one by one.\<close>

definition stream_command :: "stream_mapper \<Rightarrow> message \<Rightarrow> goerr + xadd" where
  "stream_command mapper m =
     (case mapper m of
        Inl err \<Rightarrow> Inl err
      | Inr (stream, pairs) \<Rightarrow>
          Inr (fold (\<lambda>f c. c\<lparr>xa_Fields := xa_Fields c @ [f]\<rparr>) pairs
                 \<lparr>xa_Key = stream, xa_Id = ''*'', xa_Fields = []\<rparr>))"

definition stream_Publish :: "stream_publisher \<Rightarrow> nat \<Rightarrow> message list \<Rightarrow> xadd list \<times> goerr option" where
  "stream_Publish p t msgs = send_each (stream_command (sp_mapper p)) (sp_Do p t) 0 msgs"

interpretation stream: batch_publisher "stream_command (sp_mapper p)" "stream_Publish p" for p
  by unfold_locales (auto simp: stream_Publish_def send_each_prefix send_each_complete)

lemma stream_command_fields:
  assumes "mapper m = Inr (s, pairs)"
  shows "stream_command mapper m = Inr \<lparr>xa_Key = s, xa_Id = ''*'', xa_Fields = pairs\<rparr>"
proof -
  have "fold (\<lambda>f c. c\<lparr>xa_Fields := xa_Fields c @ [f]\<rparr>) fs \<lparr>xa_Key = s, xa_Id = i, xa_Fields = gs\<rparr> =
      \<lparr>xa_Key = s, xa_Id = i, xa_Fields = gs @ fs\<rparr>" for fs gs i
    by (induction fs arbitrary: gs) auto
  then show ?thesis using assms by (simp add: stream_command_def)
qed

text \<open>No header can shadow a metadata field: the field names of an entry are distinct.\<close>

lemma stream_fields_distinct:
  assumes "distinct (map fst (case m_Headers m of None \<Rightarrow> [] | Some h \<Rightarrow> h))"
    and "DefaultStreamMapper m = Inr (s, pairs)"
  shows "distinct (map fst pairs)"
proof -
  let ?hs = "case m_Headers m of None \<Rightarrow> [] | Some h \<Rightarrow> h"
  let ?names = "map (\<lambda>x. streamHeaderPrefix @ fst x) ?hs"
  have "distinct (map ((@) streamHeaderPrefix) (map fst ?hs))"
    using assms(1) by (subst distinct_map) (simp add: inj_on_def)
  then have "distinct ?names" by (simp add: comp_def)
  moreover have "x \<notin> set ?names"
    if "x \<in> {StreamFieldPayload, StreamFieldOutboxID, StreamFieldPartitionKey, StreamFieldContentType,
      StreamFieldMessageType, StreamFieldCreatedAtUnixNano}" for x
    using that by (auto simp: stream_names)
  moreover have "map fst pairs = (StreamFieldPayload
       # (if m_ID m \<noteq> '''' then [StreamFieldOutboxID] else [])
       @ (if m_PartitionKey m \<noteq> '''' then [StreamFieldPartitionKey] else [])
       @ (if m_ContentType m \<noteq> '''' then [StreamFieldContentType] else [])
       @ (if m_MessageType m \<noteq> '''' then [StreamFieldMessageType] else [])
       @ (if m_CreatedAt m \<noteq> 0 then [StreamFieldCreatedAtUnixNano] else [])) @ ?names"
    using assms(2) by (auto simp: DefaultStreamMapper_def comp_def case_prod_beta)
  moreover have "distinct (StreamFieldPayload
       # (if m_ID m \<noteq> '''' then [StreamFieldOutboxID] else [])
       @ (if m_PartitionKey m \<noteq> '''' then [StreamFieldPartitionKey] else [])
       @ (if m_ContentType m \<noteq> '''' then [StreamFieldContentType] else [])
       @ (if m_MessageType m \<noteq> '''' then [StreamFieldMessageType] else [])
       @ (if m_CreatedAt m \<noteq> 0 then [StreamFieldCreatedAtUnixNano] else []))"
    by (simp add: stream_names)
  ultimately show ?thesis by (auto simp: distinct_append split: if_splits)
qed

section \<open>Properties\<close>

text \<open>One stream entry per message: the fields the default mapper lists reach \<open>XADD\<close> in their
  order, their names are distinct, so no header can shadow the payload or the metadata, and
  each header is found under its prefixed name.\<close>

theorem stream_entry_fields:
  assumes "m_Headers m = Some hs" and "distinct (map fst hs)"
    and "stream_command DefaultStreamMapper m = Inr cmd"
  shows "xa_Key cmd = m_Topic m \<and> distinct (map fst (xa_Fields cmd)) \<and>
    map_of (xa_Fields cmd) StreamFieldPayload = Some (bytes_string (m_Payload m)) \<and>
    (m_ID m \<noteq> '''' \<longrightarrow> map_of (xa_Fields cmd) StreamFieldOutboxID = Some (m_ID m)) \<and>
    (\<forall>(k, v) \<in> set hs. map_of (xa_Fields cmd) (streamHeaderPrefix @ k) = Some v)"
proof -
  obtain fs where fs: "DefaultStreamMapper m = Inr (m_Topic m, fs)" by (simp add: DefaultStreamMapper_def)
  have cmd: "cmd = \<lparr>xa_Key = m_Topic m, xa_Id = ''*'', xa_Fields = fs\<rparr>"
    using stream_command_fields [of DefaultStreamMapper, OF fs] assms(3) by simp
  have dist: "distinct (map fst fs)"
    using stream_fields_distinct [OF _ fs] assms(1,2) by simp
  have mem: "(StreamFieldPayload, bytes_string (m_Payload m)) \<in> set fs"
      "m_ID m \<noteq> '''' \<Longrightarrow> (StreamFieldOutboxID, m_ID m) \<in> set fs"
      "\<And>k v. (k, v) \<in> set hs \<Longrightarrow> (streamHeaderPrefix @ k, v) \<in> set fs"
    using fs assms(1) by (auto simp: DefaultStreamMapper_def)
  show ?thesis
    using dist mem by (auto simp: cmd)
qed

theorem stream_entry_fields_witness:
  "\<exists>cmd. stream_command DefaultStreamMapper
      (undefined\<lparr>m_ID := ''i'', m_Headers := Some [(''payload'', ''x'')], m_Payload := Some ''p''\<rparr>) = Inr cmd \<and>
    map_of (xa_Fields cmd) ''payload'' = Some ''p'' \<and> map_of (xa_Fields cmd) ''header.payload'' = Some ''x''"
proof -
  let ?m = "undefined\<lparr>m_ID := ''i'', m_Headers := Some [(''payload'', ''x'')], m_Payload := Some ''p''\<rparr> :: message"
  obtain cmd where cmd: "stream_command DefaultStreamMapper ?m = Inr cmd"
    by (simp add: stream_command_def DefaultStreamMapper_def)
  from stream_entry_fields [OF _ _ cmd] show ?thesis
    using cmd by (auto simp: StreamFieldPayload_def streamHeaderPrefix_def bytes_string_def)
qed

end
