(* ===== verification/Delivery.thy ===== *)
theory Delivery
  imports Guarantees Kafka Nats Valkey
begin

text \<open>
  The relay together with a transport publisher: what the contract of \<open>Publishers\<close> adds to the
  at-least-once guarantee of the relay.
\<close>

text \<open>
  The relay's publisher is this adapter: a call at moment \<open>k\<close> is answered as the adapter answers it then. Its
  errors carry no per-message outcomes (a mapper or a client that returned a \<open>PerMessage\<close> error would
  be settled by it, whatever was handed over).
\<close>

definition plugged_in :: "env \<Rightarrow> (nat \<Rightarrow> message list \<Rightarrow> 'c list \<times> goerr option) \<Rightarrow> bool" where
  "plugged_in env deliver \<longleftrightarrow>
     (\<forall>k ms. e_publish env k ms = Return (snd (deliver k ms))) \<and>
     (\<forall>k ms e. snd (deliver k ms) = Some e \<longrightarrow> \<not> has_as is_batch e)"

text \<open>The batch that starts in \<open>w\<close> is \<open>ms\<close>, and its call of the publisher, at moment \<open>k\<close>, returned nil.\<close>

definition published_in :: "env \<Rightarrow> settings \<Rightarrow> world \<Rightarrow> nat \<Rightarrow> message list \<Rightarrow> bool" where
  "published_in env cfg w k ms \<longleftrightarrow>
     (\<exists>w1 lease_err w2. claim env cfg w = (Return (Inr ms), w1) \<and>
        publish env cfg ms w1 = (Return (None, lease_err), w2) \<and> w_tick w2 = Suc k)"

lemma publish_call:
  "publish env cfg ms w = (Return (perr, lease_err), w') \<Longrightarrow>
    \<exists>k. w_tick w' = Suc k \<and> e_publish env k ms = Return perr"
  unfolding publish_def call_publisher_def
  by (auto elim!: bind_go_ReturnE split: res.splits dest!: ret_go_ReturnD simp: panic_go_run take_tick_def)

lemma plain_own_outcome:
  assumes "\<And>e. perr = Some e \<Longrightarrow> \<not> has_as is_batch e" and "own_outcome perr m = None"
  shows "perr = None"
  using assms by (cases perr) (auto simp: own_outcome_def has_as_def)

context batch_publisher begin

lemma acknowledged_handed_over:
  assumes "plugged_in env deliver" and "batch_acknowledged env cfg w i"
  shows "\<exists>k ms m c. published_in env cfg w k ms \<and> snd (deliver k ms) = None \<and> m \<in> set ms \<and> m_ID m = i \<and>
    mapper m = Inr c \<and> c \<in> set (fst (deliver k ms))"
proof -
  obtain ms w1 perr lease_err w2 m where run: "claim env cfg w = (Return (Inr ms), w1)"
    "publish env cfg ms w1 = (Return (perr, lease_err), w2)"
    and m: "m \<in> set ms" "m_ID m = i" "own_outcome perr m = None"
    using assms(2) unfolding batch_acknowledged_def by blast
  obtain k where k: "w_tick w2 = Suc k" "e_publish env k ms = Return perr"
    using publish_call [OF run(2)] by blast
  then have perr: "perr = snd (deliver k ms)" using assms(1) by (simp add: plugged_in_def)
  then have "perr = None"
    using plain_own_outcome [OF _ m(3)] assms(1) by (auto simp: plugged_in_def)
  moreover from this have "published_in env cfg w k ms"
    using run k(1) unfolding published_in_def by blast
  ultimately show ?thesis using nil_handed_over [of k ms m] m(1,2) perr by auto
qed

end

lemma published_row_acknowledged:
  assumes "alone env" and "returning_ok env" and "uuid_ok env (w_db w)"
    and "distinct (map r_id (d_rows (w_db w)))"
    and "r' \<in> set (d_rows (w_db (snd (worker_goroutine fuel env cfg ws w))))"
    and "r_status r' = StatusPublished"
  shows "(\<exists>r \<in> set (d_rows (w_db w)). r_id r = r_id r' \<and> r_status r = StatusPublished) \<or>
    acknowledged env (r_id r')"
proof -
  have "list_all2 (justified_row (acknowledged env)) (d_rows (w_db w)) (d_rows (w_db (snd (worker_goroutine fuel env cfg ws w))))"
    using withinD [OF justified_loops.worker_goroutine_within [of env fuel cfg ws], of w] assms(1-4)
    by (simp add: justified_def)
  from list_all2_in_set2 [OF this assms(5)] show ?thesis
    using assms(6) by (auto simp: justified_row_def)
qed

end
