(* ===== verification/Retention.thy ===== *)
theory Retention
  imports Pipeline
begin

text \<open>
  The cleaner: each pass ends, deletes only what a retention window has expired, and unless
  it is cut short leaves nothing expired behind.
\<close>

section \<open>One statement\<close>

lemma cleanup_run:
  assumes "Store_cleanup env cfg w = (Return (Inr n), w')" and "alone env"
  shows "d_rows (w_db w') = fst (sql_cleanup (cleanup_retention env cfg (w_tick w)) (s_BatchSize cfg)
      (e_locked env (w_tick w)) (d_rows (w_db w)))"
    and "n = snd (sql_cleanup (cleanup_retention env cfg (w_tick w)) (s_BatchSize cfg)
      (e_locked env (w_tick w)) (d_rows (w_db w)))"
    and "w_tick w' = Suc (w_tick w)" and "w_log w' = w_log w"
  using exec_call_InrD [OF assms(1) [unfolded Store_cleanup_def]] assms(2)
  by (auto simp: cleanup_stmt_def alone_def split: prod.splits dest: sym)

lemma cleanup_left:
  assumes "distinct (map r_id tbl)"
    and "int (snd (sql_cleanup rt batch locked tbl)) < batch"
    and "r \<in> set (fst (sql_cleanup rt batch locked tbl))" and "\<not> locked (r_id r)"
  shows "\<not> expired rt r"
proof
  assume ex: "expired rt r"
  let ?s = "filter (\<lambda>r. \<not> locked (r_id r)) (sort_key cleanup_key (filter (expired rt) tbl))"
  have r: "r \<in> set tbl" "r_id r \<notin> set (map r_id (cleanup_pick rt batch locked tbl))"
    using assms(3) by (auto simp: sql_cleanup_def Let_def)
  have "length (take (nat batch) ?s) < nat batch"
    using assms(2) cleanup_count [OF assms(1), of rt batch locked] by (simp add: cleanup_pick_def)
  then have "cleanup_pick rt batch locked tbl = ?s"
    by (simp add: cleanup_pick_def)
  then have "r \<in> set (cleanup_pick rt batch locked tbl)"
    using ex r(1) assms(4) by simp
  then show False using r(2) by simp
qed

lemma cleanup_distinct:
  "distinct (map r_id tbl) \<Longrightarrow> distinct (map r_id (fst (sql_cleanup rt batch locked tbl)))"
  by (simp add: sql_cleanup_def Let_def distinct_map_filter)

section \<open>A pass\<close>

lemma OnCleanup_unmoved:
  "(if 0 < n then call_hook env cfg (EvOnCleanup (int n)) else ret_go ()) w = (r, w') \<Longrightarrow> w_db w' = w_db w"
  using within_run [OF unmoved.within_call_hook] by (auto simp: ret_go_run split: if_splits)

text \<open>A full batch deletes at least one row, so the number of rows bounds the number of batches.\<close>

lemma cleanup_pass_ends:
  assumes "alone env" and "1 \<le> s_BatchSize cfg" and "length (d_rows (w_db w)) < fuel"
  shows "fst (cleanup_pass fuel env cfg w) \<noteq> Return Running"
  using assms(3)
proof (induction fuel arbitrary: w)
  case (Suc fuel)
  show ?case
  proof
    assume "fst (cleanup_pass (Suc fuel) env cfg w) = Return Running"
    then obtain w' where run: "cleanup_pass (Suc fuel) env cfg w = (Return Running, w')"
      by (metis prod.collapse)
    let ?w1 = "w\<lparr>w_tick := Suc (w_tick w)\<rparr>"
    from run obtain n w2 w3 where cl: "Store_cleanup env cfg ?w1 = (Return (Inr n), w2)"
      and hook: "(if 0 < n then call_hook env cfg (EvOnCleanup (int n)) else ret_go ()) w2 = (Return (), w3)"
      and full: "\<not> int n < s_BatchSize cfg" and rest: "cleanup_pass fuel env cfg w3 = (Return Running, w')"
      by (auto simp: ret_go_run elim!: bind_go_ReturnE split: if_splits sum.splits)
    note c = cleanup_run [OF cl assms(1)]
    have "length (d_rows (w_db w2)) + n = length (d_rows (w_db w))"
      using cleanup_shrinks c(1,2) by simp
    moreover have "w_db w3 = w_db w2" using hook by (rule OnCleanup_unmoved)
    moreover have "1 \<le> n" using full assms(2) by linarith
    ultimately have "length (d_rows (w_db w3)) < fuel" using Suc.prems by simp
    then show False using Suc.IH rest by (metis fst_conv)
  qed
qed simp

definition log_ends_with_cleanup_error :: "world \<Rightarrow> bool" where
  "log_ends_with_cleanup_error w \<longleftrightarrow>
     (\<exists>evs e. w_log w = evs @ [EvLogError ''outbox: cleanup failed'' e])"

text \<open>The rows locked by other transactions at the last statement are the only expired ones left.\<close>

lemma cleanup_pass_reaches:
  assumes "alone env" and "\<forall>n. \<not> e_done env n" and "distinct (map r_id (d_rows (w_db w)))"
    and "cleanup_pass fuel env cfg w = (Return (Done None), w')"
  shows "(\<exists>n. \<forall>r \<in> set (d_rows (w_db w')). expired (cleanup_retention env cfg n) r \<longrightarrow> e_locked env n (r_id r))
    \<or> log_ends_with_cleanup_error w'"
  using assms(3,4)
proof (induction fuel arbitrary: w)
  case (Suc fuel)
  let ?w1 = "w\<lparr>w_tick := Suc (w_tick w)\<rparr>"
  from Suc.prems(2) obtain r w2 where cl: "Store_cleanup env cfg ?w1 = (Return r, w2)"
    and rest: "(case r of
           Inl err \<Rightarrow>
             bind_go (isFatal env cfg err) (\<lambda>fatal.
               if fatal then ret_go (Done (Some err))
               else bind_go (emit (EvLogError ''outbox: cleanup failed'' err)) (\<lambda>_. ret_go (Done None)))
         | Inr n \<Rightarrow>
             bind_go (if 0 < n then call_hook env cfg (EvOnCleanup (int n)) else ret_go ()) (\<lambda>_.
               if int n < s_BatchSize cfg then ret_go (Done None) else cleanup_pass fuel env cfg)) w2
      = (Return (Done None), w')"
    using assms(2) by (auto elim!: bind_go_ReturnE)
  show ?case
  proof (cases r)
    case (Inl e)
    then show ?thesis
      using rest by (auto simp: log_ends_with_cleanup_error_def elim!: bind_go_ReturnE split: if_splits
          dest!: ret_go_ReturnD)
  next
    case (Inr n)
    note c = cleanup_run [OF cl [unfolded Inr] assms(1)]
    from rest [unfolded Inr] obtain w3 where
      hook: "(if 0 < n then call_hook env cfg (EvOnCleanup (int n)) else ret_go ()) w2 = (Return (), w3)"
      and last: "(if int n < s_BatchSize cfg then ret_go (Done None) else cleanup_pass fuel env cfg) w3
        = (Return (Done None), w')"
      by (auto elim!: bind_go_ReturnE)
    have same: "w_db w3 = w_db w2" using hook by (rule OnCleanup_unmoved)
    have d2: "distinct (map r_id (d_rows (w_db w2)))"
      using cleanup_distinct Suc.prems(1) c(1) by simp
    show ?thesis
    proof (cases "int n < s_BatchSize cfg")
      case True
      have "\<not> expired (cleanup_retention env cfg (w_tick ?w1)) x"
        if "x \<in> set (d_rows (w_db w2))" "\<not> e_locked env (w_tick ?w1) (r_id x)" for x
        by (rule cleanup_left [of "d_rows (w_db ?w1)" _ "s_BatchSize cfg" "e_locked env (w_tick ?w1)"])
          (use Suc.prems(1) True c(1,2) that in simp_all)
      moreover have "w' = w3" using last True by (auto dest: ret_go_ReturnD)
      ultimately show ?thesis using same by metis
    next
      case False
      then show ?thesis using Suc.IH [of w3] last same d2 by simp
    qed
  qed
qed (auto dest: ret_go_ReturnD)

lemma expired_cleanup_retention:
  assumes "expired (cleanup_retention env cfg n) r"
  shows "(r_status r = StatusPublished \<and> 0 < s_Retention cfg) \<or>
    (r_status r = StatusDead \<and> 0 < s_DeadRetention cfg) \<or>
    (r_status r = StatusDiscarded \<and> 0 < s_DiscardRetention cfg)"
  using assms by (auto simp: expired_def cleanup_retention_def)

text \<open>Whatever the cleaner deletes, in however many passes, a window had expired.\<close>

definition purged :: "env \<Rightarrow> settings \<Rightarrow> database \<Rightarrow> database \<Rightarrow> bool" where
  "purged env cfg d d' \<longleftrightarrow>
     (alone env \<longrightarrow> distinct (map r_id (d_rows d)) \<longrightarrow>
       distinct (map r_id (d_rows d')) \<and> set (d_rows d') \<subseteq> set (d_rows d) \<and>
       (\<forall>r \<in> set (d_rows d) - set (d_rows d'). \<exists>n. expired (cleanup_retention env cfg n) r))"

interpretation purged: db_frame "purged env cfg" for env cfg
  by unfold_locales (auto simp: purged_def)

interpretation cleaner_purges: cleaner_frame "purged env cfg" env cfg for env cfg
proof unfold_locales
  show "within (purged env cfg) (Store_cleanup env cfg)"
  proof (cases "alone env")
    case True
    have "purged env cfg d (snd (cleanup_stmt env cfg n d))" for n d
    proof -
      let ?rt = "cleanup_retention env cfg n"
      have rows: "d_rows (snd (cleanup_stmt env cfg n d)) =
          fst (sql_cleanup ?rt (s_BatchSize cfg) (e_locked env n) (d_rows d))"
        by (simp add: cleanup_stmt_def split: prod.splits)
      have "set (fst (sql_cleanup ?rt (s_BatchSize cfg) (e_locked env n) (d_rows d))) \<subseteq> set (d_rows d)"
        by (auto simp: sql_cleanup_def Let_def)
      moreover have "expired ?rt r" if "distinct (map r_id (d_rows d))" "r \<in> set (d_rows d)"
          "r \<notin> set (fst (sql_cleanup ?rt (s_BatchSize cfg) (e_locked env n) (d_rows d)))" for r
        using cleanup_deleted [OF that] by (rule cleanup_pickD)
      ultimately show ?thesis
        unfolding purged_def rows using cleanup_distinct by blast
    qed
    then show ?thesis
      unfolding Store_cleanup_def using True
      by (intro purged.within_exec_call) (simp_all add: alone_def purged.frame_refl)
  next
    case False
    then show ?thesis by (simp add: within_def purged_def)
  qed
qed

end
