(* ===== verification/Intake.thy ===== *)
theory Intake
  imports Pipeline Arguments
begin

text \<open>
  The way in: enqueueing stores messages once, and replay resets dead rows.
\<close>

section \<open>Enqueue\<close>

text \<open>A call the database answers, with nobody else committing meanwhile.\<close>

definition answered :: "env \<Rightarrow> nat \<Rightarrow> bool" where
  "answered env n \<longleftrightarrow> e_call env n = CallOk \<and> alone env"

text \<open>The id the row gets: the message's own, or the next generated one.\<close>

definition enqueue_id :: "env \<Rightarrow> database \<Rightarrow> message \<Rightarrow> string option" where
  "enqueue_id env d m = (if m_ID m = '''' then Some (e_gen env (d_uuid d)) else e_uuid_in env (m_ID m))"

text \<open>
  A message the database can store: it takes the texts, those of the headers hold no zero byte, and
  the attempt limit fits its column.
\<close>

definition storable :: "env \<Rightarrow> message \<Rightarrow> bool" where
  "storable env m \<longleftrightarrow>
     list_all (arg_ok (e_text_ok env)) (message_args m) \<and> zero_free (headers_or_empty m) \<and>
     as_int (Some (nullInt (m_MaxAttempts m))) \<noteq> None"

lemma Enqueue_stores:
  assumes "Validate m = None" and "answered env (w_tick w)" and "st_enq (ob_store ob) \<noteq> None"
    and "enqueue_id env (w_db w) m = Some i" and "storable env m"
  shows "\<exists>w' v. Enqueue env ob m w = (Return None, w') \<and>
    message_row (e_uuid_in env) m = Some v \<and>
    d_rows (w_db w') =
      (if i \<in> set (map r_id (d_rows (w_db w))) then d_rows (w_db w)
       else d_rows (w_db w) @ [fresh_row i (e_now env (w_tick w)) (d_seq (w_db w)) v])"
proof -
  obtain p where p: "m_Payload m = Some p" using assms(1) by (auto simp: Validate_None_iff)
  obtain v where v: "message_row (e_uuid_in env) m = Some v"
    and i: "(case v_id v of Some j \<Rightarrow> j | None \<Rightarrow> e_gen env (d_uuid (w_db w))) = i"
    using assms(4,5) p
    by (auto simp: message_row_def enqueue_id_def storable_def jsonb_in_Marshal split: if_splits option.splits)
  have args: "list_all (arg_ok (e_text_ok env)) (enqueue_args [m])" "length (enqueue_args [m]) \<le> max_params"
    using assms(5) by (simp_all add: storable_def enqueue_args_def message_args_def max_params_def)
  have dec: "decode_groups (e_uuid_in env) (enqueue_args [m]) (length [m]) = Some [v]"
    using decode_groups_enqueue [of "e_uuid_in env" "[m]"] v by simp
  show ?thesis
    using assms(1-3) i v dec args
    by (auto simp: Enqueue_def Store_Enqueue_def insert_stmt_def answered_def alone_def exec_call_def
        bind_go_def ret_go_run err_of_def Let_def split: option.splits)
qed

text \<open>
  One message the database cannot store makes it refuse the whole statement; so does a batch with
  more parameters than a statement can have.
\<close>

lemma enqueue_args_length: "length (enqueue_args msgs) = 8 * length msgs"
  by (induction msgs) (simp_all add: enqueue_args_def message_args_def)

definition too_many :: "message list \<Rightarrow> bool" where
  "too_many msgs \<longleftrightarrow> 8191 < length msgs"

lemma too_many_iff: "too_many msgs \<longleftrightarrow> \<not> length (enqueue_args msgs) \<le> max_params"
  by (auto simp: too_many_def enqueue_args_length max_params_def)

lemma those_None_iff: "those xs = None \<longleftrightarrow> None \<in> set xs"
  by (induction xs) (auto split: option.splits)

lemma Store_Enqueue_refused:
  assumes "answered env (w_tick w)" and "st_enq st \<noteq> None"
    and "too_many ms \<or> (\<exists>m \<in> set ms. \<not> storable env m \<or> m_ID m \<noteq> '''' \<and> e_uuid_in env (m_ID m) = None)"
  shows "Store_Enqueue env st ms w = (Return (Some (e_sql_error env)), w\<lparr>w_tick := Suc (w_tick w)\<rparr>)"
proof -
  have "\<not> list_all (arg_ok (e_text_ok env)) (enqueue_args ms) \<or> message_row (e_uuid_in env) m = None"
    if "m \<in> set ms" "\<not> storable env m \<or> m_ID m \<noteq> '''' \<and> e_uuid_in env (m_ID m) = None" for m
    using that by (auto simp: storable_def enqueue_args_def message_row_def list_all_iff jsonb_in_Marshal
        split: option.splits if_splits)
  then have "(if length (enqueue_args ms) \<le> max_params \<and> list_all (arg_ok (e_text_ok env)) (enqueue_args ms)
      then decode_groups (e_uuid_in env) (enqueue_args ms) (length ms) else None) = None"
    using assms(3) unfolding too_many_iff by (force simp: decode_groups_enqueue those_None_iff)
  then have "insert_stmt env ms n d = (Inl (e_sql_error env), d)" for n d
    by (simp add: insert_stmt_def)
  moreover have "ms \<noteq> []" using assms(3) by (auto simp: too_many_def)
  ultimately show ?thesis
    using assms(1,2) by (auto simp: Store_Enqueue_def answered_def alone_def exec_call_def bind_go_def
        ret_go_run err_of_def Let_def)
qed

text \<open>What the relay hands to the publisher when it claims a row that was enqueued.\<close>

lemma claimed_content:
  assumes "message_row uuid_in m = Some v"
  shows "let m' = scan_row (claim_row inst until tok (fresh_row i now s v)) in
    m_ID m' = i \<and> m_Topic m' = m_Topic m \<and> m_PartitionKey m' = m_PartitionKey m \<and>
    m_Payload m' = m_Payload m \<and> m_Headers m' = Some (stored_headers (headers_or_empty m)) \<and>
    m_ContentType m' = m_ContentType m \<and> m_MessageType m' = m_MessageType m \<and>
    m_MaxAttempts m' = m_MaxAttempts m \<and> m_Attempts m' = 1"
proof -
  obtain ident p where "m_Payload m = Some p" and
    v: "v = \<lparr>v_id = ident, v_topic = m_Topic m, v_partition_key = text_column (m_PartitionKey m),
      v_payload = p, v_headers = stored_headers (headers_or_empty m),
      v_content_type = text_column (m_ContentType m), v_message_type = text_column (m_MessageType m),
      v_max_attempts = m_MaxAttempts m\<rparr>"
    using assms by (auto simp: message_row_def jsonb_in_Marshal split: option.splits if_splits)
  moreover have "derefStr (text_column s) = s" for s
    by (simp add: derefStr_def text_column_def)
  ultimately show ?thesis
    by (simp add: scan_row_def claim_row_def fresh_row_def Let_def)
qed

text \<open>A second insert of a stored id leaves the table as it is.\<close>

lemma sql_insert_duplicates:
  assumes "\<forall>v \<in> set vs. \<exists>i. v_id v = Some i \<and> i \<in> r_id ` set tbl"
  shows "fst (sql_insert gen now k seq vs tbl) = tbl"
  using assms by (induction vs arbitrary: k seq) (auto split: option.splits)

section \<open>Batches\<close>

lemma validate_all_None_iff: "validate_all ms = None \<longleftrightarrow> (\<forall>m \<in> set ms. Validate m = None)"
  by (induction ms) (auto split: option.splits)

lemma validate_all_first:
  "validate_all ms = first_some (map Validate ms)"
  by (induction ms) (auto split: option.splits)

lemma those_Some_length: "those xs = Some ys \<Longrightarrow> length ys = length xs"
  by (induction xs arbitrary: ys) (auto split: option.splits)

lemma EnqueueBatch_rejects:
  assumes "m \<in> set ms" and "Validate m \<noteq> None"
  shows "\<exists>e. EnqueueBatch env ob ms w = (Return (Some e), w) \<and> first_some (map Validate ms) = Some e"
proof -
  have "validate_all ms \<noteq> None" using assms by (metis validate_all_None_iff)
  then show ?thesis by (auto simp: EnqueueBatch_def ret_go_run validate_all_first)
qed

section \<open>Replay\<close>

lemma singleton_by_key:
  "distinct (map f xs) \<Longrightarrow> f ` set xs \<subseteq> {i} \<Longrightarrow> xs \<noteq> [] \<Longrightarrow> length xs = 1"
  by (cases xs; cases "tl xs") auto

lemma Requeue_run:
  assumes "answered env (w_tick w)" and "st_enq (ob_store ob) \<noteq> None" and "e_uuid_in env ident = Some i"
    and "distinct (map r_id (d_rows (w_db w)))"
  shows "\<exists>w'. Requeue env ob ident w =
      (Return (\<exists>r \<in> set (d_rows (w_db w)). r_id r = i \<and> r_status r = StatusDead, None), w') \<and>
    d_rows (w_db w') = map (\<lambda>r. if requeuable i r then requeue_row (e_clk env (w_tick w)) r else r) (d_rows (w_db w))"
proof -
  let ?rows = "d_rows (w_db w)"
  have one: "length (filter (requeuable i) ?rows) = 1 \<longleftrightarrow> (\<exists>r \<in> set ?rows. requeuable i r)"
  proof
    assume "\<exists>r \<in> set ?rows. requeuable i r"
    then show "length (filter (requeuable i) ?rows) = 1"
      using assms(4) by (intro singleton_by_key [of r_id _ i])
        (auto simp: distinct_map_filter requeuable_def filter_empty_conv)
  qed (metis One_nat_def filter_empty_conv list.size(3) zero_neq_one)
  show ?thesis
    using assms(1-3) one
    by (auto simp: Requeue_def Store_Requeue_def requeue_stmt_def sql_requeue_def answered_def alone_def
        exec_call_def bind_go_def ret_go_run Let_def requeuable_def)
qed

end
