(* ===== verification/Stopping.thy ===== *)
theory Stopping
  imports Settlement
begin

text \<open>
  Why a worker stops with an error: with the default classifier only a publisher's abort or a
  recovered panic does it; no database error, lost lease or failed publish ends the relay.
\<close>

section \<open>What stops a worker\<close>

text \<open>
  The results an operation can have: \<open>P\<close> holds of what it returns, \<open>Q\<close> of what it panics with.
\<close>

definition results :: "('a \<Rightarrow> bool) \<Rightarrow> (goval \<Rightarrow> bool) \<Rightarrow> 'a go \<Rightarrow> bool" where
  "results P Q m \<longleftrightarrow> (\<forall>w. case fst (m w) of Return x \<Rightarrow> P x | Panic v \<Rightarrow> Q v)"

named_theorems yields "rules for the results of operations"

lemma results_Return: "results P Q m \<Longrightarrow> m w = (Return x, w') \<Longrightarrow> P x"
  unfolding results_def by (metis fst_conv res.simps(5))

lemma results_ret [yields]: "P x \<Longrightarrow> results P Q (ret_go x)"
  by (simp add: results_def ret_go_run)

lemma results_panic [yields]: "Q v \<Longrightarrow> results P Q (panic_go v)"
  by (simp add: results_def panic_go_run)

lemma results_mono: "results P Q m \<Longrightarrow> (\<And>x. P x \<Longrightarrow> P' x) \<Longrightarrow> (\<And>v. Q v \<Longrightarrow> Q' v) \<Longrightarrow> results P' Q' m"
  unfolding results_def by (auto split: res.splits)

lemma results_bind:
  assumes "results P Q m" and "\<And>x. P x \<Longrightarrow> results P' Q (f x)"
  shows "results P' Q (bind_go m f)"
  unfolding results_def
proof
  fix w
  obtain r w1 where m: "m w = (r, w1)" by fastforce
  have r: "case r of Return x \<Rightarrow> P x | Panic v \<Rightarrow> Q v"
    using assms(1) m unfolding results_def by (metis fst_conv)
  show "case fst (bind_go m f w) of Return x \<Rightarrow> P' x | Panic v \<Rightarrow> Q v"
  proof (cases r)
    case (Return x)
    then have "results P' Q (f x)" using r assms(2) by simp
    then show ?thesis using m Return by (simp add: results_def bind_go_def)
  qed (use m r in \<open>simp add: bind_go_def\<close>)
qed

lemma results_any: "results (\<lambda>_. True) (\<lambda>_. True) m"
  by (simp add: results_def split: res.splits)

lemma results_emit: "results (\<lambda>_. True) Q (emit ev)"
  by (simp add: results_def)

lemma results_for_each:
  assumes "\<And>x. results P Q (body x)"
  shows "results (\<lambda>ys. \<forall>y \<in> set ys. P y) Q (for_each body xs)"
proof (induction xs)
  case (Cons x xs)
  have "results (\<lambda>ys. \<forall>y \<in> set ys. P y) Q (bind_go (for_each body xs) (\<lambda>ys. ret_go (y # ys)))" if "P y" for y
    by (rule results_bind [OF Cons.IH]) (simp add: that yields)
  then show ?case unfolding for_each.simps by (rule results_bind [OF assms])
qed (simp add: yields)

lemma results_recovered:
  assumes "results P Q fn" and "\<And>v. Q v \<Longrightarrow> P (Some (PanicError v))"
  shows "results P (\<lambda>_. False) (recovered fn)"
  unfolding results_def
proof
  fix w
  obtain r w1 where m: "fn w = (r, w1)" by fastforce
  then have "case r of Return x \<Rightarrow> P x | Panic v \<Rightarrow> Q v"
    using assms(1) unfolding results_def by (metis fst_conv)
  then show "case fst (recovered fn w) of Return x \<Rightarrow> P x | Panic v \<Rightarrow> False"
    using m assms(2) by (cases r) (simp_all add: recovered_def)
qed

text \<open>
  \<open>fatalError\<close> is private to the engine: no error from outside has one in its tree.
\<close>

definition public :: "goerr option \<Rightarrow> bool" where
  "public err \<longleftrightarrow> (\<forall>e. err = Some e \<longrightarrow> \<not> has_as is_fatal_error e)"

definition public_value :: "goval \<Rightarrow> bool" where
  "public_value v \<longleftrightarrow> (case v of Inl e \<Rightarrow> public (Some e) | Inr _ \<Rightarrow> True)"

definition public_env :: "env \<Rightarrow> bool" where
  "public_env env \<longleftrightarrow>
     public (Some (e_sql_error env)) \<and>
     (\<forall>n b e. e_call env n = CallErr b e \<longrightarrow> public (Some e)) \<and>
     (\<forall>n b v. e_call env n = CallPanic b v \<longrightarrow> public_value v)"

lemma has_as_unfold: "has_as p e \<longleftrightarrow> p e \<or> (\<exists>x \<in> set (unwrap e). has_as p x)"
  unfolding has_as_iff by (subst err_nodes.simps) auto

lemma public_unfold: "public (Some e) \<longleftrightarrow> \<not> is_fatal_error e \<and> (\<forall>x \<in> set (unwrap e). public (Some x))"
  unfolding public_def using has_as_unfold [of is_fatal_error e] by auto

lemma public_None [simp, intro]: "public None"
  by (simp add: public_def)

lemma public_lease_lost [simp]: "public (Some ErrLeaseLost)"
  by (subst public_unfold) (simp add: ErrLeaseLost_def)

lemma public_join:
  assumes "\<forall>e \<in> set errs. public e"
  shows "public (errors_join errs)"
proof -
  have "public (Some (Joined (concat (map opt_list errs))))"
    using assms by (subst public_unfold) (auto simp: elim!: opt_list.elims)
  then show ?thesis by (simp add: errors_join_def Let_def)
qed

lemma public_renew_error: "public (Some e) \<Longrightarrow> public (Some (renew_error e))"
  unfolding renew_error_def by (subst public_unfold) simp

lemma public_panic: "public_value v \<Longrightarrow> public (Some (PanicError v))"
  unfolding public_value_def by (subst public_unfold) (auto split: sum.splits)

lemma exec_call_results:
  assumes "public_env env" and "\<And>n d e. fst (stmt n d) = Inl e \<Longrightarrow> public (Some e)"
  shows "results (\<lambda>r. public (err_of r)) public_value (exec_call env stmt)"
  unfolding results_def
proof
  fix w :: world
  let ?d = "e_others env (w_tick w) (w_db w)"
  have stmt: "public (err_of (fst (stmt (w_tick w) ?d)))"
    using assms(2) [of "w_tick w" ?d] by (cases "fst (stmt (w_tick w) ?d)") (simp_all add: err_of_def)
  show "case fst (exec_call env stmt w) of Return r \<Rightarrow> public (err_of r) | Panic v \<Rightarrow> public_value v"
  proof (cases "e_call env (w_tick w)")
    case CallOk
    then show ?thesis using stmt by (simp add: exec_call_def case_prod_beta Let_def)
  next
    case (CallErr b e)
    then have "public (Some e)" using assms(1) by (simp add: public_env_def)
    then show ?thesis using CallErr by (simp add: exec_call_def case_prod_beta Let_def err_of_def)
  next
    case (CallPanic b v)
    then have "public_value v" using assms(1) unfolding public_env_def by blast
    then show ?thesis using CallPanic by (simp add: exec_call_def case_prod_beta Let_def)
  qed
qed

lemma claim_results:
  assumes "public_env env"
  shows "results (\<lambda>r. public (err_of r)) public_value (claim env cfg)"
  unfolding claim_def
  by (rule exec_call_results [OF assms])
    (use assms in \<open>auto simp: claim_stmt_def public_env_def split: prod.splits if_splits\<close>)

lemma renew_results:
  assumes "public_env env"
  shows "results public public_value (renew env msgs duration)"
  unfolding renew_def
proof (rule results_bind [OF exec_call_results [OF assms]])
  show "public (Some e)" if "fst (renew_stmt env msgs duration n d) = Inl e" for n d e
    using that assms by (auto simp: renew_stmt_def public_env_def split: option.splits prod.splits)
qed (auto simp: err_of_def intro!: yields split: sum.splits)

lemma complete_results:
  assumes "public_env env"
  shows "results public (\<lambda>_. True) (complete env cfg msgs st cause delay)"
proof -
  have "public (Some e)" if "fst (finish_stmt env msgs st reason delay clear n d) = Inl e" for reason clear n d e
    using that assms by (auto simp: finish_stmt_def public_env_def split: option.splits prod.splits)
  then have "results (\<lambda>r. public (err_of r)) public_value
      (exec_call env (finish_stmt env msgs st reason delay clear))" for reason clear
    by (rule exec_call_results [OF assms])
  then have "results (\<lambda>r. public (err_of r)) (\<lambda>_. True)
      (exec_call env (finish_stmt env msgs st reason delay clear))" for reason clear
    by (rule results_mono) simp_all
  then have "results (\<lambda>r. public (err_of r)) (\<lambda>_. True) (Store_finish env msgs st reason delay clear)" for reason clear
    unfolding Store_finish_def by (simp add: results_ret err_of_def)
  then show ?thesis
    unfolding complete_def Let_def
    by (rule results_bind)
      (auto simp: err_of_def intro!: yields intro: results_bind [OF results_any] split: sum.splits)
qed

lemma settle_results:
  assumes "public_env env"
  shows "results public (\<lambda>_. True) (settle env cfg msgs perr)"
proof -
  note fin = complete_results [OF assms]
  have "results public (\<lambda>_. True) (settle_retry env cfg e retry m)" for e retry m
    unfolding settle_retry_def using fin by (auto intro: results_bind [OF results_any])
  then have "results public (\<lambda>_. True)
      (bind_go (for_each (settle_retry env cfg e retry) msgs) (\<lambda>errs. ret_go (errors_join errs)))" for e retry
    by (intro results_bind [OF results_for_each]) (auto intro!: yields public_join)
  then show ?thesis
    unfolding settle_def using fin by (auto intro!: yields split: option.splits)
qed

lemma settle_batch_results:
  assumes "public_env env"
  shows "results public (\<lambda>_. True) (settle_batch env cfg msgs perr)"
proof -
  note fin = settle_results [OF assms]
  have "results public (\<lambda>_. True) (settleEach env cfg msgs outcomes be)" for outcomes be
    unfolding settleEach_eq settle_entry_def
    by (rule results_bind [OF results_for_each [OF fin]], rule results_bind [OF fin],
        rule results_bind [OF fin], rule results_ret, rule public_join) auto
  then show ?thesis
    unfolding settle_batch_def using fin by (auto split: option.splits goerr.splits)
qed

lemma heartbeat_results:
  assumes "public_env env"
  shows "results public public_value (heartbeat env cfg msgs beats)"
proof (induction beats)
  case (Cons b beats)
  show ?case
  proof (cases b)
    case (BeatTick stop)
    show ?thesis
      unfolding BeatTick heartbeat.simps
      by (rule results_bind [OF renew_results [OF assms]])
        (auto intro!: yields Cons.IH results_bind [OF results_emit] public_renew_error split: option.splits)
  qed (simp add: yields)
qed (simp add: yields)

text \<open>With the default classifier only aborts and recovered panics are fatal.\<close>

definition stopper :: "goerr \<Rightarrow> bool" where
  "stopper e \<longleftrightarrow> has_as is_abort e \<or> has_as is_panic e"

lemma isFatal_results:
  assumes "s_Fatal cfg = Some neverFatal"
  shows "results (\<lambda>fatal. fatal \<longrightarrow> stopper e) (\<lambda>_. True) (isFatal env cfg e)"
  unfolding isFatal_def using assms
  by (auto simp: stopper_def neverFatal_def intro!: yields results_bind [OF results_any])

lemma publish_results:
  assumes "public_env env"
  shows "results (\<lambda>(perr, lease_err). public lease_err) (\<lambda>_. True) (publish env cfg msgs)"
proof -
  have beat: "results public (\<lambda>_. True) (recovered (heartbeat env cfg msgs beats))" for beats
    using results_recovered [OF heartbeat_results [OF assms] public_panic] by (rule results_mono) auto
  show ?thesis
    unfolding publish_def
    by (rule results_bind [OF results_any], rule results_bind [OF results_any],
        rule results_bind [OF beat], rule results_bind [OF results_any]) (simp add: yields)
qed

lemma processBatch_results:
  assumes "public_env env" and "s_Fatal cfg = Some neverFatal"
  shows "results (\<lambda>(n, err). public err \<or> (\<exists>p. err = Some (FatalError p) \<and> stopper p)) (\<lambda>_. True)
    (processBatch env cfg)"
  unfolding processBatch_def
proof (rule results_bind, rule results_mono [OF claim_results [OF assms(1)]], assumption, rule TrueI)
  let ?P = "\<lambda>(n :: nat, err). public err \<or> (\<exists>p. err = Some (FatalError p) \<and> stopper p)"
  fix r :: "goerr + message list" assume r: "public (err_of r)"
  have judge: "results (\<lambda>fatal. fatal \<longrightarrow> (\<exists>e. perr = Some e \<and> stopper e)) (\<lambda>_. True)
      (case perr of None \<Rightarrow> ret_go False | Some e \<Rightarrow> isFatal env cfg e)" for perr
    using isFatal_results [OF assms(2)] by (cases perr) (auto intro: yields results_mono)
  have settled: "results ?P (\<lambda>_. True) (bind_go (settle_batch env cfg msgs perr) (\<lambda>err. ret_go (length msgs, err)))"
    for msgs perr
    by (rule results_bind [OF settle_batch_results [OF assms(1)]]) (simp add: yields)
  have "results ?P (\<lambda>_. True) (bind_go (publish env cfg msgs) (\<lambda>(perr, lease_err).
      bind_go (case perr of None \<Rightarrow> ret_go False | Some e \<Rightarrow> isFatal env cfg e) (\<lambda>fatal.
        if fatal then ret_go (length msgs, map_option FatalError perr)
        else if lease_err \<noteq> None then ret_go (length msgs, lease_err)
        else bind_go (settle_batch env cfg msgs perr) (\<lambda>err. ret_go (length msgs, err)))))" for msgs
    by (rule results_bind [OF publish_results [OF assms(1)]])
      (auto intro!: results_bind [OF judge] yields settled)
  then show "results ?P (\<lambda>_. True) (case r of Inl err \<Rightarrow> ret_go (0, Some err)
      | Inr msgs \<Rightarrow> if msgs = [] then ret_go (0, None) else bind_go (publish env cfg msgs) (\<lambda>(perr, lease_err).
        bind_go (case perr of None \<Rightarrow> ret_go False | Some e \<Rightarrow> isFatal env cfg e) (\<lambda>fatal.
          if fatal then ret_go (length msgs, map_option FatalError perr)
          else if lease_err \<noteq> None then ret_go (length msgs, lease_err)
          else bind_go (settle_batch env cfg msgs perr) (\<lambda>err. ret_go (length msgs, err)))))"
    using r by (auto simp: err_of_def intro!: yields split: sum.splits)
qed

lemma batch_failed_results:
  assumes "s_Fatal cfg = Some neverFatal" and "public (Some e) \<or> (\<exists>p. e = FatalError p \<and> stopper p)"
  shows "results (\<lambda>r. \<forall>x. r = Some x \<longrightarrow> stopper x) (\<lambda>_. True) (batch_failed env cfg e)"
  using assms(2)
proof
  assume "public (Some e)"
  then have "errors_as is_fatal_error e = None" by (simp add: public_def has_as_def)
  then show ?thesis
    unfolding batch_failed_def
    by (simp, intro results_bind [OF isFatal_results [OF assms(1)]])
      (simp add: yields results_bind [OF results_any])
next
  assume "\<exists>p. e = FatalError p \<and> stopper p"
  then show ?thesis
    by (auto simp: batch_failed_def errors_as.simps [of _ "FatalError _"] intro!: yields)
qed

lemma drain_results:
  assumes "public_env env" and "s_Fatal cfg = Some neverFatal"
  shows "results (\<lambda>r. \<forall>x. r = Done (Some x) \<longrightarrow> stopper x) (\<lambda>_. True) (drain fuel env cfg)"
proof (induction fuel)
  case (Suc fuel)
  have failed: "results (\<lambda>r. \<forall>x. r = Done (Some x) \<longrightarrow> stopper x) (\<lambda>_. True)
      (bind_go (batch_failed env cfg e) (\<lambda>r. ret_go (Done r)))"
    if "public (Some e) \<or> (\<exists>p. e = FatalError p \<and> stopper p)" for e
    by (rule results_bind [OF batch_failed_results [OF assms(2) that]]) (simp add: yields)
  show ?case
    unfolding drain.simps
    by (rule results_bind [OF results_any])
      (auto intro!: yields results_bind [OF processBatch_results [OF assms]] failed Suc.IH split: option.splits)
qed (simp add: yields)

lemma worker_results_stopper:
  assumes "public_env env" and "s_Fatal cfg = Some neverFatal"
  shows "results (\<lambda>r. \<forall>x. r = Done (Some x) \<longrightarrow> stopper x) (\<lambda>_. True) (worker fuel env cfg ws)"
proof (induction ws)
  case (Cons x ws)
  then show ?case
    by (cases x) (auto intro!: yields results_bind [OF drain_results [OF assms]] split: run.splits option.splits)
qed (simp add: yields)

lemma worker_goroutine_stopper:
  assumes "public_env env" and "s_Fatal cfg = Some neverFatal"
    and "worker_goroutine fuel env cfg ws w = (Return (Done (Some e)), w')"
  shows "stopper e"
proof (cases "worker fuel env cfg ws w")
  case (Pair r w1)
  show ?thesis
  proof (cases r)
    case (Return x)
    then have "x = Done (Some e)" using assms(3) Pair by (simp add: worker_goroutine_def recovered_run_def)
    then show ?thesis using results_Return [OF worker_results_stopper [OF assms(1,2)]] Pair Return by blast
  next
    case (Panic v)
    then have "e = PanicError v" using assms(3) Pair by (simp add: worker_goroutine_def recovered_run_def)
    then show ?thesis by (simp add: stopper_def has_as_self)
  qed
qed

end
