(* ===== verification/Supervision.thy ===== *)
theory Supervision
  imports Stopping
begin

text \<open>
  The lifecycle of a running outbox: why a worker stops, what the group of goroutines of
  \<open>Run\<close> returns, and that notifications wake a worker without piling up.
\<close>

section \<open>Workers\<close>

lemma worker_stops:
  "worker fuel env cfg ws w = (Return (Done None), w') \<Longrightarrow> WakeDone \<in> set ws"
proof (induction ws arbitrary: w)
  case (Cons x ws)
  then show ?case
    by (cases x) (auto elim!: bind_go_ReturnE split: run.splits option.splits dest!: ret_go_ReturnD)
qed (auto dest: ret_go_ReturnD)

lemma worker_goroutine_result:
  "\<exists>r w'. worker_goroutine fuel env cfg ws w = (Return r, w')"
  by (auto simp: worker_goroutine_def recovered_run_def split: prod.splits res.splits)

lemma worker_goroutine_panic:
  assumes "worker fuel env cfg ws w = (Panic v, w')"
  shows "worker_goroutine fuel env cfg ws w = (Return (Done (Some (PanicError v))), w')"
  using assms by (simp add: worker_goroutine_def recovered_run_def)

section \<open>Wake-ups\<close>

lemma send_wakes_eq: "send_wakes n pending = (if 0 < n \<and> pending < 1 then 1 else pending)"
  by (induction n arbitrary: pending) auto

text \<open>The notifications a connection delivered before it broke.\<close>

fun delivered :: "listen_conn \<Rightarrow> nat" where
  "delivered (Delivers n _) = n"
| "delivered _ = 0"

lemma listenOnce_pending:
  "snd (listenOnce conn pending) = (if 0 < delivered conn \<and> pending < 1 then 1 else pending)"
  by (cases conn) (auto simp: send_wakes_eq)

text \<open>The connections that were used: up to the first one before which the context was done.\<close>

definition used :: "(bool \<times> listen_conn \<times> bool) list \<Rightarrow> (bool \<times> listen_conn \<times> bool) list" where
  "used conns = takeWhile (\<lambda>(before, _, _). \<not> before) conns"

lemma listen_wakes:
  assumes "pending \<le> 1"
  shows "snd (listen conns pending) =
    (if pending = 1 \<or> (\<exists>c \<in> set (used conns). 0 < delivered (fst (snd c))) then 1 else 0)"
  using assms
proof (induction conns pending rule: listen.induct)
  case (1 pending)
  then show ?case by (auto simp: used_def)
next
  case (2 before conn after rest pending)
  show ?case
  proof (cases before)
    case True
    then show ?thesis using 2(2) by (auto simp: used_def)
  next
    case False
    obtain e p where once: "listenOnce conn pending = (e, p)" by fastforce
    have p: "p = (if 0 < delivered conn \<and> pending < 1 then 1 else pending)"
      using listenOnce_pending [of conn pending] once by simp
    have "snd (listen ((before, conn, after) # rest) pending) = snd (listen rest p)"
      using False once by (auto split: prod.splits run.splits)
    also have "\<dots> = (if p = 1 \<or> (\<exists>c \<in> set (used rest). 0 < delivered (fst (snd c))) then 1 else 0)"
      using 2(1) [OF False once [symmetric]] 2(2) p by auto
    finally show ?thesis using False p 2(2) by (auto simp: used_def)
  qed
qed

lemma wakes_le: "pending \<le> 1 \<Longrightarrow> snd (listen conns pending) \<le> 1"
  by (simp add: listen_wakes)

text \<open>One turn: a worker that receives the cancellation returns nil, and it returns nil on nothing else.\<close>

lemma worker_turn_done: "worker_goroutine fuel env cfg [WakeDone] w = (Return (Done None), w)"
  by (simp add: worker_goroutine_def recovered_run_def ret_go_run)

lemma worker_turn_nil:
  assumes "worker_goroutine fuel env cfg [x] w = (Return (Done None), w')"
  shows "x = WakeDone"
proof -
  have "worker fuel env cfg [x] w = (Return (Done None), w')"
    using assms by (auto simp: worker_goroutine_def recovered_run_def split: prod.splits res.splits)
  from worker_stops [OF this] show ?thesis by simp
qed

lemma listener_turn_done: "listener_goroutine [(True, conn, later)] pending = (Done None, pending)"
  by (simp add: listener_goroutine_def)

lemma listener_turn_result:
  "listener_goroutine [(b, conn, later)] pending = (r, p) \<Longrightarrow> (r = Done None \<and> b) \<or> (r = Running \<and> \<not> b)"
  by (cases b) (auto simp: listener_goroutine_def split: prod.splits)

section \<open>The group\<close>

lemma fail_once_sel [simp]:
  "sv_goroutines (fail_once err s) = sv_goroutines s" "sv_caller_done (fail_once err s) = sv_caller_done s"
  "sv_cancelled (fail_once err s) = (sv_cancelled s \<or> (err \<noteq> None \<and> sv_failure s = None))"
  "sv_failure (fail_once err s) = (case sv_failure s of None \<Rightarrow> err | Some e \<Rightarrow> Some e)"
  by (auto simp: fail_once_def split: option.splits)

lemma receive_sel [simp]:
  "sv_goroutines (receive x s) = sv_goroutines s" "sv_caller_done (receive x s) = sv_caller_done s"
  "sv_cancelled (receive x s) = sv_cancelled s" "sv_failure (receive x s) = sv_failure s"
  by (simp_all add: receive_def)

lemma turn_over_sel:
  "sv_goroutines (turn_over i g r s) = (sv_goroutines s)[i := (if r = Running then g else Returned)]"
  "sv_caller_done (turn_over i g r s) = sv_caller_done s"
  "sv_cancelled (turn_over i g r s) = (sv_cancelled s \<or> (\<exists>e. r = Done (Some e)) \<and> sv_failure s = None)"
  "sv_failure (turn_over i g r s) = (case (sv_failure s, r) of (None, Done err) \<Rightarrow> err | (f, _) \<Rightarrow> f)"
  by (auto simp: turn_over_def split: run.splits option.splits)

text \<open>What a goroutine can report: an error its own code returned, or a recovered panic.\<close>

definition reported :: "(nat \<Rightarrow> env) \<Rightarrow> settings \<Rightarrow> goerr \<Rightarrow> bool" where
  "reported envs cfg e \<longleftrightarrow>
     (\<exists>i fuel x w w'. worker_goroutine fuel (envs i) cfg [x] w = (Return (Done (Some e)), w')) \<or>
     (\<exists>v. e = PanicError v)"

text \<open>
  The invariant: an ended goroutine has seen the cancellation or caused it, and the context is
  cancelled exactly when the caller did it or a failure was reported.
\<close>

definition group_ok :: "(nat \<Rightarrow> env) \<Rightarrow> settings \<Rightarrow> nat \<Rightarrow> supervisor \<Rightarrow> bool" where
  "group_ok envs cfg n s \<longleftrightarrow>
     length (sv_goroutines s) = n \<and> (Returned \<in> set (sv_goroutines s) \<longrightarrow> sv_cancelled s) \<and>
     (sv_cancelled s \<longleftrightarrow> sv_caller_done s \<or> sv_failure s \<noteq> None) \<and>
     (\<forall>e. sv_failure s = Some e \<longrightarrow> reported envs cfg e)"

lemma group_ok_start:
  "group_ok envs cfg (length (goroutines cfg pool views)) (Run_start cfg pool views done)"
  by (auto simp: group_ok_def Run_start_def goroutines_def)

text \<open>A turn keeps the invariant when it ends its goroutine only on cancellation or with an error it reports.\<close>

lemma group_ok_turn:
  assumes "group_ok envs cfg n s" and "g \<noteq> Returned" and "r = Done None \<Longrightarrow> sv_cancelled s"
    and "\<And>e. r = Done (Some e) \<Longrightarrow> reported envs cfg e"
  shows "group_ok envs cfg n (turn_over i g r s)"
proof -
  have "Returned \<in> set ((sv_goroutines s)[i := h]) \<Longrightarrow> Returned \<in> set (sv_goroutines s) \<or> h = Returned" for h
    using set_update_subset_insert [of "sv_goroutines s" i h] by auto
  then show ?thesis
    using assms unfolding group_ok_def turn_over_sel
    by (cases r rule: run.exhaust; cases "sv_failure s") (auto split: option.splits if_splits)
qed

lemma group_ok_wake:
  "group_ok envs cfg n (receive x s) = group_ok envs cfg n s"
  "group_ok envs cfg n (s\<lparr>sv_pending := p\<rparr>) = group_ok envs cfg n s"
  unfolding group_ok_def by simp_all

lemma group_ok_step: "run_step envs cfg s s' \<Longrightarrow> group_ok envs cfg n s \<Longrightarrow> group_ok envs cfg n s'"
proof (induction rule: run_step.induct)
  case (caller_cancels s)
  then show ?case by (auto simp: group_ok_def)
next
  case (worker_turn i s w x fuel r w')
  show ?case
  proof (rule group_ok_turn [OF group_ok_wake(1) [THEN iffD2, OF worker_turn(5)]])
    show "sv_cancelled (receive x s)" if "r = Done None"
      using worker_turn_nil [OF worker_turn(4) [unfolded that]] worker_turn(3) by simp
    show "reported envs cfg e" if "r = Done (Some e)" for e
      using worker_turn(4) that unfolding reported_def by blast
  qed simp
next
  case (listener_turn i s conn later r pending)
  from listener_turn_result [OF listener_turn(3)] show ?case
    by (intro group_ok_turn [OF group_ok_wake(2) [THEN iffD2, OF listener_turn(4)]]) auto
next
  case (listener_panics i s v)
  then show ?case by (intro group_ok_turn) (auto simp: reported_def)
qed

lemma group_ok_steps:
  "(run_step envs cfg)\<^sup>*\<^sup>* s s' \<Longrightarrow> group_ok envs cfg n s \<Longrightarrow> group_ok envs cfg n s'"
  by (induction rule: rtranclp_induct) (auto intro: group_ok_step)

lemma failure_kept_step: "run_step envs cfg s s' \<Longrightarrow> sv_failure s = Some e \<Longrightarrow> sv_failure s' = Some e"
  by (induction rule: run_step.induct) (auto simp: turn_over_sel)

lemma failure_kept: "(run_step envs cfg)\<^sup>*\<^sup>* s s' \<Longrightarrow> sv_failure s = Some e \<Longrightarrow> sv_failure s' = Some e"
  by (induction rule: rtranclp_induct) (auto intro: failure_kept_step)

text \<open>Once cancelled, every goroutine that still runs has a turn that ends it without an error.\<close>

lemma ending_turn:
  assumes "sv_cancelled s" and "i < length (sv_goroutines s)" and "sv_goroutines s ! i \<noteq> Returned"
  shows "run_step envs cfg s (s\<lparr>sv_goroutines := (sv_goroutines s)[i := Returned]\<rparr>)"
proof (cases "sv_goroutines s ! i")
  case Listening
  have "listener_goroutine [(sv_cancelled s, conn, later)] (sv_pending s) = (Done None, sv_pending s)" for conn later
    using assms(1) by (simp add: listener_turn_done)
  from run_step.listener_turn [OF assms(2) Listening this, of envs cfg] show ?thesis
    by (simp add: turn_over_def fail_once_def)
next
  case (Working w)
  have "can_receive s WakeDone" using assms(1) by simp
  from run_step.worker_turn [OF assms(2) Working this worker_turn_done] show ?thesis
    by (simp add: turn_over_def fail_once_def receive_def)
qed (use assms(3) in simp)

lemma group_finishes:
  assumes "sv_cancelled s"
  shows "\<exists>s'. (run_step envs cfg)\<^sup>*\<^sup>* s s' \<and> Run_returns s' = Some (sv_failure s)"
  using assms
proof (induction "length (filter (\<lambda>g. g \<noteq> Returned) (sv_goroutines s))" arbitrary: s rule: less_induct)
  case less
  show ?case
  proof (cases "list_all (\<lambda>g. g = Returned) (sv_goroutines s)")
    case True
    then show ?thesis by (intro exI [of _ s]) (simp add: Run_returns_def)
  next
    case False
    then obtain i where i: "i < length (sv_goroutines s)" "sv_goroutines s ! i \<noteq> Returned"
      by (auto simp: list_all_length)
    let ?t = "s\<lparr>sv_goroutines := (sv_goroutines s)[i := Returned]\<rparr>"
    have split: "sv_goroutines s = take i (sv_goroutines s) @ sv_goroutines s ! i # drop (Suc i) (sv_goroutines s)"
      using i(1) by (rule id_take_nth_drop)
    have "length (filter (\<lambda>g. g \<noteq> Returned) (sv_goroutines ?t)) < length (filter (\<lambda>g. g \<noteq> Returned) (sv_goroutines s))"
      using i by (subst (2) split) (simp add: upd_conv_take_nth_drop)
    from less.hyps [OF this] obtain s' where
      "(run_step envs cfg)\<^sup>*\<^sup>* ?t s'" "Run_returns s' = Some (sv_failure s)"
      using less.prems by auto
    then show ?thesis
      using ending_turn [OF less.prems i, of envs cfg] by (blast intro: converse_rtranclp_into_rtranclp)
  qed
qed

text \<open>With the default classifier only an abort or a panic is ever reported.\<close>

lemma reported_stopper:
  assumes "\<forall>i. public_env (envs i)" and "s_Fatal cfg = Some neverFatal" and "reported envs cfg e"
  shows "has_as is_abort e \<or> has_as is_panic e"
  using assms(3) unfolding reported_def
proof
  assume "\<exists>i fuel x w w'. worker_goroutine fuel (envs i) cfg [x] w = (Return (Done (Some e)), w')"
  then show ?thesis using worker_goroutine_stopper assms(1,2) unfolding stopper_def by metis
next
  assume "\<exists>v. e = PanicError v"
  then show ?thesis by (auto intro: has_as_self)
qed

text \<open>The wake channel never holds more than one signal.\<close>

lemma wake_channel_step: "run_step envs cfg s s' \<Longrightarrow> sv_pending s \<le> 1 \<Longrightarrow> sv_pending s' \<le> 1"
proof (induction rule: run_step.induct)
  case (listener_turn i s conn later r pending)
  then have "pending = snd (listen [(sv_cancelled s, conn, later)] (sv_pending s))"
    by (auto simp: listener_goroutine_def split: prod.splits run.splits)
  then have "pending \<le> 1" using wakes_le [OF listener_turn(4)] by (simp only:)
  then show ?case by (auto simp: turn_over_def fail_once_def split: run.splits option.splits)
qed (auto simp: turn_over_def fail_once_def receive_def split: run.splits option.splits)

section \<open>The facade\<close>

lemma Run_collect_first:
  "Run_collect errs (None, c) = (first_some errs, c \<or> (\<exists>e \<in> set errs. e \<noteq> None))"
proof -
  have kept: "Run_collect errs (Some e, c) = (Some e, c)" for errs e c
    by (induction errs) auto
  show ?thesis
  proof (induction errs)
    case (Cons e errs)
    then show ?case by (cases e) (auto simp: kept)
  qed simp
qed

lemma Outbox_Run_first:
  "Outbox_Run r1 r2 ctx_err = first_some [r1, r2, ctx_err]"
  by (cases r1; cases r2; cases ctx_err) (simp_all add: Outbox_Run_def)

end
