(* ===== verification/Facade.thy ===== *)
theory Facade
  imports Intake Supervision
begin

text \<open>
  Construction: which arguments \<open>New\<close> accepts, and that an accepted schema cannot break out of
  the quoted identifier every statement interpolates.
\<close>

lemma ident_char_quote: "ident_char c \<Longrightarrow> quote_char c = [c] \<and> c \<le> CHR 0x7F"
proof -
  have "\<forall>c \<in> set (Enum.enum :: char list). ident_char c \<longrightarrow> quote_char c = [c] \<and> c \<le> CHR 0x7F"
    by code_simp
  then show "ident_char c \<Longrightarrow> quote_char c = [c] \<and> c \<le> CHR 0x7F"
    by (simp add: enum_UNIV del: quote_char.simps)
qed

lemma ValidSchema_quote:
  assumes "ValidSchema s"
  shows "go_quote s = Some (CHR ''\"'' # s @ [CHR ''\"''])"
proof -
  have "concat (map quote_char s) = s" "list_all (\<lambda>c. c \<le> CHR 0x7F) s"
    using ident_char_quote ValidSchema_chars [OF assms]
    by (induction s) (simp_all del: quote_char.simps)
  then show ?thesis by (simp add: go_quote_def)
qed

lemma ValidSchema_no_quote: "ValidSchema s \<Longrightarrow> CHR ''\"'' \<notin> set s"
  using ValidSchema_chars [of s "CHR ''\"''"] by (auto simp: ident_char_def ident_start_def)

lemma Resolve_runnable: "runnable (Resolve raw b hostname opts)"
  unfolding Resolve_def by (rule normalize_runnable)

lemma New_accepts:
  assumes "New raw b hostname exec enq opts = Inr ob"
  shows "ob_set ob = Resolve raw b hostname opts" and "ValidSchema (s_Schema (ob_set ob))"
    and "exec \<noteq> None" and "st_exec (ob_store ob) = exec" and "st_enq (ob_store ob) = enq"
    and "st_table (ob_store ob) = Some (CHR ''\"'' # s_Schema (ob_set ob) @ CHR ''\"'' # ''.'' @ TableName)"
    and "st_pool (ob_store ob) =
      (case s_ListenPool (ob_set ob) of Some p \<Rightarrow> Some p | None \<Rightarrow> pool_of (the exec))"
  using assms by (auto simp: New_def Let_def NewStore_def ValidSchema_quote split: if_splits option.splits)

lemma New_rejects_iff:
  "New raw b hostname exec enq opts = Inl e \<longleftrightarrow>
     (if ValidSchema (s_Schema (Resolve raw b hostname opts)) then exec = None \<and> e = ErrNoExecutor
      else e = ErrInvalidSchema)"
  by (auto simp: New_def Let_def split: option.splits)

end
