(* ===== verification/Migrations.thy ===== *)
theory Migrations
  imports Steps
begin

text \<open>
  The migrations of \<^verbatim>\<open>migrations/\<close>: \<open>Up\<close>, which lists them in order, and what the delivery
  control migration makes of the rows an older version left behind.
\<close>

section \<open>The list of migrations\<close>

text \<open>The embedded directory is a parameter: what \<open>fs.ReadDir\<close> and \<open>ReadFile\<close> answer.\<close>

record embed_fs =
  fs_ReadDir :: "goerr + string list"
  fs_ReadFile :: "string \<Rightarrow> goerr + string"

definition has_suffix :: "string \<Rightarrow> string \<Rightarrow> bool" where
  "has_suffix s suffix \<longleftrightarrow>
     length suffix \<le> length s \<and> drop (length s - length suffix) s = suffix"

fun read_all :: "embed_fs \<Rightarrow> string list \<Rightarrow> string list res" where
  "read_all fsys [] = Return []"
| "read_all fsys (n # ns) =
     (case fs_ReadFile fsys n of
        Inl err \<Rightarrow> Panic (Inl err)
      | Inr b \<Rightarrow> map_res (Cons b) (read_all fsys ns))"

definition Up :: "embed_fs \<Rightarrow> string list res" where
  "Up fsys =
     (case fs_ReadDir fsys of
        Inl err \<Rightarrow> Panic (Inl err)
      | Inr entries \<Rightarrow> read_all fsys (sort (filter (\<lambda>n. has_suffix n ''.sql'') entries)))"

text \<open>With a readable directory the migrations come in the order of their names; else \<open>Up\<close> panics.\<close>

lemma read_all_Return_iff: "read_all fsys ns = Return bs \<longleftrightarrow> map (fs_ReadFile fsys) ns = map Inr bs"
proof (induction ns arbitrary: bs)
  case (Cons n ns)
  show ?case
    using Cons.IH
    by (cases "fs_ReadFile fsys n"; cases bs) (auto simp: map_res_Return_iff)
qed auto

lemma Up_Return_iff:
  "Up fsys = Return bs \<longleftrightarrow>
     (\<exists>entries. fs_ReadDir fsys = Inr entries \<and>
       map (fs_ReadFile fsys) (sort (filter (\<lambda>n. has_suffix n ''.sql'') entries)) = map Inr bs)"
  by (auto simp: Up_def read_all_Return_iff split: sum.splits)

section \<open>Rows of an older version\<close>

text \<open>
  \<^verbatim>\<open>0002_delivery_control.sql\<close> adds \<open>lease_token\<close> and \<open>finished_at\<close> as NULL and then dates the
  terminal rows.
\<close>

definition old_row :: "row \<Rightarrow> bool" where
  "old_row r \<longleftrightarrow> r_lease_token r = None \<and> r_finished_at r = None"

definition migrate_0002 :: "int \<Rightarrow> row \<Rightarrow> row" where
  "migrate_0002 now r =
     (if terminal (r_status r) \<and> r_finished_at r = None
      then r\<lparr>r_finished_at := Some (case r_published_at r of Some t \<Rightarrow> t | None \<Rightarrow> now)\<rparr> else r)"

text \<open>What an older relay left of a row that is not being processed.\<close>

definition old_row_ok :: "row \<Rightarrow> bool" where
  "old_row_ok r \<longleftrightarrow> old_row r \<and> 0 \<le> r_attempts r \<and> jsonb_ok (r_headers r) \<and>
     (case r_status r of
        StatusPending \<Rightarrow> unlocked r \<and> r_published_at r = None
      | StatusProcessing \<Rightarrow> False
      | StatusPublished \<Rightarrow> unlocked r \<and> r_published_at r \<noteq> None \<and> 1 \<le> r_attempts r
      | _ \<Rightarrow> unlocked r \<and> r_published_at r = None \<and> 1 \<le> r_attempts r)"

lemma migrate_0002_row_ok: "old_row_ok r \<Longrightarrow> row_ok (migrate_0002 now r)"
  by (cases "r_status r") (auto simp: old_row_ok_def old_row_def migrate_0002_def row_ok_def unlocked_def terminal_def)

text \<open>
  \<^verbatim>\<open>0003_insert_order.sql\<close> adds the serial column \<open>seq\<close>: existing rows get the values 1, 2, ... in
  physical order; the result is the table and the next value of the sequence.
\<close>

fun number_rows :: "int \<Rightarrow> row list \<Rightarrow> row list" where
  "number_rows n [] = []"
| "number_rows n (r # rs) = r\<lparr>r_seq := n\<rparr> # number_rows (n + 1) rs"

definition migrate_0003 :: "row list \<Rightarrow> row list \<times> int" where
  "migrate_0003 tbl = (number_rows 1 tbl, 1 + int (length tbl))"

definition upgraded :: "int \<Rightarrow> row list \<Rightarrow> database" where
  "upgraded now tbl =
     (let (tbl', seq) = migrate_0003 (map (migrate_0002 now) tbl)
      in \<lparr>d_rows = tbl', d_seq = seq, d_uuid = 0, d_notified = 0\<rparr>)"

lemma number_rows_seqs: "map r_seq (number_rows n tbl) = map (\<lambda>k. n + int k) [0..<length tbl]"
proof (induction tbl arbitrary: n)
  case (Cons r tbl)
  have "[0..<length (r # tbl)] = 0 # map Suc [0..<length tbl]"
    by (simp add: map_Suc_upt upt_conv_Cons del: upt_Suc)
  then show ?case using Cons.IH [of "n + 1"] by (simp add: comp_def algebra_simps)
qed simp

lemma number_rows_rows: "list_all2 (\<lambda>r r'. \<exists>n. r' = r\<lparr>r_seq := n\<rparr>) tbl (number_rows n tbl)"
  by (induction tbl arbitrary: n) auto

lemma number_rows_ids: "map r_id (number_rows n tbl) = map r_id tbl"
  by (induction tbl arbitrary: n) auto

lemma row_ok_seq [simp]: "row_ok (r\<lparr>r_seq := n\<rparr>) = row_ok r"
  by (simp add: row_ok_def unlocked_def cong: status.case_cong)

lemma migrate_0002_sel [simp]:
  "r_id (migrate_0002 now r) = r_id r" "r_lease_token (migrate_0002 now r) = r_lease_token r"
  "r_status (migrate_0002 now r) = r_status r"
  by (simp_all add: migrate_0002_def)

lemma upgraded_row:
  assumes "r' \<in> set (d_rows (upgraded now tbl))"
  shows "\<exists>r \<in> set tbl. \<exists>n. r' = (migrate_0002 now r)\<lparr>r_seq := n\<rparr>"
proof -
  have "r' \<in> set (number_rows 1 (map (migrate_0002 now) tbl))"
    using assms by (simp add: upgraded_def migrate_0003_def)
  then show ?thesis
    using list_all2_in_set2 [OF number_rows_rows [of "map (migrate_0002 now) tbl" 1]] by auto
qed

lemma upgraded_ok:
  assumes "distinct (map r_id tbl)" and "\<forall>r \<in> set tbl. old_row_ok r"
  shows "db_ok gen (upgraded now tbl)"
proof -
  let ?tbl = "number_rows 1 (map (migrate_0002 now) tbl)"
  have rows: "d_rows (upgraded now tbl) = ?tbl" and seq: "d_seq (upgraded now tbl) = 1 + int (length tbl)"
    by (simp_all add: upgraded_def migrate_0003_def)
  have seqs: "map r_seq ?tbl = map (\<lambda>k. 1 + int k) [0..<length tbl]"
    by (simp add: number_rows_seqs)
  have "distinct (map r_id ?tbl)"
    using assms(1) by (simp add: number_rows_ids comp_def)
  moreover have "distinct (map r_seq ?tbl)"
    unfolding seqs by (simp add: distinct_map inj_on_def)
  moreover have "r_seq r' < 1 + int (length tbl)" if "r' \<in> set ?tbl" for r'
  proof -
    have "r_seq r' \<in> set (map r_seq ?tbl)" using that by simp
    then show ?thesis unfolding seqs by auto
  qed
  moreover have "jsonb_ok (r_headers r')" if "r' \<in> set ?tbl" for r'
    using upgraded_row [of r' now tbl] that assms(2)
    by (auto simp: rows old_row_ok_def migrate_0002_def)
  moreover have "row_ok r' \<and> r_lease_token r' = None" if "r' \<in> set ?tbl" for r'
    using upgraded_row [of r' now tbl] that assms(2) migrate_0002_row_ok
    by (auto simp: rows old_row_ok_def old_row_def)
  ultimately show ?thesis unfolding db_ok_def rows seq by auto
qed

section \<open>Properties\<close>

text \<open>C39. Upgrading: when no relay is processing a row any more, the table as the delivery control
  and insert order migrations leave it satisfies the whole invariant of the new protocol; a row
  that was left in flight after all cannot be completed or renewed by anyone, and is claimed
  again once its old lease has run out.\<close>

theorem upgrade_safe:
  assumes "distinct (map r_id tbl)" and "\<forall>r \<in> set tbl. old_row r"
  shows "((\<forall>r \<in> set tbl. old_row_ok r) \<longrightarrow> db_ok gen (upgraded now tbl)) \<and>
    (\<forall>r' \<in> set (d_rows (upgraded now tbl)). r_status r' = StatusProcessing \<longrightarrow>
      \<not> owned keys clk r' \<and>
      (r_next_attempt_at r' \<le> t \<and> lt_null (r_locked_until r') t \<longrightarrow> claimable t r'))"
proof (intro conjI impI ballI)
  show "db_ok gen (upgraded now tbl)" if "\<forall>r \<in> set tbl. old_row_ok r"
    using upgraded_ok [OF assms(1) that] .
next
  fix r' assume r': "r' \<in> set (d_rows (upgraded now tbl))" "r_status r' = StatusProcessing"
  then obtain r n where "r \<in> set tbl" "r' = (migrate_0002 now r)\<lparr>r_seq := n\<rparr>"
    using upgraded_row by blast
  then have "r_lease_token r' = None" using assms(2) by (auto simp: old_row_def)
  then show "\<not> owned keys clk r'" by (simp add: owned_def)
next
  fix r' :: row assume "r_status r' = StatusProcessing" "r_next_attempt_at r' \<le> t \<and> lt_null (r_locked_until r') t"
  then show "claimable t r'" by (simp add: claimable_def)
qed

definition old_dead :: row where
  "old_dead = \<lparr>r_id = ''a'', r_topic = ''t'', r_partition_key = None, r_payload = ''p'', r_headers = [],
     r_content_type = None, r_message_type = None, r_status = StatusDead, r_attempts = 3,
     r_max_attempts = None, r_locked_by = None, r_locked_until = None, r_next_attempt_at = 5,
     r_last_error = None, r_created_at = 1, r_published_at = None, r_lease_token = None,
     r_finished_at = None, r_seq = 1\<rparr>"

theorem upgrade_safe_witness: "db_ok (\<lambda>n. replicate n CHR ''u'') (upgraded 9 [old_dead]) \<and>
  map (\<lambda>r. (r_seq r, r_finished_at r)) (d_rows (upgraded 9 [old_dead])) = [(1, Some 9)]"
proof
  have "old_row old_dead" by (simp add: old_row_def old_dead_def)
  moreover have "old_row_ok old_dead" by (simp add: old_row_ok_def old_row_def old_dead_def unlocked_def jsonb_ok_def)
  ultimately show "db_ok (\<lambda>n. replicate n CHR ''u'') (upgraded 9 [old_dead])"
    using upgrade_safe [of "[old_dead]" "\<lambda>n. replicate n CHR ''u''" 9] by simp
  show "map (\<lambda>r. (r_seq r, r_finished_at r)) (d_rows (upgraded 9 [old_dead])) = [(1, Some 9)]"
    by code_simp
qed

end
