(* ===== verification/Sample.thy ===== *)
theory Sample
  imports Delivery Retention Facade Migrations
begin

text \<open>
  A concrete deployment on which the hypotheses of the properties are checked: one relay, a
  table with three due rows (one of them a stalled attempt of another instance), a
  database that answers, and publishers that acknowledge, fail or abort.
\<close>

definition sample_gen :: "nat \<Rightarrow> string" where
  "sample_gen k = replicate k CHR ''t''"

definition sample_env :: env where
  "sample_env =
     \<lparr>e_call = (\<lambda>_. CallOk), e_now = (\<lambda>_. 100), e_clk = (\<lambda>_. 100), e_gen = sample_gen,
      e_uuid_in = Some, e_text_ok = (\<lambda>_. True), e_sql_error = Plain ''sql'', e_interval = (\<lambda>d. d),
      e_others = (\<lambda>_ d. d), e_locked = (\<lambda>_ _. False), e_returning = (\<lambda>_ rows. rows),
      e_done = (\<lambda>_. False), e_publish = (\<lambda>_ _. Return None), e_beats = (\<lambda>_. []),
      e_hook = (\<lambda>_. None)\<rparr>"

definition sample_cfg :: settings where
  "sample_cfg = (Default (\<lambda>_. 0))
     \<lparr>s_InstanceID := ''relay'', s_BatchSize := 2, s_MaxAttempts := 2, s_LeaseDuration := 30,
      s_Backoff := Some (\<lambda>_ _. Return 0), s_Retention := 10, s_CleanupInterval := 1\<rparr>"

definition sample_row :: "string \<Rightarrow> int \<Rightarrow> row" where
  "sample_row i n =
     \<lparr>r_id = i, r_topic = ''orders'', r_partition_key = Some ''k'', r_payload = ''p'', r_headers = [],
      r_content_type = None, r_message_type = None, r_status = StatusPending, r_attempts = 0,
      r_max_attempts = None, r_locked_by = None, r_locked_until = None, r_next_attempt_at = n,
      r_last_error = None, r_created_at = n, r_published_at = None, r_lease_token = None,
      r_finished_at = None, r_seq = n\<rparr>"

definition sample_db :: database where
  "sample_db =
     \<lparr>d_rows = [(sample_row ''a'' 1)\<lparr>r_status := StatusProcessing, r_attempts := 1, r_locked_by := Some ''gone'',
                   r_locked_until := Some 50, r_lease_token := Some ''t''\<rparr>,
                sample_row ''b'' 2, sample_row ''c'' 3],
      d_seq = 4, d_uuid = 2, d_notified = 0\<rparr>"

definition sample_world :: world where
  "sample_world = \<lparr>w_db = sample_db, w_tick = 0, w_log = []\<rparr>"

definition sample_after :: world where
  "sample_after = snd (processBatch sample_env sample_cfg sample_world)"

lemma sample_batch: "processBatch sample_env sample_cfg sample_world = (Return (2, None), sample_after)"
  by (rule prod_eqI) (code_simp, simp add: sample_after_def)

lemma sample_env_sel [simp]:
  "e_call sample_env n = CallOk" "e_uuid_in sample_env = Some" "e_text_ok sample_env s" "e_gen sample_env = sample_gen"
  "e_others sample_env n d = d" "e_returning sample_env n rows = rows" "e_done sample_env n = False"
  "e_hook sample_env n = None" "e_clk sample_env n = 100" "e_now sample_env n = 100"
  "e_locked sample_env n i = False"
  by (simp_all add: sample_env_def)

lemma sample_alone [simp]: "alone sample_env"
  by (simp add: alone_def)

lemma sample_returning [simp]: "returning_ok sample_env"
  by (simp add: returning_ok_def)

lemma sample_others [simp]: "others_within L sample_env"
  by (simp add: others_within_def)

lemma sample_uuid [simp]: "uuid_ok sample_env d"
  by (simp add: uuid_ok_def)

lemma sample_canonical [simp]: "canonical sample_env msgs"
  by (simp add: canonical_def)

lemma sample_inj [simp]: "inj sample_gen"
  by (rule injI) (metis length_replicate sample_gen_def)

lemma sample_world_sel [simp]: "w_db sample_world = sample_db" "w_tick sample_world = 0"
  by (simp_all add: sample_world_def)

lemma sample_db_ids [simp]: "distinct (map r_id (d_rows sample_db))"
  by code_simp

lemma sample_db_ok [simp]: "db_ok sample_gen sample_db"
proof -
  have "issued sample_gen sample_db ''t''"
    unfolding issued_def by (intro exI [of _ 1]) (simp add: sample_db_def sample_gen_def)
  then show ?thesis
    by (simp add: db_ok_def sample_db_def sample_row_def row_ok_def unlocked_def jsonb_ok_def)
qed

end
