(* ===== verification/Ordering.thy ===== *)
theory Ordering
  imports Engine_Steps
begin

text \<open>
  Ordered mode as a property of the whole system: when every relay claims in ordered mode and
  transactions commit in the order they began, the rows of one partition key are in turn, that
  is, whatever has an unsettled row before it is still pending. The second assumption is
  needed: a transaction that began earlier and commits later overtakes.
\<close>

section \<open>Rows in turn\<close>

definition in_turn :: "row list \<Rightarrow> bool" where
  "in_turn tbl \<longleftrightarrow>
     (\<forall>e \<in> set tbl. \<forall>r \<in> set tbl. holds_back e r \<longrightarrow> r_status r = StatusPending)"

text \<open>The steps of such a system: ordered claims, and inserts that come after every stored row.\<close>

inductive ordered_step :: "(nat \<Rightarrow> string) \<Rightarrow> label \<Rightarrow> database \<Rightarrow> database \<Rightarrow> bool" for gen where
  ordered_insert: "sql_insert gen now (d_uuid d) (d_seq d) vs (d_rows d) = (tbl, k, s) \<Longrightarrow>
    \<forall>v \<in> set vs. jsonb_ok (v_headers v) \<Longrightarrow>
    \<forall>r \<in> set (d_rows d). r_created_at r \<le> now \<Longrightarrow>
    ordered_step gen LInsert d
      (d\<lparr>d_rows := tbl, d_uuid := k, d_seq := s, d_notified := Suc (d_notified d)\<rparr>)"
| ordered_claim: "sql_claim gen (d_uuid d) now locked True inst until batch (d_rows d) = (tbl, out, k) \<Longrightarrow>
    ordered_step gen LClaim d (d\<lparr>d_rows := tbl, d_uuid := k\<rparr>)"
| ordered_other: "db_step gen l d d' \<Longrightarrow> l \<notin> {LInsert, LClaim} \<Longrightarrow> ordered_step gen l d d'"

lemma ordered_step_db: "ordered_step gen l d d' \<Longrightarrow> db_step gen l d d'"
  by (induction rule: ordered_step.induct) (auto intro: step_insert step_claim)

text \<open>A row that is still pending after its life went on has not been touched, or was claimed.\<close>

lemma lifecycle_pending:
  "lifecycle l r r' \<Longrightarrow> r_status r = StatusPending \<Longrightarrow> r_status r' \<noteq> StatusPending \<Longrightarrow> l = LClaim"
  by (induction rule: lifecycle.induct) (auto dest: owned_status)

lemma holds_back_backward:
  assumes "lifecycle l e e'" and "lifecycle l r r'" and "holds_back e' r'"
  shows "holds_back e r"
proof -
  note same = lifecycle_origin [OF assms(1)] lifecycle_origin [OF assms(2)]
  note order = same_origin_order [OF same(1)] same_origin_order [OF same(2)]
  have "r_status e \<noteq> StatusPublished \<and> r_status e \<noteq> StatusDiscarded"
    using assms(3) lifecycle_settled [OF assms(1)] by (auto simp: holds_back_def)
  moreover have "row_order e' = row_order e" "row_order r' = row_order r"
    "r_partition_key e' = r_partition_key e" "r_partition_key r' = r_partition_key r"
    using same order by (simp_all add: same_origin_def)
  ultimately show ?thesis
    using assms(3) unfolding holds_back_def by simp
qed

lemma db_step_old:
  assumes "db_step gen l d d'" and "l \<noteq> LInsert" and "distinct (map r_id (d_rows d))" and "r' \<in> set (d_rows d')"
  shows "\<exists>r \<in> set (d_rows d). lifecycle l r r'"
proof -
  have "d_seq d' = d_seq d" using assms(1,2) by (induction rule: db_step.cases) simp_all
  then show ?thesis using db_step_backward [OF assms(1,3,4)] by auto
qed

lemma fresh_comes_last:
  assumes "r_created_at r \<le> now" and "r_seq r < s"
  shows "row_order r < row_order (fresh_row ident now s v)"
  using assms by (auto simp: row_order_def fresh_row_def)

lemma in_turn_insert:
  assumes "sql_insert gen now k s0 vs tbl = (tbl', k', s)" and "\<forall>r \<in> set tbl. r_created_at r \<le> now"
    and "\<forall>r \<in> set tbl. r_seq r < s0" and "in_turn tbl"
  shows "in_turn tbl'"
  unfolding in_turn_def
proof (intro ballI impI)
  obtain new where tbl': "tbl' = tbl @ new"
    and new: "\<forall>r \<in> set new. \<exists>ident s' v. r = fresh_row ident now s' v \<and> s0 \<le> s' \<and> s' < s"
    using sql_insert_spec [OF assms(1)] by blast
  fix e r assume e: "e \<in> set tbl'" and r: "r \<in> set tbl'" and held: "holds_back e r"
  have fresh: "r_status x = StatusPending \<and> (\<forall>y \<in> set tbl. row_order y < row_order x)" if "x \<in> set new" for x
  proof -
    obtain ident s' v where x: "x = fresh_row ident now s' v" "s0 \<le> s'" using new \<open>x \<in> set new\<close> by blast
    have "row_order y < row_order x" if "y \<in> set tbl" for y
      unfolding x(1) using assms(2,3) that x(2) by (intro fresh_comes_last) force+
    then show ?thesis by (simp add: x(1) fresh_row_def)
  qed
  show "r_status r = StatusPending"
  proof (cases "r \<in> set new")
    case False
    then have r: "r \<in> set tbl" using r tbl' by simp
    have "row_order e < row_order r" using held by (simp add: holds_back_def)
    then have "e \<notin> set new" using fresh r by (meson order_less_asym)
    then show ?thesis using assms(4) e r held tbl' by (auto simp: in_turn_def)
  qed (use fresh in blast)
qed

lemma in_turn_claim:
  assumes "sql_claim gen k now locked True inst until batch tbl = (tbl', out, k')"
    and "distinct (map r_id tbl)" and "in_turn tbl"
  shows "in_turn tbl'"
  unfolding in_turn_def
proof (intro ballI impI)
  let ?p = "claim_pick True batch now locked tbl"
  have old: "\<exists>x \<in> set tbl. lifecycle LClaim x x' \<and> (x \<in> set ?p \<or> x' = x)" if "x' \<in> set tbl'" for x'
    by (rule sql_claim_rows [OF assms(2,1) that])
      (auto split: if_splits intro: claimed unchanged dest: claim_pickD(2))
  fix e' r' assume "e' \<in> set tbl'" "r' \<in> set tbl'" and held: "holds_back e' r'"
  then obtain e r where e: "e \<in> set tbl" "lifecycle LClaim e e'"
    and r: "r \<in> set tbl" "lifecycle LClaim r r'" "r \<in> set ?p \<or> r' = r"
    using old by meson
  have "holds_back e r" using holds_back_backward [OF e(2) r(2) held] .
  then have "r \<notin> set ?p" and "r_status r = StatusPending"
    using e(1) r(1) claim_pickD(4) [of r True] assms(3)
    by (auto simp: held_back_def list_ex_iff in_turn_def)
  then show "r_status r' = StatusPending" using r(3) by simp
qed

lemma in_turn_step:
  assumes "ordered_step gen l d d'" and "db_ok gen d" and "in_turn (d_rows d)"
  shows "in_turn (d_rows d')"
  using assms
proof (induction rule: ordered_step.cases)
  case (ordered_insert now d vs tbl k s)
  then show ?case using in_turn_insert by (auto simp: db_ok_def)
next
  case (ordered_claim d now locked inst until batch tbl out k)
  then show ?case using in_turn_claim by (auto simp: db_ok_def)
next
  case (ordered_other l d d')
  have dis: "distinct (map r_id (d_rows d))" using ordered_other by (simp add: db_ok_def)
  have old: "\<exists>x \<in> set (d_rows d). lifecycle l x x'" if "x' \<in> set (d_rows d')" for x'
    using db_step_old [OF ordered_other(4) _ dis that] ordered_other(5) by blast
  show ?case
    unfolding in_turn_def ordered_other(3)
  proof (intro ballI impI)
    fix e' r' assume "e' \<in> set (d_rows d')" "r' \<in> set (d_rows d')" and held: "holds_back e' r'"
    then obtain e r where e: "e \<in> set (d_rows d)" "lifecycle l e e'"
      and r: "r \<in> set (d_rows d)" "lifecycle l r r'"
      using old by meson
    have "r_status r = StatusPending"
      using holds_back_backward [OF e(2) r(2) held] e(1) r(1) ordered_other(7,2) by (simp add: in_turn_def)
    then show "r_status r' = StatusPending"
      using lifecycle_pending [OF r(2)] ordered_other(5) by auto
  qed
qed

section \<open>The relays keep the rows in turn\<close>

definition turn_ok :: "(nat \<Rightarrow> string) \<Rightarrow> database \<Rightarrow> bool" where
  "turn_ok gen d \<longleftrightarrow> db_ok gen d \<and> in_turn (d_rows d)"

lemma turn_ok_step: "inj gen \<Longrightarrow> ordered_step gen l d d' \<Longrightarrow> turn_ok gen d \<Longrightarrow> turn_ok gen d'"
  unfolding turn_ok_def using in_turn_step db_step_ok ordered_step_db by metis

text \<open>The other sessions only make ordered steps.\<close>

definition others_in_order :: "env \<Rightarrow> bool" where
  "others_in_order env \<longleftrightarrow>
     (\<forall>n d. (\<lambda>d d'. \<exists>l. ordered_step (e_gen env) l d d')\<^sup>*\<^sup>* d (e_others env n d))"

lemma others_turn_ok:
  assumes "inj (e_gen env)" and "others_in_order env" and "turn_ok (e_gen env) d"
  shows "turn_ok (e_gen env) (e_others env n d)"
proof -
  have "(\<lambda>d d'. \<exists>l. ordered_step (e_gen env) l d d')\<^sup>*\<^sup>* d (e_others env n d)"
    using assms(2) by (simp add: others_in_order_def)
  then show ?thesis
    using assms(3) by (induction rule: rtranclp_induct) (auto intro: turn_ok_step [OF assms(1)])
qed

definition turn_frame :: "env \<Rightarrow> settings \<Rightarrow> database \<Rightarrow> database \<Rightarrow> bool" where
  "turn_frame env cfg d d' \<longleftrightarrow>
     (inj (e_gen env) \<and> s_Ordered cfg \<and> others_in_order env \<and> turn_ok (e_gen env) d \<longrightarrow>
      turn_ok (e_gen env) d')"

interpretation turn: db_frame "turn_frame env cfg" for env cfg
  by unfold_locales (auto simp: turn_frame_def)

lemma turn_exec_call:
  assumes "\<And>n d. s_Ordered cfg \<Longrightarrow> snd (stmt n d) = d \<or> (\<exists>l. ordered_step (e_gen env) l d (snd (stmt n d)))"
  shows "within (turn_frame env cfg) (exec_call env stmt)"
proof (rule turn.within_exec_call)
  show "turn_frame env cfg d (e_others env n d)" for n d
    by (simp add: turn_frame_def others_turn_ok)
  show "turn_frame env cfg d (snd (stmt n d))" for n d
    using assms [where n = n and d = d] turn_ok_step unfolding turn_frame_def by metis
qed

lemma finish_stmt_ordered:
  assumes "st \<noteq> StatusProcessing"
  shows "snd (finish_stmt env msgs st reason delay clear n d) = d \<or>
    (\<exists>l. ordered_step (e_gen env) l d (snd (finish_stmt env msgs st reason delay clear n d)))"
proof (cases "if arg_ok (e_text_ok env) (nullStr reason) then bind_keys env msgs else None")
  case (Some keys)
  obtain tbl out where fin: "sql_finish keys st (text_column reason) (e_clk env n)
      (e_clk env n + e_interval env delay) clear (d_rows d) = (tbl, out)" by fastforce
  from ordered_other [OF step_finish [OF assms fin]] show ?thesis
    using Some fin by (auto simp: finish_stmt_def)
qed (simp add: finish_stmt_def)

lemma renew_stmt_ordered:
  "snd (renew_stmt env msgs duration n d) = d \<or>
    (\<exists>l. ordered_step (e_gen env) l d (snd (renew_stmt env msgs duration n d)))"
proof (cases "bind_keys env msgs")
  case (Some keys)
  obtain tbl cnt where ren: "sql_renew keys (e_clk env n) (e_clk env n + e_interval env duration) (d_rows d)
      = (tbl, cnt)" by fastforce
  from ordered_other [OF step_renew [OF ren]] show ?thesis
    using Some ren by (auto simp: renew_stmt_def)
qed (simp add: renew_stmt_def)

lemma claim_stmt_ordered:
  "s_Ordered cfg \<Longrightarrow> snd (claim_stmt env cfg n d) = d \<or>
    ordered_step (e_gen env) LClaim d (snd (claim_stmt env cfg n d))"
  by (auto simp: claim_stmt_def split: prod.splits intro: ordered_claim)

interpretation relay_turn: relay_frame "turn_frame env cfg" env cfg for env cfg
proof unfold_locales
  show "within (turn_frame env cfg) (claim env cfg)"
    unfolding claim_def using claim_stmt_ordered by (blast intro: turn_exec_call)
  show "within (turn_frame env cfg) (renew env msgs duration)" for msgs duration
    unfolding renew_def
    by (intro turn.within_bind turn.within_ret turn_exec_call renew_stmt_ordered)
  show "within (turn_frame env cfg) (Store_finish env msgs st reason delay clear)"
    if "st \<noteq> StatusProcessing" for st msgs reason delay clear
    unfolding Store_finish_def
    by (cases "msgs = []")
      (simp_all add: turn.within_ret turn_exec_call [OF finish_stmt_ordered [OF that]])
qed

interpretation cleaner_turn: cleaner_frame "turn_frame env cfg" env cfg for env cfg
proof unfold_locales
  show "within (turn_frame env cfg) (Store_cleanup env cfg)"
    unfolding Store_cleanup_def
  proof (rule turn_exec_call)
    show "snd (cleanup_stmt env cfg n d) = d \<or>
        (\<exists>l. ordered_step (e_gen env) l d (snd (cleanup_stmt env cfg n d)))" for n d
      using ordered_other [OF cleanup_stmt_step [of env d cfg n]] by blast
  qed
qed

text \<open>What being in turn means for the rows in flight: at most one per key.\<close>

lemma in_turn_one_in_flight:
  assumes "turn_ok gen d" and "a \<in> set (d_rows d)" and "b \<in> set (d_rows d)"
    and "r_status a = StatusProcessing" and "r_status b = StatusProcessing"
    and "r_partition_key a = Some key" and "r_partition_key b = Some key"
  shows "a = b"
proof (rule ccontr)
  assume "a \<noteq> b"
  then have "r_seq a \<noteq> r_seq b"
    using assms(1-3) by (auto simp: turn_ok_def db_ok_def distinct_map dest: inj_onD)
  then have "holds_back a b \<or> holds_back b a"
    using row_order_neq [of a b] assms(4-7) by (auto simp: holds_back_def neq_iff)
  then show False using assms(1-5) by (auto simp: turn_ok_def in_turn_def)
qed

section \<open>Overtaking\<close>

text \<open>
  The order is that of the beginning of transactions. A row whose transaction began before that
  of the row in flight, and committed after it was claimed, is claimed beside it.
\<close>

lemma late_commit_claim:
  fixes v :: new_row
  assumes "d_rows d = [r]" and "r_status r = StatusProcessing" and "r_locked_until r = Some u" and "now \<le> u"
    and "v_id v = Some i" and "i \<noteq> r_id r" and "t < r_created_at r" and "t \<le> now"
    and "jsonb_ok (v_headers v)"
  shows "\<exists>d1 d2 late. db_step gen LInsert d d1 \<and> ordered_step gen LClaim d1 d2 \<and> d_rows d2 = [r, late] \<and>
    r_id late = i \<and> r_partition_key late = v_partition_key v \<and> r_status late = StatusProcessing \<and>
    row_order late < row_order r"
proof -
  let ?new = "fresh_row i t (d_seq d) v"
  let ?d1 = "d\<lparr>d_rows := [r, ?new], d_uuid := d_uuid d, d_seq := d_seq d + 1, d_notified := Suc (d_notified d)\<rparr>"
  let ?late = "claim_row '''' now (gen (d_uuid d)) ?new"
  have ins: "sql_insert gen t (d_uuid d) (d_seq d) [v] (d_rows d) = ([r, ?new], d_uuid d, d_seq d + 1)"
    using assms(1,5,6) by simp
  have first: "row_order ?new < row_order r"
    using assms(7) by (simp add: row_order_def fresh_row_def)
  have "\<not> claimable now r" using assms(2-4) by (simp add: claimable_def)
  moreover have "claimable now ?new" using assms(8) by (simp add: claimable_def fresh_row_def)
  moreover have "\<not> held_back [r, ?new] ?new"
    using first by (auto simp: held_back_def holds_back_def)
  ultimately have pick: "claim_pick True 1 now (\<lambda>_. False) [r, ?new] = [?new]"
    by (simp add: claim_pick_def claim_candidates_def)
  have ids: "r_id ?new = i" by (simp add: fresh_row_def)
  have "sql_claim gen (d_uuid ?d1) now (\<lambda>_. False) True '''' now 1 (d_rows ?d1) =
      ([r, ?late], [?late], Suc (d_uuid d))"
    using pick ids assms(6) by (simp add: sql_claim_def Let_def)
  from ordered_claim [OF this] step_insert [OF ins] show ?thesis
    using first ids assms(9)
    by (intro exI [of _ ?d1] exI [of _ "?d1\<lparr>d_rows := [r, ?late], d_uuid := Suc (d_uuid d)\<rparr>"] exI [of _ ?late])
      (simp add: row_order_def fresh_row_def)
qed

end
