(* ===== verification/Progress.thy ===== *)
theory Progress
  imports Guarantees
begin

text \<open>
  Progress: in a deployment where nothing fails, that is, the database answers, hooks and
  backoff return, the publisher does not abort, and a batch ends before its lease runs out, no
  batch fails and draining hands every due row to its verdict. The theories before this one say
  what holds when batches succeed; this one says that they do.
\<close>

section \<open>A healthy deployment\<close>

definition healthy :: "env \<Rightarrow> settings \<Rightarrow> bool" where
  "healthy env cfg \<longleftrightarrow>
     alone env \<and> returning_ok env \<and> calm_hooks env cfg \<and> (\<forall>n. e_call env n = CallOk) \<and>
     e_text_ok env (s_InstanceID cfg) \<and>
     (\<forall>n k. e_clk env n \<le> e_clk env (n + k)) \<and>
     (\<exists>b. s_Backoff cfg = Some b \<and> (\<forall>k a. \<exists>d. b k a = Return d))"

text \<open>The database takes the text of an error, and of every error in its tree.\<close>

definition recordable :: "env \<Rightarrow> goerr option \<Rightarrow> bool" where
  "recordable env cause \<longleftrightarrow>
     (\<forall>e. cause = Some e \<longrightarrow> (\<forall>x \<in> set (err_nodes e). recordable_text env (Some x)))"

text \<open>The publisher returns, and its errors can be recorded and are none that stop the relay.\<close>

definition willing :: "env \<Rightarrow> settings \<Rightarrow> bool" where
  "willing env cfg \<longleftrightarrow>
     (\<exists>f. s_Fatal cfg = Some f \<and>
       (\<forall>k ms. \<exists>p. e_publish env k ms = Return p \<and> recordable env p \<and>
          (\<forall>e. p = Some e \<longrightarrow> \<not> has_as is_abort e \<and> \<not> has_as is_panic e \<and> (\<forall>n. f n e = Return False))))"

text \<open>When the lease of a batch claimed at tick \<open>n\<close> would run out.\<close>

definition lease_end :: "env \<Rightarrow> settings \<Rightarrow> nat \<Rightarrow> int" where
  "lease_end env cfg n = e_clk env n + e_interval env (s_LeaseDuration cfg)"

section \<open>Time passes\<close>

definition advances :: "'a go \<Rightarrow> bool" where
  "advances m \<longleftrightarrow> (\<forall>w. w_tick w \<le> w_tick (snd (m w)))"

named_theorems ticks "operations only move the clock forward"

lemma advances_run: "advances m \<Longrightarrow> m w = (r, w') \<Longrightarrow> w_tick w \<le> w_tick w'"
  unfolding advances_def by (metis snd_conv)

lemma advances_ret [ticks]: "advances (ret_go x)"
  by (simp add: advances_def ret_go_run)

lemma advances_panic [ticks]: "advances (panic_go v)"
  by (simp add: advances_def panic_go_run)

lemma advances_take_tick [ticks]: "advances take_tick"
  by (simp add: advances_def)

lemma advances_emit [ticks]: "advances (emit ev)"
  by (simp add: advances_def)

lemma advances_ctx_done [ticks]: "advances (ctx_done env)"
  by (simp add: advances_def)

lemma advances_exec_call [ticks]: "advances (exec_call env stmt)"
  by (auto simp: advances_def exec_call_def Let_def split: prod.splits call_outcome.splits)

lemma advances_bind [ticks]:
  assumes "advances m" and "\<And>x. advances (f x)"
  shows "advances (bind_go m f)"
  unfolding advances_def
proof
  fix w
  obtain r w1 where m: "m w = (r, w1)" by fastforce
  have 1: "w_tick w \<le> w_tick w1" using advances_run [OF assms(1) m] .
  show "w_tick w \<le> w_tick (snd (bind_go m f w))"
  proof (cases r)
    case (Return x)
    have "w_tick w1 \<le> w_tick (snd (f x w1))" using assms(2) by (simp add: advances_def)
    then show ?thesis using m 1 Return by (simp add: bind_go_def)
  qed (use m 1 in \<open>simp add: bind_go_def\<close>)
qed

lemma advances_recovered [ticks]: "advances fn \<Longrightarrow> advances (recovered fn)"
  by (auto simp: advances_def recovered_def split: prod.splits res.splits dest: spec) (metis snd_conv)+

lemma advances_for_each [ticks]: "(\<And>x. advances (body x)) \<Longrightarrow> advances (for_each body xs)"
  by (induction xs) (auto intro!: ticks)

lemma advances_call_hook [ticks]: "advances (call_hook env cfg ev)"
  unfolding call_hook_def by (auto split: option.splits hooks.splits intro!: ticks)

lemma advances_complete [ticks]: "advances (complete env cfg msgs st cause delay)"
proof -
  have "advances (outcome_hooks env cfg st completed cause)" for completed
    unfolding outcome_hooks_def by (cases st) (auto split: option.splits intro!: ticks)
  then show ?thesis
    unfolding complete_def Store_finish_def Let_def by (auto split: sum.splits intro!: ticks)
qed

lemma advances_call_backoff [ticks]: "advances (call_backoff cfg k)"
  unfolding call_backoff_def by (auto split: option.splits res.splits intro!: ticks)

lemma advances_settle [ticks]: "advances (settle env cfg msgs perr)"
  unfolding settle_def settle_retry_def by (auto split: option.splits intro!: ticks)

lemma advances_settle_batch [ticks]: "advances (settle_batch env cfg msgs perr)"
  unfolding settle_batch_def settleEach_eq settle_entry_def
  by (auto split: option.splits goerr.splits intro!: ticks)

lemma advances_renew [ticks]: "advances (renew env msgs duration)"
  unfolding renew_def by (auto intro!: ticks)

lemma advances_heartbeat [ticks]: "advances (heartbeat env cfg msgs beats)"
proof (induction beats)
  case (Cons b beats)
  then show ?case by (cases b) (auto split: option.splits intro!: ticks)
qed (simp add: ticks)

lemma advances_call_publisher [ticks]: "advances (call_publisher env msgs)"
  unfolding call_publisher_def by (auto split: res.splits intro!: ticks)

lemma advances_isFatal [ticks]: "advances (isFatal env cfg e)"
  unfolding isFatal_def by (auto split: option.splits res.splits intro!: ticks)

lemma advances_processBatch [ticks]: "advances (processBatch env cfg)"
  unfolding processBatch_def publish_def claim_def
  by (auto split: sum.splits prod.splits option.splits intro!: ticks)

text \<open>What the clock showed before it shows no later time afterwards.\<close>

lemma earlier:
  assumes "healthy env cfg" and "n \<le> n'" and "e_clk env n' < t"
  shows "e_clk env n < t"
proof -
  have "e_clk env n \<le> e_clk env (n + (n' - n))" using assms(1) unfolding healthy_def by blast
  then show ?thesis using assms(2,3) by simp
qed

section \<open>Held leases\<close>

text \<open>The messages' attempts own their rows, under leases that reach at least to \<open>t\<close>.\<close>

definition held :: "int \<Rightarrow> database \<Rightarrow> message list \<Rightarrow> bool" where
  "held t d msgs \<longleftrightarrow>
     distinct (map r_id (d_rows d)) \<and>
     (\<forall>m \<in> set msgs. \<exists>r \<in> set (d_rows d). \<exists>u. r_id r = m_ID m \<and> r_lease_token r = Some (m_LeaseToken m) \<and>
        r_status r = StatusProcessing \<and> r_locked_until r = Some u \<and> t \<le> u)"

lemma held_subset: "held t d msgs \<Longrightarrow> set xs \<subseteq> set msgs \<Longrightarrow> held t d xs"
  by (auto simp: held_def)

lemma held_count:
  assumes "held t d msgs" and "distinct (map m_ID msgs)" and "clk < t"
  shows "length (filter (owned (map (\<lambda>m. (m_ID m, m_LeaseToken m)) msgs) clk) (d_rows d)) = length msgs"
proof -
  let ?own = "filter (owned (map (\<lambda>m. (m_ID m, m_LeaseToken m)) msgs) clk) (d_rows d)"
  have "set (map r_id ?own) = set (map m_ID msgs)"
  proof (intro equalityI subsetI)
    fix i assume "i \<in> set (map r_id ?own)"
    then show "i \<in> set (map m_ID msgs)" by (force elim: ownedE)
  next
    fix i assume "i \<in> set (map m_ID msgs)"
    then obtain m where m: "m \<in> set msgs" "i = m_ID m" by auto
    then obtain r u where r: "r \<in> set (d_rows d)" "r_id r = m_ID m" "r_lease_token r = Some (m_LeaseToken m)"
      "r_status r = StatusProcessing" "r_locked_until r = Some u" "t \<le> u"
      using assms(1) unfolding held_def by meson
    then have "owned (map (\<lambda>m. (m_ID m, m_LeaseToken m)) msgs) clk r"
      using m assms(3) by (auto simp: owned_def)
    then have "r \<in> set ?own" using r(1) by simp
    then show "i \<in> set (map r_id ?own)" using r(2) m(2) by (metis image_eqI list.set_map)
  qed
  moreover have "distinct (map r_id ?own)"
    using assms(1) by (simp add: held_def distinct_map_filter)
  ultimately show ?thesis
    using distinct_card [OF assms(2)] distinct_card [of "map r_id ?own"] by simp
qed

text \<open>Settling some messages leaves the leases of the others alone.\<close>

lemma held_settles:
  assumes "held t d ys" and "settles f (attempts_of xs) d d'" and "m_ID ` set xs \<inter> m_ID ` set ys = {}"
  shows "held t d' ys"
  unfolding held_def
proof (intro conjI ballI)
  show "distinct (map r_id (d_rows d'))"
    using settles_ids [OF assms(2)] assms(1) by (simp add: held_def)
  fix m assume m: "m \<in> set ys"
  then obtain r u where r: "r \<in> set (d_rows d)" "r_id r = m_ID m" "r_lease_token r = Some (m_LeaseToken m)"
    "r_status r = StatusProcessing" "r_locked_until r = Some u" "t \<le> u"
    using assms(1) unfolding held_def by meson
  from list_all2_in_set1 [OF assms(2) [unfolded settles_def] r(1)] obtain r' where
    r': "r' \<in> set (d_rows d')" "settles_row f (attempts_of xs) r r'" by blast
  have "r_id r \<notin> m_ID ` set xs" using m r(2) assms(3) by auto
  then have "r' = r" using r'(2) by (auto simp: settles_row_def attempts_of_def)
  then show "\<exists>r \<in> set (d_rows d'). \<exists>u. r_id r = m_ID m \<and> r_lease_token r = Some (m_LeaseToken m) \<and>
      r_status r = StatusProcessing \<and> r_locked_until r = Some u \<and> t \<le> u"
    using r r'(1) by blast
qed

section \<open>Settling succeeds\<close>

text \<open>
  An operation that settles the messages \<open>xs\<close>: it touches only their rows, and if it is over
  before \<open>t\<close> while their leases reach to \<open>t\<close>, it returns nil.
\<close>

definition settles_by :: "env \<Rightarrow> int \<Rightarrow> message list \<Rightarrow> goerr option go \<Rightarrow> bool" where
  "settles_by env t xs m \<longleftrightarrow>
     advances m \<and> (\<exists>f. within (settles f (attempts_of xs)) m) \<and>
     (\<forall>w r w'. m w = (r, w') \<longrightarrow> held t (w_db w) xs \<longrightarrow> e_clk env (w_tick w') < t \<longrightarrow> r = Return None)"

lemma settles_by_run:
  assumes "settles_by env t xs m" and "m w = (r, w')" and "held t (w_db w) xs" and "e_clk env (w_tick w') < t"
  shows "r = Return None"
  using assms unfolding settles_by_def by blast

lemma settles_by_held:
  assumes "settles_by env t xs m" and "m w = (r, w')" and "held t (w_db w) ys"
    and "m_ID ` set xs \<inter> m_ID ` set ys = {}"
  shows "held t (w_db w') ys"
  using assms held_settles within_run unfolding settles_by_def by metis

lemma finish_count:
  assumes "alone env" and "returning_ok env" and "e_call env (w_tick w) = CallOk" and "canonical env msgs"
    and "distinct (map m_ID msgs)" and "held t (w_db w) msgs" and "e_clk env (w_tick w) < t"
    and "arg_ok (e_text_ok env) (nullStr reason)"
  shows "\<exists>completed w1. Store_finish env msgs st reason delay clear w = (Return (Inr completed), w1) \<and>
    length completed = length msgs"
proof (cases "msgs = []")
  case False
  let ?keys = "map (\<lambda>m. (m_ID m, m_LeaseToken m)) msgs" and ?clk = "e_clk env (w_tick w)"
  have "length (filter (owned ?keys ?clk) (d_rows (w_db w))) = length msgs"
    using held_count [OF assms(6,5,7)] .
  then show ?thesis
    using assms(1,3,8) False returning_length [OF assms(2)]
    by (simp add: Store_finish_def exec_call_def finish_stmt_def bind_keys_canonical [OF assms(4)]
        sql_finish_def alone_def scanMessages_def Let_def)
qed (simp add: Store_finish_def ret_go_run)

lemma recordable_None [simp]: "recordable env None"
  by (simp add: recordable_def)

text \<open>What an error in the tree unwraps to is in the tree.\<close>

lemma recordable_unwrap:
  assumes "recordable env (Some e)" and "x \<in> set (err_nodes e)" and "\<And>y. err = Some y \<Longrightarrow> y \<in> set (unwrap x)"
  shows "recordable env err"
  using assms err_nodes_trans unwrap_nodes unfolding recordable_def by metis

lemma complete_settles_by:
  assumes "healthy env cfg" and "undisturbed_batch env xs" and "st \<noteq> StatusProcessing"
    and "recordable env cause"
  shows "settles_by env t xs (complete env cfg xs st cause delay)"
  unfolding settles_by_def
proof (intro conjI allI impI)
  have "achieves (\<lambda>_. st) (attempts_of xs) xs (complete env cfg xs st cause delay)"
    using assms(2) by (intro complete_achieves) auto
  then show "\<exists>f. within (settles f (attempts_of xs)) (complete env cfg xs st cause delay)"
    unfolding achieves_def by blast
  fix w r w'
  assume run: "complete env cfg xs st cause delay w = (r, w')"
    and held: "held t (w_db w) xs" and late: "e_clk env (w_tick w') < t"
  have "e_clk env (w_tick w) < t"
    using earlier [OF assms(1) advances_run [OF advances_complete run] late] .
  moreover have "arg_ok (e_text_ok env) (nullStr (case cause of None \<Rightarrow> '''' | Some e \<Rightarrow> error_text e))"
    using assms(4) by (cases cause) (auto simp: recordable_def recordable_text_def nullStr_def)
  ultimately obtain completed w1 where
    "Store_finish env xs st (case cause of None \<Rightarrow> '''' | Some e \<Rightarrow> error_text e) delay
      (s_ClearPayloadOnComplete cfg) w = (Return (Inr completed), w1)" "length completed = length xs"
    using finish_count held assms unfolding healthy_def undisturbed_batch_def by metis
  then show "r = Return None"
    using complete_told [OF _ assms(3)] assms(1) run unfolding healthy_def by fastforce
qed (rule ticks)

lemma settles_by_ret: "settles_by env t [] (ret_go None)"
  by (auto simp: settles_by_def settles.within_ret ticks dest: ret_go_ReturnD)

lemma settle_retry_settles_by:
  assumes "healthy env cfg" and "undisturbed_batch env [m]" and "recordable env (Some e)"
  shows "settles_by env t [m] (settle_retry env cfg e retry m)"
proof (cases "effective_max cfg m \<le> m_Attempts m")
  case True
  then show ?thesis
    using complete_settles_by [OF assms(1,2) _ assms(3)] by (simp add: settle_retry_def)
next
  case False
  obtain b where b: "s_Backoff cfg = Some b" "\<forall>k a. \<exists>d. b k a = Return d"
    using assms(1) unfolding healthy_def by blast
  have fin: "settles_by env t [m] (complete env cfg [m] StatusPending (Some e) d)" for d
    using complete_settles_by [OF assms(1,2) _ assms(3)] by simp
  have eq: "settle_retry env cfg e retry m = bind_go (call_backoff cfg (m_Attempts m))
      (\<lambda>d. complete env cfg [m] StatusPending (Some e) (retry_delay d retry))"
    using False by (simp add: settle_retry_def)
  have "within (settles (\<lambda>_. StatusPending) (attempts_of [m]))
      (complete env cfg [m] StatusPending (Some e) d)" for d
    using complete_achieves [OF assms(2) subset_refl, of "\<lambda>_. StatusPending" StatusPending]
    by (simp add: achieves_def)
  then have "within (settles (\<lambda>_. StatusPending) (attempts_of [m])) (settle_retry env cfg e retry m)"
    unfolding eq by (intro settles.within_bind settles.call_backoff_within)
  moreover have "r = Return None"
    if run: "settle_retry env cfg e retry m w = (r, w')" and held: "held t (w_db w) [m]"
      and late: "e_clk env (w_tick w') < t" for w r w'
  proof -
    obtain d w1 where back1: "call_backoff cfg (m_Attempts m) w = (Return d, w1)"
      using b(2) [rule_format, of "w_tick w" "m_Attempts m"]
      by (auto simp: call_backoff_def b(1) bind_go_def ret_go_run)
    then have "w_db w1 = w_db w" using within_run [OF unmoved.call_backoff_within] by blast
    moreover have "complete env cfg [m] StatusPending (Some e) (retry_delay d retry) w1 = (r, w')"
      using run back1 unfolding eq by (simp add: bind_go_def)
    ultimately show ?thesis using settles_by_run [OF fin] held late by simp
  qed
  ultimately show ?thesis
    unfolding settles_by_def eq by (blast intro: ticks)
qed

text \<open>A loop over messages with different ids succeeds when its passes do, and spares the rest.\<close>

lemma for_each_settles_by:
  assumes "healthy env cfg" and "\<And>x. x \<in> set xs \<Longrightarrow> settles_by env t [x] (body x)"
    and "distinct (map m_ID xs)" and "m_ID ` set xs \<inter> m_ID ` set ys = {}"
    and "for_each body xs w = (r, w')" and "held t (w_db w) (xs @ ys)" and "e_clk env (w_tick w') < t"
  shows "(\<exists>errs. r = Return errs \<and> (\<forall>e \<in> set errs. e = None)) \<and> held t (w_db w') ys"
  using assms(2-6)
proof (induction xs arbitrary: w r)
  case Nil
  then show ?case using held_subset by (auto simp: ret_go_run)
next
  case (Cons x xs)
  have body_ticks: "advances (body z)" if "z \<in> set (x # xs)" for z
    using Cons.prems(1) [OF that] by (simp add: settles_by_def)
  have loop_ticks: "advances (for_each body zs)" if "set zs \<subseteq> set (x # xs)" for zs
    using that by (induction zs) (auto intro!: ticks body_ticks)
  have x: "settles_by env t [x] (body x)" using Cons.prems(1) by simp
  obtain r1 w1 where run1: "body x w = (r1, w1)" by fastforce
  have later: "w_tick w1 \<le> w_tick w'"
  proof (cases r1)
    case (Return y)
    have "advances (bind_go (for_each body xs) (\<lambda>ys. ret_go (y # ys)))"
      by (intro advances_bind loop_ticks advances_ret) auto
    moreover have "bind_go (for_each body xs) (\<lambda>ys. ret_go (y # ys)) w1 = (r, w')"
      using Cons.prems(4) run1 Return by (simp add: bind_go_def)
    ultimately show ?thesis by (rule advances_run)
  qed (use Cons.prems(4) run1 in \<open>simp add: bind_go_def\<close>)
  have "r1 = Return None"
    by (rule settles_by_run [OF x run1 held_subset [OF Cons.prems(5)] earlier [OF assms(1) later assms(7)]]) simp
  then obtain r2 where rest: "for_each body xs w1 = (r2, w')"
    and r: "r = (case r2 of Return ys \<Rightarrow> Return (None # ys) | Panic v \<Rightarrow> Panic v)"
    using Cons.prems(4) run1 by (auto simp: bind_go_def ret_go_run split: prod.splits res.splits)
  have "held t (w_db w1) (xs @ ys)"
    by (rule settles_by_held [OF x run1 held_subset [OF Cons.prems(5)]])
      (use Cons.prems(2,3) in auto)
  with Cons.IH [OF _ _ _ rest] Cons.prems(1-3) show ?case by (auto simp: r)
qed

lemma settle_settles_by:
  assumes "healthy env cfg" and "undisturbed_batch env xs" and "recordable env perr"
  shows "settles_by env t xs (settle env cfg xs perr)"
proof (cases "xs = [] \<or> perr = None \<or> has_as is_permanent (the perr) \<or> has_as is_discard (the perr)")
  case True
  then show ?thesis
    using complete_settles_by [OF assms(1,2)] assms(3) recordable_None settles_by_ret unfolding settle_def
    by (auto split: option.splits)
next
  case False
  then obtain e where e: "perr = Some e" "\<not> has_as is_permanent e" "\<not> has_as is_discard e" and xs: "xs \<noteq> []"
    by auto
  let ?body = "settle_retry env cfg e (errors_as is_retry e)"
  have dist: "distinct (map m_ID xs)" using assms(2) by (simp add: undisturbed_batch_def)
  have "achieves (\<lambda>i. verdict cfg perr (the (List.find (\<lambda>m. m_ID m = i) xs))) (attempts_of xs) xs
      (settle env cfg xs perr)"
  proof (rule settle_achieves [OF assms(2) subset_refl], rule ballI)
    fix m assume m: "m \<in> set xs"
    have "List.find (\<lambda>x. m_ID x = m_ID m) xs = Some m"
      using m dist by (induction xs) auto
    then show "verdict cfg perr (the (List.find (\<lambda>x. m_ID x = m_ID m) xs)) = verdict cfg perr m" by simp
  qed
  then have frame: "\<exists>f. within (settles f (attempts_of xs)) (settle env cfg xs perr)"
    unfolding achieves_def by blast
  have one: "settles_by env t [m] (?body m)" if "m \<in> set xs" for m
    using settle_retry_settles_by [OF assms(1) undisturbed_batch_one [OF assms(2) that]] assms(3) e(1) by simp
  have eq: "settle env cfg xs perr = bind_go (for_each ?body xs) (\<lambda>errs. ret_go (errors_join errs))"
    using e xs by (simp add: settle_def)
  have "r = Return None"
    if run: "settle env cfg xs perr w = (r, w')" and held: "held t (w_db w) xs"
      and late: "e_clk env (w_tick w') < t" for w r w'
  proof -
    obtain r1 where loop: "for_each ?body xs w = (r1, w')"
      and r: "r = map_res errors_join r1"
      using run unfolding eq by (auto simp: bind_go_def ret_go_run split: prod.splits res.splits)
    obtain errs where "r1 = Return errs" "\<forall>x \<in> set errs. x = None"
      using for_each_settles_by [OF assms(1) one dist _ loop _ late, of "[]"] held by auto
    then show ?thesis using r errors_join_None_iff [of errs] by simp
  qed
  then show ?thesis
    unfolding settles_by_def using frame by (blast intro: ticks)
qed

text \<open>
  The three groups of a batch error are disjoint; settling one keeps the leases of the others.
\<close>

lemma settleEach_settles_by:
  assumes "healthy env cfg" and "undisturbed_batch env msgs"
    and "settleEach env cfg msgs outcomes be w = (r, w')" and "held t (w_db w) msgs"
    and "e_clk env (w_tick w') < t"
    and "recordable env be" and "\<And>i err. (i, err) \<in> set outcomes \<Longrightarrow> recordable env err"
  shows "r = Return None"
proof -
  let ?own = "own_group outcomes msgs" and ?pub = "published_group outcomes be msgs"
    and ?oth = "others_group outcomes be msgs"
  note sub = groups_in_batch(1) [of outcomes msgs] groups_in_batch(2,3) [of outcomes be msgs]
  have dist: "distinct (map m_ID msgs)" using assms(2) by (simp add: undisturbed_batch_def)
  have apart: "m_ID ` set A \<inter> m_ID ` set B = {}" if "set A \<inter> set B = {}" "set A \<subseteq> set msgs" "set B \<subseteq> set msgs" for A B
  proof (intro equals0I)
    fix i assume "i \<in> m_ID ` set A \<inter> m_ID ` set B"
    then obtain a b where "a \<in> set A" "b \<in> set B" "m_ID a = m_ID b" by auto
    moreover from this have "a = b" using dist that(2,3) by (auto simp: distinct_map dest: inj_onD)
    ultimately show False using that(1) by auto
  qed
  have disj: "m_ID ` set ?own \<inter> m_ID ` set (?pub @ ?oth) = {}" "m_ID ` set ?pub \<inter> m_ID ` set ?oth = {}"
    by (rule apart; auto simp: own_group_def published_group_def others_group_def)+
  have ub: "undisturbed_batch env ?own" "undisturbed_batch env ?pub" "undisturbed_batch env ?oth"
    using assms(2) undisturbed_batch_filter by (simp_all add: own_group_def published_group_def others_group_def)
  have own: "settles_by env t [m] (settle_entry env cfg outcomes m)" if entry: "m \<in> set ?own" for m
    unfolding settle_entry_def
  proof (rule settle_settles_by [OF assms(1) undisturbed_batch_one [OF ub(1) entry]])
    obtain err where "map_of outcomes (m_ID m) = Some err" using entry by (auto simp: own_group_def)
    then show "recordable env (the (map_of outcomes (m_ID m)))"
      using assms(7) by (auto dest: map_of_SomeD)
  qed
  note pub = settle_settles_by [OF assms(1) ub(2) recordable_None, of t] and
    oth = settle_settles_by [OF assms(1) ub(3) assms(6), of t]
  let ?rest2 = "\<lambda>errs e1. bind_go (settle env cfg ?oth be) (\<lambda>e2. ret_go (errors_join (errs @ [e1, e2])))"
  let ?rest1 = "\<lambda>errs. bind_go (settle env cfg ?pub None) (?rest2 errs)"
  have ticks1: "advances (?rest1 errs)" and ticks2: "advances (?rest2 errs e1)" for errs e1
    by (intro ticks)+
  obtain r1 w1 where run1: "for_each (settle_entry env cfg outcomes) ?own w = (r1, w1)" by fastforce
  have run: "(case r1 of Return errs \<Rightarrow> ?rest1 errs w1 | Panic v \<Rightarrow> (Panic v, w1)) = (r, w')"
    using assms(3) run1 unfolding settleEach_eq by (simp add: bind_go_def)
  have w1: "w_tick w1 \<le> w_tick w'"
    using run advances_run [OF ticks1] by (cases r1) auto
  have "held t (w_db w) (?own @ ?pub @ ?oth)"
    using held_subset [OF assms(4)] sub by simp
  with for_each_settles_by [OF assms(1) own _ disj(1) run1 _ earlier [OF assms(1) w1 assms(5)]]
  obtain errs where r1: "r1 = Return errs" "\<forall>e \<in> set errs. e = None" and held1: "held t (w_db w1) (?pub @ ?oth)"
    using ub(1) by (auto simp: undisturbed_batch_def)
  obtain r2 w2 where run2: "settle env cfg ?pub None w1 = (r2, w2)" by fastforce
  have run': "(case r2 of Return e1 \<Rightarrow> ?rest2 errs e1 w2 | Panic v \<Rightarrow> (Panic v, w2)) = (r, w')"
    using run run2 r1(1) by (simp add: bind_go_def)
  have w2: "w_tick w2 \<le> w_tick w'"
    using run' advances_run [OF ticks2] by (cases r2) auto
  have r2: "r2 = Return None"
    by (rule settles_by_run [OF pub run2 _ earlier [OF assms(1) w2 assms(5)]])
      (use held_subset [OF held1] in simp)
  have held2: "held t (w_db w2) ?oth"
    by (rule settles_by_held [OF pub run2 _ disj(2)]) (use held_subset [OF held1] in simp)
  obtain r3 where run3: "settle env cfg ?oth be w2 = (r3, w')"
    and r: "r = map_res (\<lambda>e2. errors_join (errs @ [None, e2])) r3"
    using run' r2 by (auto simp: bind_go_def ret_go_run split: prod.splits res.splits)
  have "r3 = Return None" using settles_by_run [OF oth run3 held2 assms(5)] .
  then show ?thesis using r r1(2) errors_join_None_iff [of "errs @ [None, None]"] by auto
qed

lemma settle_batch_succeeds:
  assumes "healthy env cfg" and "undisturbed_batch env msgs"
    and "settle_batch env cfg msgs perr w = (r, w')" and "held t (w_db w) msgs"
    and "e_clk env (w_tick w') < t" and "recordable env perr"
  shows "r = Return None"
proof (cases rule: settle_batch_cases [of perr])
  case plain
  then show ?thesis
    using settles_by_run [OF settle_settles_by [OF assms(1,2,6)] _ assms(4,5)] assms(3) by simp
next
  case (batch e outcomes be)
  then have node: "BatchError outcomes be \<in> set (err_nodes e)" by (auto dest: errors_as_SomeD)
  have "recordable env be" "\<And>i err. (i, err) \<in> set outcomes \<Longrightarrow> recordable env err"
    using assms(6) batch(1) by (force intro!: recordable_unwrap [OF _ node])+
  then show ?thesis using settleEach_settles_by [OF assms(1,2) _ assms(4,5)] batch assms(3) by simp
qed

section \<open>A batch succeeds\<close>

lemma claim_succeeds:
  assumes "healthy env cfg" and "distinct (map r_id (d_rows (w_db w)))"
  shows "\<exists>msgs w'. claim env cfg w = (Return (Inr msgs), w') \<and>
    held (lease_end env cfg (w_tick w)) (w_db w') msgs \<and> w_tick w \<le> w_tick w'"
proof -
  let ?n = "w_tick w" and ?d = "w_db w"
  obtain tbl out k where sql: "sql_claim (e_gen env) (d_uuid ?d) (e_now env ?n) (e_locked env ?n) (s_Ordered cfg)
      (s_InstanceID cfg) (lease_end env cfg ?n) (s_BatchSize cfg) (d_rows ?d) = (tbl, out, k)"
    by (metis prod_cases3)
  let ?msgs = "scanMessages (e_returning env ?n out)"
  have run: "claim env cfg w = (Return (Inr ?msgs), w\<lparr>w_tick := Suc ?n, w_db := ?d\<lparr>d_rows := tbl, d_uuid := k\<rparr>\<rparr>)"
    using assms(1) sql by (simp add: claim_def exec_call_def claim_stmt_def healthy_def alone_def lease_end_def Let_def)
  have "set (e_returning env ?n out) = set out"
    using assms(1) by (intro returning_set) (simp add: healthy_def)
  moreover have "\<exists>u. m_ID (scan_row r) = r_id r \<and> r_lease_token r = Some (m_LeaseToken (scan_row r)) \<and>
      r_status r = StatusProcessing \<and> r_locked_until r = Some u \<and> lease_end env cfg ?n \<le> u"
    if out: "r \<in> set out" for r
    by (rule sql_claim_out [OF assms(2) sql out]) (simp add: derefStr_def)
  moreover have "set out \<subseteq> set tbl"
    using claim_update_spec(2) [OF sql [unfolded sql_claim_def]] by auto
  moreover have "distinct (map r_id tbl)"
    using sql_claim_ids [OF sql] assms(2) by simp
  ultimately have "held (lease_end env cfg ?n) (?d\<lparr>d_rows := tbl, d_uuid := k\<rparr>) ?msgs"
    unfolding held_def scanMessages_def by (auto simp del: scan_row_sel)
  then show ?thesis using run by simp
qed

text \<open>Renewals succeed while the leases hold, and prolong them.\<close>

lemma renew_succeeds:
  assumes "healthy env cfg" and "undisturbed_batch env msgs" and "held t (w_db w) msgs"
    and "e_clk env (w_tick w) < t" and "t \<le> lease_end env cfg (w_tick w)"
    and "renew env msgs (s_LeaseDuration cfg) w = (r, w')"
  shows "r = Return None \<and> held t (w_db w') msgs"
proof -
  let ?n = "w_tick w" and ?keys = "map (\<lambda>m. (m_ID m, m_LeaseToken m)) msgs"
  let ?prolong = "\<lambda>r. if owned ?keys (e_clk env ?n) r then r\<lparr>r_locked_until := Some (lease_end env cfg ?n)\<rparr> else r"
  have cnt: "length (filter (owned ?keys (e_clk env ?n)) (d_rows (w_db w))) = length msgs"
    using held_count [OF assms(3) _ assms(4)] assms(2) by (simp add: undisturbed_batch_def)
  have canon: "canonical env msgs" using assms(2) by (simp add: undisturbed_batch_def)
  have res: "r = Return None" and rows: "d_rows (w_db w') = map ?prolong (d_rows (w_db w))"
    using assms(1,6) cnt
    by (auto simp: renew_def exec_call_def renew_stmt_def bind_keys_canonical [OF canon] sql_renew_def
        bind_go_def ret_go_run healthy_def alone_def lease_end_def Let_def)
  have ids: "r_id (?prolong r) = r_id r \<and> r_lease_token (?prolong r) = r_lease_token r \<and>
      r_status (?prolong r) = r_status r" for r
    by simp
  have "held t (w_db w') msgs"
    unfolding held_def rows
  proof (intro conjI ballI)
    have "map r_id (map ?prolong (d_rows (w_db w))) = map r_id (d_rows (w_db w))"
      using ids by simp
    then show "distinct (map r_id (map ?prolong (d_rows (w_db w))))"
      using assms(3) by (simp only: held_def)
    fix m assume "m \<in> set msgs"
    then obtain r u where r: "r \<in> set (d_rows (w_db w))" "r_id r = m_ID m"
      "r_lease_token r = Some (m_LeaseToken m)" "r_status r = StatusProcessing" "r_locked_until r = Some u" "t \<le> u"
      using assms(3) unfolding held_def by meson
    then have "\<exists>u. r_locked_until (?prolong r) = Some u \<and> t \<le> u" using assms(5) by simp
    then show "\<exists>x \<in> set (map ?prolong (d_rows (w_db w))). \<exists>u. r_id x = m_ID m \<and>
        r_lease_token x = Some (m_LeaseToken m) \<and> r_status x = StatusProcessing \<and> r_locked_until x = Some u \<and> t \<le> u"
      using r(1-4) ids [of r] by (intro bexI [of _ "?prolong r"]) auto
  qed
  then show ?thesis using res by simp
qed

lemma lease_end_mono: "healthy env cfg \<Longrightarrow> n \<le> n' \<Longrightarrow> lease_end env cfg n \<le> lease_end env cfg n'"
  unfolding lease_end_def healthy_def by (metis add_le_cancel_right le_add_diff_inverse)

lemma heartbeat_succeeds:
  assumes "healthy env cfg" and "undisturbed_batch env msgs"
    and "held t (w_db w) msgs" and "t \<le> lease_end env cfg (w_tick w)"
    and "heartbeat env cfg msgs beats w = (r, w')" and "e_clk env (w_tick w') < t"
  shows "r = Return None \<and> held t (w_db w') msgs"
  using assms(3-5)
proof (induction beats arbitrary: w)
  case Nil
  then show ?case by (auto simp: ret_go_run)
next
  case (Cons b beats)
  show ?case
  proof (cases b)
    case (BeatTick stop)
    have "w_tick w \<le> w_tick w'" using advances_run [OF advances_heartbeat Cons.prems(3)] .
    then have clk: "e_clk env (w_tick w) < t" using earlier assms(1,6) by blast
    obtain r1 w1 where run1: "renew env msgs (s_LeaseDuration cfg) w = (r1, w1)" by fastforce
    from renew_succeeds [OF assms(1,2) Cons.prems(1) clk Cons.prems(2) run1]
    have ok: "r1 = Return None" "held t (w_db w1) msgs" by simp_all
    have "t \<le> lease_end env cfg (w_tick w1)"
      using lease_end_mono [OF assms(1) advances_run [OF advances_renew run1]] Cons.prems(2) by simp
    moreover have "heartbeat env cfg msgs beats w1 = (r, w')"
      using Cons.prems(3) run1 ok(1) BeatTick by (simp add: bind_go_def)
    ultimately show ?thesis using Cons.IH [OF ok(2)] by simp
  qed (use Cons.prems in \<open>auto simp: ret_go_run\<close>)
qed

lemma publish_succeeds:
  assumes "healthy env cfg" and "willing env cfg" and "undisturbed_batch env msgs"
    and "held t (w_db w) msgs" and "t \<le> lease_end env cfg (w_tick w)"
    and "publish env cfg msgs w = (r, w')" and "e_clk env (w_tick w') < t"
  shows "\<exists>p. r = Return (p, None) \<and> published_as env msgs p \<and> held t (w_db w') msgs"
proof -
  let ?w0 = "w\<lparr>w_log := w_log w @ [EvPublish msgs], w_tick := Suc (w_tick w)\<rparr>"
  let ?beats = "heartbeat env cfg msgs (e_beats env (w_tick w))"
  obtain r1 w1 where run1: "?beats ?w0 = (r1, w1)" by fastforce
  obtain p where p: "e_publish env (w_tick w1) msgs = Return p"
    using assms(2) unfolding willing_def by blast
  have rest: "publish env cfg msgs w = bind_go (recovered ?beats)
      (\<lambda>lease_err. bind_go (call_publisher env msgs) (\<lambda>perr. ret_go (perr, lease_err))) ?w0"
    by (simp add: publish_def bind_go_def emit_def take_tick_def)
  have "advances (bind_go (call_publisher env msgs) (\<lambda>perr. ret_go (perr, lease_err)))" for lease_err
    by (intro ticks)
  then have "w_tick w1 \<le> w_tick w'"
    using assms(6) run1 advances_run unfolding rest
    by (fastforce simp: bind_go_def [of "recovered ?beats"] recovered_def split: res.splits)
  then have clk: "e_clk env (w_tick w1) < t" using earlier assms(1,7) by blast
  have "t \<le> lease_end env cfg (w_tick ?w0)"
    using lease_end_mono [OF assms(1), of "w_tick w" "w_tick ?w0"] assms(5) by simp
  with heartbeat_succeeds [OF assms(1,3) _ _ run1 clk] assms(4)
  have ok: "r1 = Return None" "held t (w_db w1) msgs" by simp_all
  then have "r = Return (p, None)" "w_db w' = w_db w1"
    using assms(6) run1 p unfolding rest
    by (auto simp: bind_go_def recovered_def call_publisher_def take_tick_def ret_go_run)
  then show ?thesis using ok(2) p by (auto simp: published_as_def)
qed

lemma processBatch_succeeds:
  assumes "healthy env cfg" and "willing env cfg" and "uuid_ok env (w_db w)"
    and "distinct (map r_id (d_rows (w_db w)))"
    and "processBatch env cfg w = (r, w')" and "e_clk env (w_tick w') < lease_end env cfg (w_tick w)"
  shows "\<exists>n. r = Return (n, None)"
proof -
  let ?t = "lease_end env cfg (w_tick w)"
  obtain msgs w1 where cl: "claim env cfg w = (Return (Inr msgs), w1)" and held1: "held ?t (w_db w1) msgs"
    and tick1: "w_tick w \<le> w_tick w1"
    using claim_succeeds [OF assms(1,4)] by blast
  let ?judge = "\<lambda>p. case p of None \<Rightarrow> ret_go False | Some e \<Rightarrow> isFatal env cfg e"
  let ?settle = "\<lambda>p lease_err fatal. if fatal then ret_go (length msgs, map_option FatalError p)
      else if lease_err \<noteq> None then ret_go (length msgs, lease_err)
      else bind_go (settle_batch env cfg msgs p) (\<lambda>err. ret_go (length msgs, err))"
  let ?after = "\<lambda>(p, lease_err). bind_go (?judge p) (?settle p lease_err)"
  show ?thesis
  proof (cases "msgs = []")
    case True
    then show ?thesis using assms(5) cl by (auto simp: processBatch_def bind_go_def ret_go_run)
  next
    case False
    have eq: "bind_go (publish env cfg msgs) ?after w1 = (r, w')"
      using assms(5) cl False by (simp add: processBatch_def bind_go_def)
    have alone: "alone env" and ret: "returning_ok env" using assms(1) by (simp_all add: healthy_def)
    note claimed = claim_run [OF cl alone ret assms(4)]
    have ub: "undisturbed_batch env msgs"
      using uuid_ok_claimed [OF assms(3) claimed(2) due_in_table claimed(5)] claimed(3) alone ret
      by (simp add: undisturbed_batch_def)
    obtain r2 w2 where pub: "publish env cfg msgs w1 = (r2, w2)" by fastforce
    have t1: "?t \<le> lease_end env cfg (w_tick w1)" using lease_end_mono [OF assms(1) tick1] .
    have "w_tick w2 \<le> w_tick w'"
    proof (cases r2)
      case (Return x)
      have "advances (?after x)" by (cases x) (auto split: option.splits intro!: ticks)
      then show ?thesis using eq pub Return advances_run by (simp add: bind_go_def)
    qed (use eq pub in \<open>simp add: bind_go_def\<close>)
    then have clk2: "e_clk env (w_tick w2) < ?t" using earlier assms(1,6) by blast
    from publish_succeeds [OF assms(1,2) ub held1 t1 pub clk2] obtain p where
      p: "r2 = Return (p, None)" "published_as env msgs p" and held2: "held ?t (w_db w2) msgs" by blast
    have "\<exists>w3. ?judge p w2 = (Return False, w3) \<and> w_db w3 = w_db w2"
    proof (cases p)
      case (Some e)
      then obtain f where "s_Fatal cfg = Some f" "\<not> has_as is_abort e" "\<not> has_as is_panic e"
        "\<forall>n. f n e = Return False"
        using assms(2) p(2) unfolding willing_def published_as_def by (metis res.inject(1))
      then show ?thesis using Some by (simp add: isFatal_def bind_go_def ret_go_run)
    qed (simp add: ret_go_run)
    then obtain w3 where judge: "?judge p w2 = (Return False, w3)" and same: "w_db w3 = w_db w2" by blast
    obtain r4 where settle: "settle_batch env cfg msgs p w3 = (r4, w')"
      and r: "r = map_res (Pair (length msgs)) r4"
      using eq pub p(1) judge by (auto simp: bind_go_def ret_go_run split: prod.splits res.splits)
    have "recordable env p"
      using assms(2) p(2) unfolding willing_def published_as_def by (metis res.inject(1))
    then have "r4 = Return None"
      using settle_batch_succeeds [OF assms(1) ub settle _ assms(6)] held2 same by simp
    then show ?thesis using r by simp
  qed
qed

section \<open>Draining delivers\<close>

text \<open>Every batch is over before its lease runs out.\<close>

definition prompt :: "env \<Rightarrow> settings \<Rightarrow> bool" where
  "prompt env cfg \<longleftrightarrow>
     (\<forall>w. e_clk env (w_tick (snd (processBatch env cfg w))) < lease_end env cfg (w_tick w))"

lemma prompt_batch:
  assumes "healthy env cfg" and "willing env cfg" and "prompt env cfg"
    and "uuid_ok env (w_db w)" and "distinct (map r_id (d_rows (w_db w)))"
  shows "\<exists>n w'. processBatch env cfg w = (Return (n, None), w')"
proof -
  obtain r w' where run: "processBatch env cfg w = (r, w')" by fastforce
  moreover have "e_clk env (w_tick w') < lease_end env cfg (w_tick w)"
    using assms(3) run unfolding prompt_def by (metis snd_conv)
  ultimately show ?thesis using processBatch_succeeds [OF assms(1,2,4,5)] by blast
qed

text \<open>
  What a run of batches leaves behind: the last one found nothing due, and each row has gone
  through some number of the batches that picked it.
\<close>

lemma drain_delivers_rows:
  assumes "healthy env cfg" and "willing env cfg" and "prompt env cfg" and "\<forall>n. \<not> e_done env n"
    and "uuid_ok env (w_db w)" and "distinct (map r_id (d_rows (w_db w)))" and "work cfg (w_db w) < fuel"
    and "\<And>perr picked msgs r r'. (\<exists>k. e_publish env k msgs = Return perr) \<or> picked = [] \<Longrightarrow>
      processed_row cfg perr picked msgs r r' \<Longrightarrow> R r r'"
    and "\<And>a. R a a" and "\<And>a b c. R a b \<Longrightarrow> R b c \<Longrightarrow> R a c"
  shows "\<exists>w' n. drain fuel env cfg w = (Return (Done None), w') \<and> w_tick w \<le> n \<and>
    due env cfg n (d_rows (w_db w')) = [] \<and> list_all2 R (d_rows (w_db w)) (d_rows (w_db w'))"
  using assms(5-7)
proof (induction fuel arbitrary: w)
  case (Suc fuel)
  have alone: "alone env" and ret: "returning_ok env" using assms(1) by (simp_all add: healthy_def)
  let ?w1 = "w\<lparr>w_tick := Suc (w_tick w)\<rparr>"
  let ?p = "due env cfg (Suc (w_tick w)) (d_rows (w_db w))"
  obtain n w2 where batch: "processBatch env cfg ?w1 = (Return (n, None), w2)"
    using prompt_batch [OF assms(1-3), of ?w1] Suc.prems(1,2) by auto
  have run: "drain (Suc fuel) env cfg w =
      (if n = 0 then (Return (Done None), w2) else drain fuel env cfg w2)"
    using assms(4) batch by (simp add: bind_go_def ret_go_run)
  from processBatch_rows [OF batch alone ret] Suc.prems(1,2) obtain perr msgs where
    rows: "n = length ?p" "list_all2 (processed_row cfg perr ?p msgs) (d_rows (w_db w)) (d_rows (w_db w2))"
    and pub: "0 < n \<longrightarrow> published_as env msgs perr"
    by auto
  have step: "list_all2 R (d_rows (w_db w)) (d_rows (w_db w2))"
    by (rule list_all2_mono [OF rows(2)], rule assms(8)) (use pub rows(1) in \<open>auto simp: published_as_def\<close>)
  show ?case
  proof (cases "n = 0")
    case True
    then have none: "?p = []" using rows(1) by simp
    have "list_all2 (=) (d_rows (w_db w)) (d_rows (w_db w2))"
      using rows(2) unfolding none by (rule list_all2_mono) (simp add: processed_row_def)
    then have "d_rows (w_db w2) = d_rows (w_db w)" by (simp add: list.rel_eq)
    then show ?thesis using run True none step by (auto intro!: exI [of _ "Suc (w_tick w)"])
  next
    case False
    have ids: "map r_id (d_rows (w_db w2)) = map r_id (d_rows (w_db w))"
      by (rule in_place_ids, rule list_all2_mono [OF rows(2)]) (rule processed_row_origin)
    have "work cfg (w_db w2) < work cfg (w_db w)"
      using work_decreases [OF rows(2)] rows(1) False by simp
    then obtain w' k where rest: "drain fuel env cfg w2 = (Return (Done None), w')" "w_tick w2 \<le> k"
      "due env cfg k (d_rows (w_db w')) = []" "list_all2 R (d_rows (w_db w2)) (d_rows (w_db w'))"
      using Suc.IH [of w2] uuid_ok_ids [OF Suc.prems(1) ids] Suc.prems(2,3) ids by auto
    have "w_tick w \<le> w_tick w2"
      using advances_run [OF advances_processBatch batch] by simp
    moreover have "list_all2 R (d_rows (w_db w)) (d_rows (w_db w'))"
      by (rule list_all2_trans [OF _ step rest(4)]) (rule assms(10))
    ultimately show ?thesis using run False rest(1-3) by (auto intro!: exI [of _ k])
  qed
qed simp

text \<open>A publisher that accepts every batch.\<close>

definition accepting :: "env \<Rightarrow> bool" where
  "accepting env \<longleftrightarrow> (\<forall>k ms. e_publish env k ms = Return None)"

text \<open>No other transaction holds row locks, and \<open>now()\<close> does not go back.\<close>

definition unhindered :: "env \<Rightarrow> bool" where
  "unhindered env \<longleftrightarrow> (\<forall>n i. \<not> e_locked env n i) \<and> (\<forall>n k. e_now env n \<le> e_now env (n + k))"

lemma claimable_later: "claimable now r \<Longrightarrow> now \<le> now' \<Longrightarrow> claimable now' r"
  by (cases "r_locked_until r") (auto simp: claimable_def)

text \<open>
  Nothing stands in the way of a row: it is claimable, and in ordered mode so is every row that
  holds it back.
\<close>

definition unblocked :: "settings \<Rightarrow> int \<Rightarrow> row list \<Rightarrow> row \<Rightarrow> bool" where
  "unblocked cfg now tbl r \<longleftrightarrow>
     claimable now r \<and> (s_Ordered cfg \<longrightarrow> (\<forall>e \<in> set tbl. holds_back e r \<longrightarrow> claimable now e))"

lemma holds_back_trans: "holds_back a b \<Longrightarrow> holds_back b c \<Longrightarrow> holds_back a c"
  by (auto simp: holds_back_def)

lemma unblocked_holder:
  "s_Ordered cfg \<Longrightarrow> unblocked cfg now tbl r \<Longrightarrow> e \<in> set tbl \<Longrightarrow> holds_back e r \<Longrightarrow> unblocked cfg now tbl e"
  unfolding unblocked_def using holds_back_trans by blast

lemma nothing_due:
  assumes "due env cfg n tbl = []" and "unhindered env" and "1 \<le> s_BatchSize cfg"
    and "r \<in> set tbl" and "claimable (e_now env n) r"
  shows "s_Ordered cfg \<and> held_back tbl r"
proof (rule ccontr)
  assume "\<not> (s_Ordered cfg \<and> held_back tbl r)"
  then have "r \<in> set (filter (\<lambda>r. \<not> e_locked env n (r_id r))
      (sort_key row_order (claim_candidates (s_Ordered cfg) (e_now env n) tbl)))"
    using assms(2,4,5) by (auto simp: claim_candidates_def unhindered_def)
  moreover have "filter (\<lambda>r. \<not> e_locked env n (r_id r))
      (sort_key row_order (claim_candidates (s_Ordered cfg) (e_now env n) tbl)) = []"
    using assms(1,3) by (auto simp: due_def claim_pick_def)
  ultimately show False by simp
qed

text \<open>
  When nothing is due any more and every row has been published or left alone, no row that was
  unblocked is left: the earliest such row would have to be held back by an earlier one.
\<close>

lemma unblocked_gone:
  assumes "due env cfg n tbl' = []" and "unhindered env" and "1 \<le> s_BatchSize cfg" and "now \<le> e_now env n"
    and "list_all2 (\<lambda>r r'. r' = r \<or> r_status r' = StatusPublished) tbl tbl'"
    and "r \<in> set tbl" and "r \<in> set tbl'" and "unblocked cfg now tbl r"
  shows False
proof -
  let ?S = "{x \<in> set tbl. x \<in> set tbl' \<and> unblocked cfg now tbl x}"
  have "?S \<noteq> {}" "finite ?S" using assms(6-8) by auto
  then obtain x where x: "x \<in> ?S" and least: "\<And>y. y \<in> ?S \<Longrightarrow> \<not> row_order y < row_order x"
    using ex_min_if_finite [of "row_order ` ?S"] by auto
  have "claimable (e_now env n) x"
    using x claimable_later [OF _ assms(4)] by (auto simp: unblocked_def)
  then have "s_Ordered cfg" "held_back tbl' x"
    using nothing_due [OF assms(1-3)] x by blast+
  then obtain e where e: "e \<in> set tbl'" "holds_back e x" by (auto simp: held_back_def list_ex_iff)
  have "e \<in> set tbl"
    using assms(5) e unfolding list_all2_conv_all_nth in_set_conv_nth
    by (metis (mono_tags, lifting) holds_back_def)
  then have "e \<in> ?S" using unblocked_holder [OF \<open>s_Ordered cfg\<close>] x e by blast
  moreover have "row_order e < row_order x" using e(2) by (simp add: holds_back_def)
  ultimately show False using least by blast
qed

lemma drain_publishes:
  assumes "healthy env cfg" and "willing env cfg" and "prompt env cfg" and "\<forall>n. \<not> e_done env n"
    and "uuid_ok env (w_db w)" and "distinct (map r_id (d_rows (w_db w)))" and "work cfg (w_db w) < fuel"
    and "accepting env" and "unhindered env" and "1 \<le> s_BatchSize cfg"
  shows "\<exists>w'. drain fuel env cfg w = (Return (Done None), w') \<and>
    list_all2 (\<lambda>r r'. unblocked cfg (e_now env (w_tick w)) (d_rows (w_db w)) r \<longrightarrow>
        same_origin r r' \<and> r_status r' = StatusPublished)
      (d_rows (w_db w)) (d_rows (w_db w'))"
proof -
  let ?R = "\<lambda>r r'. r' = r \<or> same_origin r r' \<and> r_status r' = StatusPublished"
  have step: "?R r r'" if "(\<exists>k. e_publish env k msgs = Return perr) \<or> picked = []"
    "processed_row cfg perr picked msgs r r'" for perr picked msgs r r'
    using that assms(8)
    by (auto simp: accepting_def processed_row_def batch_verdict_def own_outcome_def verdict_def Let_def
        split: if_splits)
  have trans: "?R a c" if "?R a b" "?R b c" for a b c
    using that by (auto intro: same_origin_trans)
  from drain_delivers_rows [OF assms(1-7), of ?R] step trans obtain w' n where
    run: "drain fuel env cfg w = (Return (Done None), w')" and n: "w_tick w \<le> n"
    and none: "due env cfg n (d_rows (w_db w')) = []"
    and rows: "list_all2 ?R (d_rows (w_db w)) (d_rows (w_db w'))"
    by blast
  have "e_now env (w_tick w) \<le> e_now env (w_tick w + (n - w_tick w))"
    using assms(9) unfolding unhindered_def by blast
  then have now: "e_now env (w_tick w) \<le> e_now env n" using n by simp
  have weak: "list_all2 (\<lambda>r r'. r' = r \<or> r_status r' = StatusPublished) (d_rows (w_db w)) (d_rows (w_db w'))"
    by (rule list_all2_mono [OF rows]) blast
  have "list_all2 (\<lambda>r r'. unblocked cfg (e_now env (w_tick w)) (d_rows (w_db w)) r \<longrightarrow>
      same_origin r r' \<and> r_status r' = StatusPublished) (d_rows (w_db w)) (d_rows (w_db w'))"
  proof (rule list.rel_mono_strong [OF rows], intro impI)
    fix r r' assume "r \<in> set (d_rows (w_db w))" "r' \<in> set (d_rows (w_db w'))" and R: "?R r r'"
      and u: "unblocked cfg (e_now env (w_tick w)) (d_rows (w_db w)) r"
    then have "r' \<noteq> r"
      using unblocked_gone [OF none assms(9,10) now weak] by blast
    then show "same_origin r r' \<and> r_status r' = StatusPublished" using R by blast
  qed
  then show ?thesis using run by blast
qed

end
