(* ===== verification/Columns.thy ===== *)
theory Columns
  imports Store
begin

text \<open>
  Reading a row back by position: the column list every \<open>RETURNING\<close> clause uses, the values the
  database sends for it, and the destinations \<open>scanMessages\<close> of \<^verbatim>\<open>engine/store.go\<close> hands to
  \<open>rows.Scan\<close> in its own order. Nothing but the two orders ties a column to its field.
\<close>

section \<open>The column list\<close>

definition messageColumns :: string where
  "messageColumns =
     ''id, topic, partition_key, payload, headers, content_type, '' @
     ''message_type, status, attempts, max_attempts, locked_by, locked_until, '' @
     ''next_attempt_at, last_error, created_at, published_at, lease_token, finished_at''"

text \<open>The identifiers of a column list, as the database parses it.\<close>

fun split_columns :: "string \<Rightarrow> string \<Rightarrow> string list" where
  "split_columns acc [] = [acc]"
| "split_columns acc (c # cs) =
     (if c = CHR '','' then acc # split_columns [] cs
      else if c = CHR '' '' then split_columns acc cs
      else split_columns (acc @ [c]) cs)"

section \<open>Values\<close>

text \<open>
  SQL values: those of the table's columns, and those only statements use: truth values, a number of
  seconds (of a duration in nanoseconds), an interval, and an array of texts.
\<close>

datatype colval =
    CNull
  | CText string
  | CBytes string
  | CJson "(string \<times> string) list"
  | CInt int
  | CTime int
  | CBool bool
  | CSecs int
  | CSpan int
  | CTexts "string list"

definition nullable :: "('a \<Rightarrow> colval) \<Rightarrow> 'a option \<Rightarrow> colval" where
  "nullable f x = (case x of None \<Rightarrow> CNull | Some v \<Rightarrow> f v)"

text \<open>The texts the status check constraint admits.\<close>

fun status_text :: "status \<Rightarrow> string" where
  "status_text StatusPending = ''pending''"
| "status_text StatusProcessing = ''processing''"
| "status_text StatusPublished = ''published''"
| "status_text StatusDead = ''dead''"
| "status_text StatusDiscarded = ''discarded''"

definition status_of_text :: "string \<Rightarrow> status option" where
  "status_of_text s =
     List.find (\<lambda>st. status_text st = s)
       [StatusPending, StatusProcessing, StatusPublished, StatusDead, StatusDiscarded]"

text \<open>The value of a named column of a row; \<open>None\<close> for a column the table does not have.\<close>

definition row_columns :: "row \<Rightarrow> (string \<times> colval) list" where
  "row_columns r =
     [(''id'', CText (r_id r)), (''topic'', CText (r_topic r)),
      (''partition_key'', nullable CText (r_partition_key r)), (''payload'', CBytes (r_payload r)),
      (''headers'', CJson (r_headers r)), (''content_type'', nullable CText (r_content_type r)),
      (''message_type'', nullable CText (r_message_type r)), (''status'', CText (status_text (r_status r))),
      (''attempts'', CInt (r_attempts r)), (''max_attempts'', nullable CInt (r_max_attempts r)),
      (''locked_by'', nullable CText (r_locked_by r)), (''locked_until'', nullable CTime (r_locked_until r)),
      (''next_attempt_at'', CTime (r_next_attempt_at r)), (''last_error'', nullable CText (r_last_error r)),
      (''created_at'', CTime (r_created_at r)), (''published_at'', nullable CTime (r_published_at r)),
      (''lease_token'', nullable CText (r_lease_token r)), (''finished_at'', nullable CTime (r_finished_at r)),
      (''seq'', CInt (r_seq r))]"

definition column :: "row \<Rightarrow> string \<Rightarrow> colval option" where
  "column r name = map_of (row_columns r) name"

text \<open>\<open>RETURNING\<close> a list of columns.\<close>

definition returning :: "string \<Rightarrow> row \<Rightarrow> colval list option" where
  "returning cols r = those (map (column r) (split_columns [] cols))"

section \<open>Destinations\<close>

text \<open>
  What pgx stores into a destination of each type: a \<open>string\<close>, \<open>int\<close> or \<open>time.Time\<close> takes no
  NULL, a pointer does; a NULL byte slice is nil, and a \<^verbatim>\<open>jsonb\<close> value arrives in it as its text.
  \<open>None\<close> is a scan error.
\<close>

fun to_string :: "colval \<Rightarrow> string option" where
  "to_string (CText s) = Some s"
| "to_string _ = None"

fun to_string_ptr :: "colval \<Rightarrow> string option option" where
  "to_string_ptr CNull = Some None"
| "to_string_ptr (CText s) = Some (Some s)"
| "to_string_ptr _ = None"

fun to_bytes :: "colval \<Rightarrow> string option option" where
  "to_bytes CNull = Some None"
| "to_bytes (CBytes b) = Some (Some b)"
| "to_bytes _ = None"

fun to_json :: "colval \<Rightarrow> (string \<times> string) list option option" where
  "to_json CNull = Some None"
| "to_json (CJson h) = Some (Some h)"
| "to_json _ = None"

fun to_raw :: "colval \<Rightarrow> string option option" where
  "to_raw CNull = Some None"
| "to_raw (CBytes b) = Some (Some b)"
| "to_raw (CJson h) = Some (Some (jsonb_out h))"
| "to_raw _ = None"

fun to_int :: "colval \<Rightarrow> int option" where
  "to_int (CInt i) = Some i"
| "to_int _ = None"

fun to_int_ptr :: "colval \<Rightarrow> int option option" where
  "to_int_ptr CNull = Some None"
| "to_int_ptr (CInt i) = Some (Some i)"
| "to_int_ptr _ = None"

fun to_time :: "colval \<Rightarrow> int option" where
  "to_time (CTime t) = Some t"
| "to_time _ = None"

fun to_time_ptr :: "colval \<Rightarrow> int option option" where
  "to_time_ptr CNull = Some None"
| "to_time_ptr (CTime t) = Some (Some t)"
| "to_time_ptr _ = None"

text \<open>
  One pass of the loop: \<open>rows.Scan\<close> with its eighteen destinations, then the assignments; the bytes
  of the headers, if there are any, are unmarshalled. The number of values must be that of the
  destinations.
\<close>

definition read_headers :: "string option \<Rightarrow> (string \<times> string) list option option" where
  "read_headers b =
     (case b of
        None \<Rightarrow> Some None
      | Some s \<Rightarrow> if 0 < length s then map_option Some (Unmarshal_headers s) else Some None)"

definition scan_values :: "colval list \<Rightarrow> message option" where
  "scan_values vs =
     (case vs of
        [v1, v2, v3, v4, v5, v6, v7, v8, v9, v10, v11, v12, v13, v14, v15, v16, v17, v18] \<Rightarrow>
          Option.bind (to_string v1) (\<lambda>ident.
          Option.bind (to_string v2) (\<lambda>topic.
          Option.bind (to_string_ptr v3) (\<lambda>pk.
          Option.bind (to_raw v4) (\<lambda>payload.
          Option.bind (to_raw v5) (\<lambda>raw.
          Option.bind (to_string_ptr v6) (\<lambda>ct.
          Option.bind (to_string_ptr v7) (\<lambda>mt.
          Option.bind (to_string v8) (\<lambda>statusStr.
          Option.bind (to_int v9) (\<lambda>attempts.
          Option.bind (to_int_ptr v10) (\<lambda>ma.
          Option.bind (to_string_ptr v11) (\<lambda>lb.
          Option.bind (to_time_ptr v12) (\<lambda>lu.
          Option.bind (to_time v13) (\<lambda>next_at.
          Option.bind (to_string_ptr v14) (\<lambda>le.
          Option.bind (to_time v15) (\<lambda>created.
          Option.bind (to_time_ptr v16) (\<lambda>pub.
          Option.bind (to_string_ptr v17) (\<lambda>token.
          Option.bind (to_time_ptr v18) (\<lambda>finished.
          Option.bind (read_headers raw) (\<lambda>headers.
            Some \<lparr>m_ID = ident, m_Topic = topic, m_PartitionKey = derefStr pk, m_Payload = payload,
              m_Headers = headers, m_ContentType = derefStr ct, m_MessageType = derefStr mt,
              m_MaxAttempts = ma, m_Status = status_of_text statusStr, m_Attempts = attempts,
              m_LeaseToken = derefStr token, m_LockedBy = derefStr lb, m_LockedUntil = lu,
              m_NextAttemptAt = next_at, m_LastError = derefStr le, m_CreatedAt = created,
              m_PublishedAt = pub, m_FinishedAt = finished\<rparr>)))))))))))))))))))
      | _ \<Rightarrow> None)"

section \<open>The two orders agree\<close>

lemma status_of_text_text [simp]: "status_of_text (status_text st) = Some st"
  by (cases st) (simp_all add: status_of_text_def)

lemma column_names: "split_columns [] messageColumns =
   [''id'', ''topic'', ''partition_key'', ''payload'', ''headers'', ''content_type'', ''message_type'',
    ''status'', ''attempts'', ''max_attempts'', ''locked_by'', ''locked_until'', ''next_attempt_at'',
    ''last_error'', ''created_at'', ''published_at'', ''lease_token'', ''finished_at'']"
  by code_simp

lemma nullable_reads [simp]:
  "to_string_ptr (nullable CText x) = Some x" "to_int_ptr (nullable CInt i) = Some i"
  "to_time_ptr (nullable CTime t) = Some t"
  by (simp_all add: nullable_def split: option.splits)

lemma read_headers_out: "jsonb_ok h \<Longrightarrow> read_headers (Some (jsonb_out h)) = Some (Some h)"
  using Unmarshal_jsonb_out [of h] by (simp add: read_headers_def jsonb_out_def print_object_def)

lemma returning_columns: "returning messageColumns r = Some (map snd (butlast (row_columns r)))"
  unfolding returning_def column_names column_def row_columns_def by simp

lemma scan_returning:
  assumes "jsonb_ok (r_headers r)"
  shows "Option.bind (returning messageColumns r) scan_values = Some (scan_row r)"
  unfolding returning_columns row_columns_def
  by (simp add: scan_values_def scan_row_def read_headers_out [OF assms])

text \<open>C24. Reading by position is well typed and lands in the right fields: for every row the table can
  hold, the values \<open>RETURNING messageColumns\<close> yields are accepted by the eighteen destinations of
  \<open>rows.Scan\<close> (no NULL meets a destination that takes none), the text of the headers unmarshals, and the
  resulting message is the row, field by field, with NULL texts read as empty.\<close>

theorem scan_by_position:
  assumes "jsonb_ok (r_headers r)"
  shows "Option.bind (returning messageColumns r) scan_values = Some (scan_row r)"
  using assms by (rule scan_returning)

definition header_row :: row where
  "header_row =
     \<lparr>r_id = ''i'', r_topic = ''t'', r_partition_key = None, r_payload = ''p'',
      r_headers = [(''b'', ''2''), (''key'', ''1'')], r_content_type = None, r_message_type = None,
      r_status = StatusPending, r_attempts = 0, r_max_attempts = None, r_locked_by = None,
      r_locked_until = None, r_next_attempt_at = 0, r_last_error = None, r_created_at = 0,
      r_published_at = None, r_lease_token = None, r_finished_at = None, r_seq = 1\<rparr>"

theorem scan_by_position_witness:
  "Option.bind (returning messageColumns header_row) scan_values = Some (scan_row header_row)"
proof -
  have "jsonb_ok (r_headers header_row)"
    by (simp add: header_row_def jsonb_ok_def jsonb_text_def)
  then show ?thesis by (rule scan_by_position)
qed

end
