(* ===== verification/Sql.thy ===== *)
theory Sql
  imports Columns
begin

text \<open>
  The fragment of PostgreSQL's language the store speaks: its syntax trees, what they mean on the
  table, and the words they are written with. Truth is three-valued, a row is selected when its
  condition is true, and a NULL sorts last.
\<close>

section \<open>Syntax\<close>

text \<open>
  A column is qualified by the alias of its table, \<open>''''\<close> when the statement gives none. \<open>IdIn\<close> is
  \<^verbatim>\<open>id IN (SELECT id ... ORDER BY ... FOR UPDATE SKIP LOCKED LIMIT $n)\<close>, its flag whether the limit
  is written last; \<open>AttemptIn\<close> the test of the pair \<^verbatim>\<open>(id, lease_token)\<close> against two arrays.
\<close>

datatype sexp =
    Col string string
  | Param nat
  | Lit string
  | Num nat
  | Null
  | Now
  | Clock
  | GenUuid
  | Interval sexp
  | Plus sexp sexp
  | Minus sexp sexp
  | Cast sexp string
  | Coalesce sexp sexp
  | CaseWhen scond sexp sexp
and scond =
    Eq sexp sexp
  | Less sexp sexp
  | AtMost sexp sexp
  | Greater sexp sexp
  | IsTrue sexp
  | IsNotNull sexp
  | InLits bool sexp "string list"
  | RowLess sexp sexp sexp sexp
  | And scond scond
  | Or scond scond
  | Paren scond
  | NotExists string scond
  | AttemptIn nat nat
  | IdIn bool string scond sexp sexp nat

datatype stmt =
    UpdateS "(string \<times> sexp) list" scond string
  | DeleteS scond
  | NotifyChanged "(string \<times> sexp) list" scond string

section \<open>Meaning of expressions and conditions\<close>

type_synonym tri = "bool option"

definition tri_and :: "tri \<Rightarrow> tri \<Rightarrow> tri" where
  "tri_and a b =
     (if a = Some False \<or> b = Some False then Some False
      else if a = Some True \<and> b = Some True then Some True else None)"

definition tri_or :: "tri \<Rightarrow> tri \<Rightarrow> tri" where
  "tri_or a b =
     (if a = Some True \<or> b = Some True then Some True
      else if a = Some False \<and> b = Some False then Some False else None)"

definition eq3 :: "colval \<Rightarrow> colval \<Rightarrow> tri" where
  "eq3 a b = (if a = CNull \<or> b = CNull then None else Some (a = b))"

text \<open>Instants and numbers are ordered; a number of seconds compares with a number.\<close>

fun less3 :: "colval \<Rightarrow> colval \<Rightarrow> tri" where
  "less3 (CTime a) (CTime b) = Some (a < b)"
| "less3 (CInt a) (CInt b) = Some (a < b)"
| "less3 (CInt a) (CSecs b) = Some (a * 1000000000 < b)"
| "less3 _ _ = None"

fun plus_val :: "colval \<Rightarrow> colval \<Rightarrow> colval" where
  "plus_val (CTime t) (CSpan i) = CTime (t + i)"
| "plus_val (CInt a) (CInt b) = CInt (a + b)"
| "plus_val _ _ = CNull"

fun minus_val :: "colval \<Rightarrow> colval \<Rightarrow> colval" where
  "minus_val (CTime t) (CSpan i) = CTime (t - i)"
| "minus_val _ _ = CNull"

text \<open>
  The casts that occur: of an empty text to bytes, of the text of an empty object, and of a
  parameter, which the database has read as a value of the type.
\<close>

definition cast_val :: "string \<Rightarrow> colval \<Rightarrow> colval" where
  "cast_val ty v =
     (if ty = ''bytea'' \<and> v = CText '''' then CBytes ''''
      else if ty = ''jsonb'' then (case v of CJson h \<Rightarrow> CJson h | CText s \<Rightarrow> if s = ''{}'' then CJson [] else CNull | _ \<Rightarrow> CNull)
      else if ty = ''double precision'' then (case v of CSecs d \<Rightarrow> CSecs d | _ \<Rightarrow> CNull)
      else if ty = ''uuid'' then (case v of CText s \<Rightarrow> CText s | _ \<Rightarrow> CNull)
      else CNull)"

text \<open>
  What a statement runs in: the clocks, the length of an interval, the value
  \<open>gen_random_uuid()\<close> yields, the bound parameters, the rows other transactions hold locked, and
  the table the statement sees.
\<close>

record ctx =
  x_now :: int
  x_clk :: int
  x_interval :: "int \<Rightarrow> int"
  x_uuid :: string
  x_params :: "colval list"
  x_locked :: "string \<Rightarrow> bool"
  x_tbl :: "row list"

definition param :: "ctx \<Rightarrow> nat \<Rightarrow> colval" where
  "param x n = (if 1 \<le> n \<and> n \<le> length (x_params x) then x_params x ! (n - 1) else CNull)"

definition col_value :: "(string \<times> row) list \<Rightarrow> string \<Rightarrow> string \<Rightarrow> colval" where
  "col_value rows alias name =
     (case map_of rows alias of
        None \<Rightarrow> CNull
      | Some r \<Rightarrow> (case column r name of None \<Rightarrow> CNull | Some v \<Rightarrow> v))"

fun texts_of :: "colval \<Rightarrow> string list" where
  "texts_of (CTexts ss) = ss"
| "texts_of _ = []"

text \<open>The place of a value in an ascending order, NULLs last.\<close>

fun sort_place :: "colval \<Rightarrow> int \<times> int \<times> string" where
  "sort_place (CTime t) = (0, t, '''')"
| "sort_place (CInt i) = (0, i, '''')"
| "sort_place (CText s) = (0, 0, s)"
| "sort_place _ = (1, 0, '''')"

fun limit_of :: "colval \<Rightarrow> nat" where
  "limit_of (CInt n) = nat n"
| "limit_of _ = 0"

fun sval :: "ctx \<Rightarrow> (string \<times> row) list \<Rightarrow> sexp \<Rightarrow> colval"
and strue :: "ctx \<Rightarrow> (string \<times> row) list \<Rightarrow> scond \<Rightarrow> tri" where
  "sval x rows (Col alias name) = col_value rows alias name"
| "sval x rows (Param n) = param x n"
| "sval x rows (Lit s) = CText s"
| "sval x rows (Num n) = CInt (int n)"
| "sval x rows Null = CNull"
| "sval x rows Now = CTime (x_now x)"
| "sval x rows Clock = CTime (x_clk x)"
| "sval x rows GenUuid = CText (x_uuid x)"
| "sval x rows (Interval e) = (case sval x rows e of CSecs d \<Rightarrow> CSpan (x_interval x d) | _ \<Rightarrow> CNull)"
| "sval x rows (Plus a b) = plus_val (sval x rows a) (sval x rows b)"
| "sval x rows (Minus a b) = minus_val (sval x rows a) (sval x rows b)"
| "sval x rows (Cast e ty) = cast_val ty (sval x rows e)"
| "sval x rows (Coalesce a b) = (if sval x rows a = CNull then sval x rows b else sval x rows a)"
| "sval x rows (CaseWhen c a b) = (if strue x rows c = Some True then sval x rows a else sval x rows b)"
| "strue x rows (Eq a b) = eq3 (sval x rows a) (sval x rows b)"
| "strue x rows (Less a b) = less3 (sval x rows a) (sval x rows b)"
| "strue x rows (AtMost a b) = map_option Not (less3 (sval x rows b) (sval x rows a))"
| "strue x rows (Greater a b) = less3 (sval x rows b) (sval x rows a)"
| "strue x rows (IsTrue e) = (case sval x rows e of CBool b \<Rightarrow> Some b | _ \<Rightarrow> None)"
| "strue x rows (IsNotNull e) = Some (sval x rows e \<noteq> CNull)"
| "strue x rows (InLits pos e ss) =
     (if sval x rows e = CNull then None else Some ((sval x rows e \<in> set (map CText ss)) = pos))"
| "strue x rows (RowLess a b c d) =
     (case eq3 (sval x rows a) (sval x rows c) of
        None \<Rightarrow> None
      | Some True \<Rightarrow> less3 (sval x rows b) (sval x rows d)
      | Some False \<Rightarrow> less3 (sval x rows a) (sval x rows c))"
| "strue x rows (And a b) = tri_and (strue x rows a) (strue x rows b)"
| "strue x rows (Or a b) = tri_or (strue x rows a) (strue x rows b)"
| "strue x rows (Paren c) = strue x rows c"
| "strue x rows (NotExists alias c) =
     Some (\<not> list_ex (\<lambda>e. strue x ((alias, e) # rows) c = Some True) (x_tbl x))"
| "strue x rows (AttemptIn p q) =
     (let pairs = zip (texts_of (param x p)) (texts_of (param x q))
      in case (col_value rows '''' ''id'', col_value rows '''' ''lease_token'') of
           (CText i, CText t) \<Rightarrow> Some ((i, t) \<in> set pairs)
         | (CText i, CNull) \<Rightarrow> if i \<in> set (map fst pairs) then None else Some False
         | _ \<Rightarrow> None)"
| "strue x rows (IdIn limit_last alias c key1 key2 lim) =
     (let found = filter (\<lambda>e. strue x [(alias, e)] c = Some True) (x_tbl x);
          sorted = sort_key (\<lambda>e. (sort_place (sval x [(alias, e)] key1), sort_place (sval x [(alias, e)] key2))) found;
          picked = take (limit_of (param x lim)) (filter (\<lambda>e. \<not> x_locked x (r_id e)) sorted)
      in Some (col_value rows '''' ''id'' \<in> set (map (\<lambda>e. CText (r_id e)) picked)))"

section \<open>Meaning of statements\<close>

text \<open>
  An assignment of a value to a column checks the column's type and constraints; all right-hand
  sides are evaluated on the row as it was.
\<close>

definition set_column :: "string \<Rightarrow> colval \<Rightarrow> row \<Rightarrow> row option" where
  "set_column c v r =
     (if c = ''status'' then map_option (\<lambda>s. r\<lparr>r_status := s\<rparr>) (Option.bind (to_string v) status_of_text)
      else if c = ''locked_by'' then map_option (\<lambda>s. r\<lparr>r_locked_by := s\<rparr>) (to_string_ptr v)
      else if c = ''locked_until'' then map_option (\<lambda>t. r\<lparr>r_locked_until := t\<rparr>) (to_time_ptr v)
      else if c = ''lease_token'' then map_option (\<lambda>s. r\<lparr>r_lease_token := s\<rparr>) (to_string_ptr v)
      else if c = ''attempts'' then map_option (\<lambda>i. r\<lparr>r_attempts := i\<rparr>) (to_int v)
      else if c = ''next_attempt_at'' then map_option (\<lambda>t. r\<lparr>r_next_attempt_at := t\<rparr>) (to_time v)
      else if c = ''last_error'' then map_option (\<lambda>s. r\<lparr>r_last_error := s\<rparr>) (to_string_ptr v)
      else if c = ''published_at'' then map_option (\<lambda>t. r\<lparr>r_published_at := t\<rparr>) (to_time_ptr v)
      else if c = ''finished_at'' then map_option (\<lambda>t. r\<lparr>r_finished_at := t\<rparr>) (to_time_ptr v)
      else if c = ''payload'' then map_option (\<lambda>b. r\<lparr>r_payload := b\<rparr>) (Option.bind (to_bytes v) (\<lambda>b. b))
      else if c = ''headers'' then map_option (\<lambda>h. r\<lparr>r_headers := h\<rparr>) (Option.bind (to_json v) (\<lambda>h. h))
      else None)"

fun assign :: "ctx \<Rightarrow> row \<Rightarrow> (string \<times> sexp) list \<Rightarrow> row \<Rightarrow> row option" where
  "assign x old [] r = Some r"
| "assign x old ((c, e) # sets) r =
     Option.bind (set_column c (sval x [('''', old)] e) r) (assign x old sets)"

text \<open>
  An update rewrites the rows its condition selects, one after the other; each draws a value of
  \<open>gen_random_uuid()\<close> if an assignment asks for one.
\<close>

definition draws :: "(string \<times> sexp) list \<Rightarrow> bool" where
  "draws sets \<longleftrightarrow> GenUuid \<in> set (map snd sets)"

fun run_update ::
  "(nat \<Rightarrow> string) \<Rightarrow> ctx \<Rightarrow> (string \<times> sexp) list \<Rightarrow> scond \<Rightarrow> nat \<Rightarrow> row list \<Rightarrow>
     (row list \<times> row list \<times> nat) option" where
  "run_update gen x sets c k [] = Some ([], [], k)"
| "run_update gen x sets c k (r # rs) =
     (if strue x [('''', r)] c = Some True
      then Option.bind (assign (x\<lparr>x_uuid := gen k\<rparr>) r sets r) (\<lambda>r'.
             map_option (\<lambda>(tbl, out, k'). (r' # tbl, r' # out, k'))
               (run_update gen x sets c (if draws sets then Suc k else k) rs))
      else map_option (\<lambda>(tbl, out, k'). (r # tbl, out, k')) (run_update gen x sets c k rs))"

text \<open>
  The result: the table, the rows a \<open>RETURNING\<close> clause is about, the number of affected rows, the
  number of notifications and of the next generated value. \<open>None\<close> is an error.
\<close>

record effect =
  f_tbl :: "row list"
  f_out :: "row list"
  f_count :: nat
  f_notified :: nat
  f_uuid :: nat

definition run_stmt :: "(nat \<Rightarrow> string) \<Rightarrow> ctx \<Rightarrow> stmt \<Rightarrow> nat \<Rightarrow> effect option" where
  "run_stmt gen x st k =
     (case st of
        UpdateS sets c ret \<Rightarrow>
          map_option (\<lambda>(tbl, out, k'). \<lparr>f_tbl = tbl, f_out = out, f_count = length out, f_notified = 0, f_uuid = k'\<rparr>)
            (run_update gen x sets c k (x_tbl x))
      | DeleteS c \<Rightarrow>
          (let gone = filter (\<lambda>r. strue x [('''', r)] c = Some True) (x_tbl x)
           in Some \<lparr>f_tbl = filter (\<lambda>r. strue x [('''', r)] c \<noteq> Some True) (x_tbl x), f_out = [],
                f_count = length gone, f_notified = 0, f_uuid = k\<rparr>)
      | NotifyChanged sets c channel \<Rightarrow>
          map_option (\<lambda>(tbl, out, k').
              \<lparr>f_tbl = tbl, f_out = [], f_count = length out, f_notified = length out, f_uuid = k'\<rparr>)
            (run_update gen x sets c k (x_tbl x)))"

section \<open>Binding the arguments\<close>

text \<open>The type the database infers for a parameter; a value that is none of its type is rejected.\<close>

datatype ptype = TText | TUuid | TUuids | TInt | TInt4 | TFloat | TBool | TBytes | TJson

fun bind_arg :: "env \<Rightarrow> ptype \<Rightarrow> sqlarg \<Rightarrow> colval option" where
  "bind_arg env TText ANull = Some CNull"
| "bind_arg env TText (AText s) = (if e_text_ok env s then Some (CText s) else None)"
| "bind_arg env TUuid ANull = Some CNull"
| "bind_arg env TUuid (AText s) = map_option CText (e_uuid_in env s)"
| "bind_arg env TUuids (ATexts ss) = map_option CTexts (those (map (e_uuid_in env) ss))"
| "bind_arg env TInt (AInt i) = Some (CInt i)"
| "bind_arg env TFloat (ASecs d) = Some (CSecs d)"
| "bind_arg env TBool (ABool b) = Some (CBool b)"
| "bind_arg env TInt4 ANull = Some CNull"
| "bind_arg env TInt4 (AInt i) = (if - (2 ^ 31) \<le> i \<and> i < 2 ^ 31 then Some (CInt i) else None)"
| "bind_arg env TBytes ANull = Some CNull"
| "bind_arg env TBytes (ABytes b) = Some (CBytes b)"
| "bind_arg env TJson (AText s) = (if e_text_ok env s then map_option CJson (jsonb_in s) else None)"
| "bind_arg env _ _ = None"

definition bind_args :: "env \<Rightarrow> ptype list \<Rightarrow> sqlarg list \<Rightarrow> colval list option" where
  "bind_args env tys args =
     (if length tys = length args then those (map2 (bind_arg env) tys args) else None)"

text \<open>One statement sent to the database at tick \<open>n\<close>.\<close>

definition ctx_at :: "env \<Rightarrow> colval list \<Rightarrow> nat \<Rightarrow> row list \<Rightarrow> ctx" where
  "ctx_at env ps n tbl =
     \<lparr>x_now = e_now env n, x_clk = e_clk env n, x_interval = e_interval env, x_uuid = '''',
      x_params = ps, x_locked = e_locked env n, x_tbl = tbl\<rparr>"

definition send :: "env \<Rightarrow> ptype list \<Rightarrow> stmt \<Rightarrow> sqlarg list \<Rightarrow> nat \<Rightarrow> database \<Rightarrow> (goerr + effect) \<times> database" where
  "send env tys st args n d =
     (case Option.bind (bind_args env tys args) (\<lambda>ps.
         run_stmt (e_gen env) (ctx_at env ps n (d_rows d)) st (d_uuid d)) of
        None \<Rightarrow> (Inl (e_sql_error env), d)
      | Some f \<Rightarrow>
          (Inr f, d\<lparr>d_rows := f_tbl f, d_uuid := f_uuid f, d_notified := d_notified d + f_notified f\<rparr>))"

text \<open>\<open>Exec\<close> reads the number of affected rows, \<open>Query\<close> scans what \<open>RETURNING\<close> yields.\<close>

definition exec_sql :: "env \<Rightarrow> ptype list \<Rightarrow> stmt \<Rightarrow> sqlarg list \<Rightarrow> nat \<Rightarrow> database \<Rightarrow> (goerr + nat) \<times> database" where
  "exec_sql env tys st args n d =
     (case send env tys st args n d of
        (Inl e, d') \<Rightarrow> (Inl e, d')
      | (Inr f, d') \<Rightarrow> (Inr (f_count f), d'))"

fun returned :: "stmt \<Rightarrow> string" where
  "returned (UpdateS sets c cols) = cols"
| "returned _ = ''''"

definition query_sql :: "env \<Rightarrow> ptype list \<Rightarrow> stmt \<Rightarrow> sqlarg list \<Rightarrow> nat \<Rightarrow> database \<Rightarrow> (goerr + message list) \<times> database" where
  "query_sql env tys st args n d =
     (case send env tys st args n d of
        (Inl e, d') \<Rightarrow> (Inl e, d')
      | (Inr f, d') \<Rightarrow>
          (case those (map (\<lambda>r. Option.bind (returning (returned st) r) scan_values) (e_returning env n (f_out f))) of
             None \<Rightarrow> (Inl (e_sql_error env), d')
           | Some msgs \<Rightarrow> (Inr msgs, d')))"

section \<open>Words\<close>

text \<open>
  The words of a text: blanks separate, and each of \<^verbatim>\<open>( ) , = < > + - :\<close> is a word of its own.
\<close>

definition blank :: "char \<Rightarrow> bool" where
  "blank c \<longleftrightarrow> c = CHR '' '' \<or> c = CHR 0x0A \<or> c = CHR 0x09"

definition symbol :: "char \<Rightarrow> bool" where
  "symbol c \<longleftrightarrow> c \<in> set ''(),=<>+-:''"

definition flush :: "string \<Rightarrow> string list" where
  "flush acc = (if acc = '''' then [] else [acc])"

fun split_words :: "string \<Rightarrow> string \<Rightarrow> string list" where
  "split_words acc [] = flush acc"
| "split_words acc (c # cs) =
     (if blank c then flush acc @ split_words '''' cs
      else if symbol c then flush acc @ [c] # split_words '''' cs
      else split_words (acc @ [c]) cs)"

definition words :: "string \<Rightarrow> string list" where
  "words s = split_words '''' s"

fun sprintf :: "string \<Rightarrow> string list \<Rightarrow> string" where
  "sprintf [] args = []"
| "sprintf (c # cs) args =
     (if c = CHR ''%'' \<and> cs \<noteq> [] \<and> hd cs = CHR ''s''
      then (case args of [] \<Rightarrow> c # sprintf cs args | a # rest \<Rightarrow> a @ sprintf (tl cs) rest)
      else c # sprintf cs args)"

text \<open>The words a syntax tree is written with, for a table written with the words \<open>t\<close>.\<close>

definition col_word :: "string \<Rightarrow> string \<Rightarrow> string" where
  "col_word alias name = (if alias = '''' then name else alias @ ''.'' @ name)"

definition lit_word :: "string \<Rightarrow> string" where
  "lit_word s = CHR 0x27 # s @ [CHR 0x27]"

definition param_word :: "nat \<Rightarrow> string" where
  "param_word n = CHR ''$'' # show_nat n"

fun commas :: "string list list \<Rightarrow> string list" where
  "commas [] = []"
| "commas [ws] = ws"
| "commas (ws # wss) = ws @ '','' # commas wss"

fun exp_words :: "string list \<Rightarrow> sexp \<Rightarrow> string list"
and cond_words :: "string list \<Rightarrow> scond \<Rightarrow> string list" where
  "exp_words t (Col alias name) = [col_word alias name]"
| "exp_words t (Param n) = [param_word n]"
| "exp_words t (Lit s) = [lit_word s]"
| "exp_words t (Num n) = [show_nat n]"
| "exp_words t Null = [''NULL'']"
| "exp_words t Now = [''now'', ''('', '')'']"
| "exp_words t Clock = [''clock_timestamp'', ''('', '')'']"
| "exp_words t GenUuid = [''gen_random_uuid'', ''('', '')'']"
| "exp_words t (Interval e) = [''make_interval'', ''('', ''secs'', ''='', ''>''] @ exp_words t e @ ['')'']"
| "exp_words t (Plus a b) = exp_words t a @ ''+'' # exp_words t b"
| "exp_words t (Minus a b) = exp_words t a @ ''-'' # exp_words t b"
| "exp_words t (Cast e ty) = exp_words t e @ '':'' # '':'' # words ty"
| "exp_words t (Coalesce a b) = [''COALESCE'', ''(''] @ exp_words t a @ '','' # exp_words t b @ ['')'']"
| "exp_words t (CaseWhen c a b) =
     [''CASE'', ''WHEN''] @ cond_words t c @ ''THEN'' # exp_words t a @ ''ELSE'' # exp_words t b @ [''END'']"
| "cond_words t (Eq a b) = exp_words t a @ ''='' # exp_words t b"
| "cond_words t (Less a b) = exp_words t a @ ''<'' # exp_words t b"
| "cond_words t (AtMost a b) = exp_words t a @ ''<'' # ''='' # exp_words t b"
| "cond_words t (Greater a b) = exp_words t a @ ''>'' # exp_words t b"
| "cond_words t (IsTrue e) = exp_words t e"
| "cond_words t (IsNotNull e) = exp_words t e @ [''IS'', ''NOT'', ''NULL'']"
| "cond_words t (InLits pos e ss) =
     exp_words t e @ (if pos then [''IN''] else [''NOT'', ''IN'']) @
       ''('' # commas (map (\<lambda>s. [lit_word s]) ss) @ ['')'']"
| "cond_words t (RowLess a b c d) =
     ''('' # exp_words t a @ '','' # exp_words t b @ '')'' # ''<'' #
       ''('' # exp_words t c @ '','' # exp_words t d @ ['')'']"
| "cond_words t (And a b) = cond_words t a @ ''AND'' # cond_words t b"
| "cond_words t (Or a b) = cond_words t a @ ''OR'' # cond_words t b"
| "cond_words t (Paren c) = ''('' # cond_words t c @ ['')'']"
| "cond_words t (NotExists alias c) =
     [''NOT'', ''EXISTS'', ''('', ''SELECT'', ''1'', ''FROM''] @ t @ [alias, ''WHERE''] @ cond_words t c @ ['')'']"
| "cond_words t (AttemptIn p q) =
     [''('', ''id'', '','', ''lease_token'', '')'', ''IN'', ''('', ''SELECT'', ''*'', ''FROM'', ''unnest'', ''('',
      param_word p, '':'', '':'', ''uuid[]'', '','', param_word q, '':'', '':'', ''uuid[]'', '')'', '')'']"
| "cond_words t (IdIn limit_last alias c key1 key2 lim) =
     [''id'', ''IN'', ''('', ''SELECT'', col_word alias ''id'', ''FROM''] @ t @ (if alias = '''' then [] else [alias]) @
       ''WHERE'' # cond_words t c @ [''ORDER'', ''BY''] @ exp_words t key1 @ '','' # exp_words t key2 @
       (if limit_last then [''FOR'', ''UPDATE'', ''SKIP'', ''LOCKED'', ''LIMIT'', param_word lim]
        else [''LIMIT'', param_word lim, ''FOR'', ''UPDATE'', ''SKIP'', ''LOCKED'']) @ ['')'']"

definition update_words :: "string list \<Rightarrow> (string \<times> sexp) list \<Rightarrow> scond \<Rightarrow> string \<Rightarrow> string list" where
  "update_words t sets c ret =
     ''UPDATE'' # t @ ''SET'' # commas (map (\<lambda>(c, e). c # ''='' # exp_words t e) sets) @
       ''WHERE'' # cond_words t c @ (if ret = '''' then [] else ''RETURNING'' # words ret)"

fun stmt_words :: "string list \<Rightarrow> stmt \<Rightarrow> string list" where
  "stmt_words t (UpdateS sets c ret) = update_words t sets c ret"
| "stmt_words t (DeleteS c) = [''DELETE'', ''FROM''] @ t @ ''WHERE'' # cond_words t c"
| "stmt_words t (NotifyChanged sets c channel) =
     [''WITH'', ''changed'', ''AS'', ''(''] @ update_words t sets c ''id'' @
       [ '')'', ''SELECT'', ''pg_notify'', ''('', lit_word channel, '','', lit_word '''', '')'', ''FROM'', ''changed'']"

text \<open>
  A written condition is read with \<open>AND\<close> binding tighter than \<open>OR\<close>, so a disjunction inside a
  conjunction needs its parentheses.
\<close>

fun is_or :: "scond \<Rightarrow> bool" where
  "is_or (Or a b) = True"
| "is_or _ = False"

fun exp_nested :: "sexp \<Rightarrow> bool"
and nested :: "scond \<Rightarrow> bool" where
  "exp_nested (CaseWhen c a b) = (nested c \<and> exp_nested a \<and> exp_nested b)"
| "exp_nested _ = True"
| "nested (And a b) = (\<not> is_or a \<and> \<not> is_or b \<and> nested a \<and> nested b)"
| "nested (Or a b) = (nested a \<and> nested b)"
| "nested (Paren c) = nested c"
| "nested (NotExists alias c) = nested c"
| "nested (IdIn limit_last alias c key1 key2 lim) = nested c"
| "nested _ = True"

fun stmt_nested :: "stmt \<Rightarrow> bool" where
  "stmt_nested (UpdateS sets c cols) = (list_all (\<lambda>(c, e). exp_nested e) sets \<and> nested c)"
| "stmt_nested (DeleteS c) = nested c"
| "stmt_nested (NotifyChanged sets c channel) = (list_all (\<lambda>(c, e). exp_nested e) sets \<and> nested c)"

text \<open>
  Filling a template commutes with taking words: the words of the result are those of the
  template with each \<open>%s\<close> that stands as a word of its own replaced by the words of its argument.
\<close>

fun fill :: "string list \<Rightarrow> string list list \<Rightarrow> string list" where
  "fill [] args = []"
| "fill (w # ws) args =
     (if w = ''%s''
      then (case args of [] \<Rightarrow> w # fill ws [] | a # rest \<Rightarrow> a @ fill ws rest)
      else w # fill ws args)"

definition apart :: "char \<Rightarrow> bool" where
  "apart c \<longleftrightarrow> blank c \<or> symbol c"

text \<open>In a template, a percent sign only occurs as \<open>%s\<close> between separators.\<close>

fun template_ok :: "bool \<Rightarrow> string \<Rightarrow> bool" where
  "template_ok start [] = True"
| "template_ok start (c # cs) =
     (if c = CHR ''%''
      then start \<and> cs \<noteq> [] \<and> hd cs = CHR ''s'' \<and> (tl cs = [] \<or> apart (hd (tl cs))) \<and> template_ok False (tl cs)
      else template_ok (apart c) cs)"

lemma split_words_append:
  assumes "rest = [] \<or> apart (hd rest)"
  shows "split_words acc (s @ rest) = split_words acc s @ split_words '''' rest"
proof (induction s arbitrary: acc)
  case Nil
  then show ?case using assms by (cases rest) (auto simp: apart_def flush_def)
qed (auto simp: Let_def)

lemma fill_append: "''%s'' \<notin> set ws \<Longrightarrow> fill (ws @ xs) args = ws @ fill xs args"
  by (induction ws) auto

lemma split_words_sprintf:
  assumes "template_ok (acc = '''') s" and "CHR ''%'' \<notin> set acc" and "length args = count_list s (CHR ''%'')"
  shows "split_words acc (sprintf s args) = fill (split_words acc s) (map words args)"
  using assms
proof (induction s arbitrary: acc args rule: length_induct)
  case (1 s)
  note IH = 1(1)
  have plain: "''%s'' \<notin> set (flush acc)" using 1(3) by (auto simp: flush_def)
  show ?case
  proof (cases s)
    case Nil
    then show ?thesis using fill_append [OF plain, of "[]"] 1(4) by simp
  next
    case (Cons c cs)
    show ?thesis
    proof (cases "c = CHR ''%''")
      case True
      obtain cs' where cs: "cs = CHR ''s'' # cs'" and acc: "acc = ''''"
        and sep: "cs' = [] \<or> apart (hd cs')" and ok: "template_ok False cs'"
        using 1(2) Cons True by (cases cs) auto
      obtain a rest where args: "args = a # rest" "length rest = count_list cs' (CHR ''%'')"
        using 1(4) Cons True cs by (cases args) auto
      have ok': "template_ok True cs'"
        using ok sep by (cases cs') (auto simp: apart_def blank_def symbol_def)
      have hd_ok: "sprintf cs' rest = [] \<or> apart (hd (sprintf cs' rest))"
      proof (cases cs')
        case (Cons d ds)
        then have "d \<noteq> CHR ''%''" using sep by (auto simp: apart_def blank_def symbol_def)
        then show ?thesis using Cons sep by simp
      qed simp
      have "split_words '''' (sprintf cs' rest) = fill (split_words '''' cs') (map words rest)"
        using IH Cons cs ok' args(2) by (auto simp: less_Suc_eq)
      moreover have "split_words '''' (CHR ''%'' # CHR ''s'' # cs') = ''%s'' # split_words '''' cs'"
        using split_words_append [OF sep, of "''''" "''%s''"] by (simp add: blank_def symbol_def flush_def)
      ultimately show ?thesis
        using split_words_append [OF hd_ok, of "''''" a] Cons True cs acc args(1)
        by (simp add: words_def [of a, symmetric])
    next
      case False
      have len: "length args = count_list cs (CHR ''%'')" using 1(4) Cons False by simp
      have ok: "template_ok (apart c) cs" using 1(2) Cons False by simp
      show ?thesis
      proof (cases "apart c")
        case True
        then have "split_words '''' (sprintf cs args) = fill (split_words '''' cs) (map words args)"
          using IH Cons ok len by simp
        moreover have "[c] \<noteq> ''%s''" by simp
        ultimately show ?thesis
          using True Cons False fill_append [OF plain] by (auto simp: apart_def)
      next
        case no: False
        then have "template_ok (acc @ [c] = '''') cs" using ok by simp
        then have "split_words (acc @ [c]) (sprintf cs args) = fill (split_words (acc @ [c]) cs) (map words args)"
          using IH Cons len False 1(3) by simp
        then show ?thesis using no Cons False by (simp add: apart_def)
      qed
    qed
  qed
qed

lemma words_sprintf:
  assumes "template_ok True s" and "length args = count_list s (CHR ''%'')"
  shows "words (sprintf s args) = fill (words s) (map words args)"
  using split_words_sprintf [of "''''" s args] assms by (simp add: words_def)

end
