(* ===== verification/Statements.thy ===== *)
theory Statements
  imports Sql
begin

text \<open>
  The five statements of \<^verbatim>\<open>engine/store.go\<close> other than the insert (theory \<open>Insertion\<close>): the texts the methods format,
  the syntax trees they are written from, the types of their parameters, and what they mean on the
  table. Theory \<open>Table\<close> gives the same statements their meaning as functions on the rows.
\<close>

section \<open>The texts\<close>

fun lines :: "string list \<Rightarrow> string" where
  "lines [] = ''''"
| "lines [l] = l"
| "lines (l # ls) = l @ CHR 0x0A # lines ls"

definition ordered_template :: string where
  "ordered_template = lines
    ['''',
     ''    AND NOT EXISTS ('',
     ''        SELECT 1 FROM %s e'',
     ''        WHERE o.partition_key IS NOT NULL'',
     ''          AND e.partition_key = o.partition_key'',
     ''          AND (e.created_at, e.seq) < (o.created_at, o.seq)'',
     ''          AND e.status NOT IN ('published', 'discarded'))'']"

definition claim_template :: string where
  "claim_template = lines
    ['''',
     ''UPDATE %s SET'',
     ''    status = 'processing','',
     ''    locked_by = $1,'',
     ''    locked_until = clock_timestamp() + make_interval(secs => $2),'',
     ''    lease_token = gen_random_uuid(),'',
     ''    attempts = attempts + 1'',
     ''WHERE id IN ('',
     ''    SELECT o.id FROM %s o'',
     ''    WHERE o.next_attempt_at <= now()'',
     ''      AND (o.status = 'pending' OR (o.status = 'processing' AND o.locked_until < now()))%s'',
     ''    ORDER BY o.created_at, o.seq'',
     ''    FOR UPDATE SKIP LOCKED'',
     ''    LIMIT $3'',
     '')'',
     ''RETURNING %s'']"

definition claim_sql :: "string \<Rightarrow> bool \<Rightarrow> string" where
  "claim_sql table ordered =
     sprintf claim_template
       [table, table, if ordered then sprintf ordered_template [table] else '''', messageColumns]"

definition renew_template :: string where
  "renew_template = lines
    [''UPDATE %s SET'',
     '' locked_until=clock_timestamp()+make_interval(secs => $3)'',
     '' WHERE (id, lease_token) IN (SELECT * FROM unnest($1::uuid[], $2::uuid[]))'',
     '' AND status='processing' AND locked_until > clock_timestamp()'']"

definition renew_sql :: "string \<Rightarrow> string" where
  "renew_sql table = sprintf renew_template [table]"

definition finish_template :: string where
  "finish_template = lines
    [''UPDATE %s SET'',
     '' status=$3,'',
     '' next_attempt_at=CASE WHEN $3='pending' THEN clock_timestamp()+make_interval(secs => $5) ELSE next_attempt_at END,'',
     '' last_error=$4,'',
     '' published_at=CASE WHEN $3='published' THEN clock_timestamp() ELSE NULL END,'',
     '' finished_at=CASE WHEN $3='pending' THEN NULL ELSE clock_timestamp() END,'',
     '' payload=CASE WHEN $6 AND $3 IN ('published','discarded') THEN '' @ [CHR 0x27, CHR 0x27] @ ''::bytea ELSE payload END,'',
     '' headers=CASE WHEN $6 AND $3 IN ('published','discarded') THEN '{}'::jsonb ELSE headers END,'',
     '' locked_by=NULL, locked_until=NULL, lease_token=NULL'',
     '' WHERE (id, lease_token) IN (SELECT * FROM unnest($1::uuid[], $2::uuid[]))'',
     '' AND status='processing' AND locked_until > clock_timestamp()'',
     '' RETURNING %s'']"

definition finish_sql :: "string \<Rightarrow> string" where
  "finish_sql table = sprintf finish_template [table, messageColumns]"

definition NotifyChannel :: string where
  "NotifyChannel = ''outbox_messages''"

definition requeue_template :: string where
  "requeue_template = lines
    [''WITH changed AS ('',
     '' UPDATE %s SET status='pending', attempts=0, next_attempt_at=clock_timestamp(),'',
     '' last_error=NULL, finished_at=NULL, published_at=NULL,'',
     '' locked_by=NULL, locked_until=NULL, lease_token=NULL'',
     '' WHERE id=$1 AND status='dead' RETURNING id'',
     '' ) SELECT pg_notify('%s','' @ [CHR 0x27, CHR 0x27] @ '') FROM changed'']"

definition requeue_sql :: "string \<Rightarrow> string" where
  "requeue_sql table = sprintf requeue_template [table, NotifyChannel]"

definition cleanup_template :: string where
  "cleanup_template = lines
    [''DELETE FROM %s WHERE id IN ('',
     '' SELECT id FROM %s WHERE'',
     '' ($1::double precision > 0 AND status='published' AND published_at < now()-make_interval(secs => $1)) OR'',
     '' ($2::double precision > 0 AND status='dead' AND finished_at < now()-make_interval(secs => $2)) OR'',
     '' ($3::double precision > 0 AND status='discarded' AND finished_at < now()-make_interval(secs => $3))'',
     '' ORDER BY COALESCE(finished_at, published_at), id'',
     '' LIMIT $4 FOR UPDATE SKIP LOCKED'',
     '' )'']"

definition cleanup_sql :: "string \<Rightarrow> string" where
  "cleanup_sql table = sprintf cleanup_template [table, table]"

section \<open>The syntax trees\<close>

abbreviation (input) col :: "string \<Rightarrow> sexp" where
  "col \<equiv> Col ''''"

abbreviation (input) after :: "sexp \<Rightarrow> nat \<Rightarrow> sexp" where
  "after e p \<equiv> Plus e (Interval (Param p))"

definition fence :: scond where
  "fence = And (AttemptIn 1 2) (And (Eq (col ''status'') (Lit ''processing'')) (Greater (col ''locked_until'') Clock))"

definition earlier_unfinished :: scond where
  "earlier_unfinished =
     And (IsNotNull (Col ''o'' ''partition_key''))
       (And (Eq (Col ''e'' ''partition_key'') (Col ''o'' ''partition_key''))
         (And (RowLess (Col ''e'' ''created_at'') (Col ''e'' ''seq'') (Col ''o'' ''created_at'') (Col ''o'' ''seq''))
           (InLits False (Col ''e'' ''status'') [''published'', ''discarded''])))"

definition candidate :: scond where
  "candidate =
     And (AtMost (Col ''o'' ''next_attempt_at'') Now)
       (Paren (Or (Eq (Col ''o'' ''status'') (Lit ''pending''))
         (Paren (And (Eq (Col ''o'' ''status'') (Lit ''processing'')) (Less (Col ''o'' ''locked_until'') Now)))))"

definition claim_cond :: "bool \<Rightarrow> scond" where
  "claim_cond ordered =
     IdIn True ''o'' (if ordered then And candidate (NotExists ''e'' earlier_unfinished) else candidate)
       (Col ''o'' ''created_at'') (Col ''o'' ''seq'') 3"

definition claim_sets :: "(string \<times> sexp) list" where
  "claim_sets =
     [(''status'', Lit ''processing''), (''locked_by'', Param 1), (''locked_until'', after Clock 2),
      (''lease_token'', GenUuid), (''attempts'', Plus (col ''attempts'') (Num 1))]"

definition claim_tree :: "bool \<Rightarrow> stmt" where
  "claim_tree ordered =
     UpdateS claim_sets
       (claim_cond ordered) messageColumns"

definition renew_tree :: stmt where
  "renew_tree = UpdateS [(''locked_until'', after Clock 3)] fence ''''"

definition status_param :: "string list \<Rightarrow> scond" where
  "status_param ss = InLits True (Param 3) ss"

definition finish_sets :: "(string \<times> sexp) list" where
  "finish_sets =
     [(''status'', Param 3),
      (''next_attempt_at'', CaseWhen (Eq (Param 3) (Lit ''pending'')) (after Clock 5) (col ''next_attempt_at'')),
      (''last_error'', Param 4),
      (''published_at'', CaseWhen (Eq (Param 3) (Lit ''published'')) Clock Null),
      (''finished_at'', CaseWhen (Eq (Param 3) (Lit ''pending'')) Null Clock),
      (''payload'', CaseWhen (And (IsTrue (Param 6)) (status_param [''published'', ''discarded'']))
        (Cast (Lit '''') ''bytea'') (col ''payload'')),
      (''headers'', CaseWhen (And (IsTrue (Param 6)) (status_param [''published'', ''discarded'']))
        (Cast (Lit ''{}'') ''jsonb'') (col ''headers'')),
      (''locked_by'', Null), (''locked_until'', Null), (''lease_token'', Null)]"

definition finish_tree :: stmt where
  "finish_tree =
     UpdateS finish_sets
       fence messageColumns"

definition requeue_sets :: "(string \<times> sexp) list" where
  "requeue_sets =
     [(''status'', Lit ''pending''), (''attempts'', Num 0), (''next_attempt_at'', Clock),
      (''last_error'', Null), (''finished_at'', Null), (''published_at'', Null),
      (''locked_by'', Null), (''locked_until'', Null), (''lease_token'', Null)]"

definition requeue_cond :: scond where
  "requeue_cond = And (Eq (col ''id'') (Param 1)) (Eq (col ''status'') (Lit ''dead''))"

definition requeue_tree :: stmt where
  "requeue_tree =
     NotifyChanged requeue_sets
       requeue_cond NotifyChannel"

definition past_retention :: "nat \<Rightarrow> string \<Rightarrow> string \<Rightarrow> scond" where
  "past_retention p status at =
     Paren (And (Greater (Cast (Param p) ''double precision'') (Num 0))
       (And (Eq (col ''status'') (Lit status)) (Less (col at) (Minus Now (Interval (Param p))))))"

definition cleanup_cond :: scond where
  "cleanup_cond =
     IdIn False ''''
       (Or (past_retention 1 ''published'' ''published_at'')
         (Or (past_retention 2 ''dead'' ''finished_at'') (past_retention 3 ''discarded'' ''finished_at'')))
       (Coalesce (col ''finished_at'') (col ''published_at'')) (col ''id'') 4"

definition cleanup_tree :: stmt where
  "cleanup_tree = DeleteS cleanup_cond"

section \<open>The arguments\<close>

definition claim_args :: "settings \<Rightarrow> sqlarg list" where
  "claim_args cfg = [AText (s_InstanceID cfg), ASecs (s_LeaseDuration cfg), AInt (s_BatchSize cfg)]"

definition renew_args :: "message list \<Rightarrow> int \<Rightarrow> sqlarg list" where
  "renew_args msgs duration =
     (let (ids, tokens) = claimKeys msgs in [ATexts ids, ATexts tokens, ASecs duration])"

definition finish_args :: "message list \<Rightarrow> status \<Rightarrow> string \<Rightarrow> int \<Rightarrow> bool \<Rightarrow> sqlarg list" where
  "finish_args msgs status reason delay clear =
     (let (ids, tokens) = claimKeys msgs
      in [ATexts ids, ATexts tokens, AText (status_text status), nullStr reason, ASecs delay, ABool clear])"

definition requeue_args :: "string \<Rightarrow> sqlarg list" where
  "requeue_args ident = [AText ident]"

definition cleanup_args :: "settings \<Rightarrow> sqlarg list" where
  "cleanup_args cfg =
     [ASecs (s_Retention cfg), ASecs (s_DeadRetention cfg), ASecs (s_DiscardRetention cfg), AInt (s_BatchSize cfg)]"

definition claim_types :: "ptype list" where "claim_types = [TText, TFloat, TInt]"

definition renew_types :: "ptype list" where "renew_types = [TUuids, TUuids, TFloat]"

definition finish_types :: "ptype list" where
  "finish_types = [TUuids, TUuids, TText, TText, TFloat, TBool]"

definition requeue_types :: "ptype list" where "requeue_types = [TUuid]"

definition cleanup_types :: "ptype list" where "cleanup_types = [TFloat, TFloat, TFloat, TInt]"

section \<open>Each text is its tree\<close>

lemma renew_words: "words (renew_sql table) = stmt_words (words table) renew_tree"
proof -
  have "template_ok True renew_template" "length [table] = count_list renew_template (CHR ''%'')" by code_simp+
  then have "words (renew_sql table) = fill (words renew_template) [words table]"
    by (simp add: renew_sql_def words_sprintf)
  also have "\<dots> = stmt_words (words table) renew_tree" by code_simp
  finally show ?thesis .
qed

lemma finish_words: "words (finish_sql table) = stmt_words (words table) finish_tree"
proof -
  have "template_ok True finish_template"
    "length [table, messageColumns] = count_list finish_template (CHR ''%'')" by code_simp+
  then have "words (finish_sql table) = fill (words finish_template) [words table, words messageColumns]"
    by (simp add: finish_sql_def words_sprintf)
  also have "\<dots> = stmt_words (words table) finish_tree" by code_simp
  finally show ?thesis .
qed

lemma cleanup_words: "words (cleanup_sql table) = stmt_words (words table) cleanup_tree"
proof -
  have "template_ok True cleanup_template"
    "length [table, table] = count_list cleanup_template (CHR ''%'')" by code_simp+
  then have "words (cleanup_sql table) = fill (words cleanup_template) [words table, words table]"
    by (simp add: cleanup_sql_def words_sprintf)
  also have "\<dots> = stmt_words (words table) cleanup_tree" by code_simp
  finally show ?thesis .
qed

text \<open>The name of the channel stands inside quotes, so it is filled in first.\<close>

lemma requeue_words: "words (requeue_sql table) = stmt_words (words table) requeue_tree"
proof -
  let ?t = "sprintf requeue_template [''%s'', NotifyChannel]"
  have "sprintf requeue_template [table, NotifyChannel] = sprintf ?t [table]" by code_simp
  moreover have "template_ok True ?t" "length [table] = count_list ?t (CHR ''%'')" by code_simp+
  ultimately have "words (requeue_sql table) = fill (words ?t) [words table]"
    by (simp add: requeue_sql_def words_sprintf)
  also have "\<dots> = stmt_words (words table) requeue_tree" by code_simp simp
  finally show ?thesis .
qed

lemma ordered_words:
  "words (sprintf ordered_template [table]) = ''AND'' # cond_words (words table) (NotExists ''e'' earlier_unfinished)"
proof -
  have "template_ok True ordered_template" "length [table] = count_list ordered_template (CHR ''%'')"
    by code_simp+
  then have "words (sprintf ordered_template [table]) = fill (words ordered_template) [words table]"
    by (simp add: words_sprintf)
  also have "\<dots> = ''AND'' # cond_words (words table) (NotExists ''e'' earlier_unfinished)" by code_simp
  finally show ?thesis .
qed

lemma claim_words: "words (claim_sql table ordered) = stmt_words (words table) (claim_tree ordered)"
proof -
  let ?o = "if ordered then sprintf ordered_template [table] else ''''"
  have "template_ok True claim_template"
    "length [table, table, ?o, messageColumns] = count_list claim_template (CHR ''%'')" by code_simp+
  then have "words (claim_sql table ordered) =
      fill (words claim_template) [words table, words table, words ?o, words messageColumns]"
    by (simp add: claim_sql_def words_sprintf)
  also have "\<dots> = stmt_words (words table) (claim_tree ordered)"
  proof (cases ordered)
    case True
    have "fill (words claim_template)
        [words table, words table, ''AND'' # cond_words (words table) (NotExists ''e'' earlier_unfinished),
         words messageColumns] = stmt_words (words table) (claim_tree True)" by code_simp simp
    then show ?thesis using True by (simp add: ordered_words)
  next
    case False
    have "fill (words claim_template) [words table, words table, words '''', words messageColumns] =
        stmt_words (words table) (claim_tree False)" by code_simp simp
    then show ?thesis using False by simp
  qed
  finally show ?thesis .
qed

lemma trees_nested:
  "stmt_nested (claim_tree ordered)" "stmt_nested renew_tree" "stmt_nested finish_tree"
  "stmt_nested requeue_tree" "stmt_nested cleanup_tree"
proof -
  have "stmt_nested (claim_tree True)" "stmt_nested (claim_tree False)" by code_simp+
  then show "stmt_nested (claim_tree ordered)" by (cases ordered) simp_all
qed code_simp+

section \<open>Each tree is its function on the rows\<close>

lemma sort_key_cong_order:
  assumes "\<And>x y. \<lbrakk>x \<in> set xs; y \<in> set xs\<rbrakk> \<Longrightarrow> f x \<le> f y \<longleftrightarrow> g x \<le> g y"
  shows "sort_key f xs = sort_key g xs"
  using assms
proof (induction xs)
  case (Cons a xs)
  have "insort_key f a ys = insort_key g a ys" if "set ys \<subseteq> set xs" for ys
    using that Cons.prems by (induction ys) auto
  then have "insort_key f a (sort_key g xs) = insort_key g a (sort_key g xs)" by simp
  moreover have "sort_key f xs = sort_key g xs" using Cons by simp
  ultimately show ?case by simp
qed simp

lemma run_update_map:
  assumes "\<not> draws sets" and "\<And>r. strue x [('''', r)] c = Some True \<longleftrightarrow> P r"
    and "\<And>u r. P r \<Longrightarrow> assign (x\<lparr>x_uuid := u\<rparr>) r sets r = Some (f r)"
  shows "run_update gen x sets c k tbl = Some (map (\<lambda>r. if P r then f r else r) tbl, map f (filter P tbl), k)"
  by (induction tbl) (simp_all add: assms)

lemma run_update_claim:
  assumes "draws sets" and "\<And>r. strue x [('''', r)] c = Some True \<longleftrightarrow> r_id r \<in> set ids"
    and "\<And>u r. assign (x\<lparr>x_uuid := u\<rparr>) r sets r = Some (claim_row inst until u r)"
  shows "run_update gen x sets c k tbl = Some (claim_update gen inst until ids k tbl)"
  by (induction tbl arbitrary: k) (simp_all add: assms Let_def split: prod.splits)

lemmas reads = col_value_def column_def row_columns_def param_def tri_and_def tri_or_def eq3_def

lemma ctx_at_simps [simp]:
  "x_now (ctx_at env ps n tbl) = e_now env n" "x_clk (ctx_at env ps n tbl) = e_clk env n"
  "x_interval (ctx_at env ps n tbl) = e_interval env" "x_params (ctx_at env ps n tbl) = ps"
  "x_locked (ctx_at env ps n tbl) = e_locked env n" "x_tbl (ctx_at env ps n tbl) = tbl"
  by (simp_all add: ctx_at_def)

lemma less3_nullable [simp]:
  "less3 (nullable CTime a) (CTime b) = map_option (\<lambda>t. t < b) a"
  "less3 (CTime b) (nullable CTime a) = map_option (\<lambda>t. b < t) a"
  by (simp_all add: nullable_def split: option.splits)

lemma nullable_CNull [simp]:
  "nullable CText x = CNull \<longleftrightarrow> x = None" "nullable CTime y = CNull \<longleftrightarrow> y = None"
  "CNull = nullable CText x \<longleftrightarrow> x = None"
  by (auto simp: nullable_def split: option.splits)

lemma status_text_iff [simp]:
  "status_text s = ''pending'' \<longleftrightarrow> s = StatusPending" "status_text s = ''processing'' \<longleftrightarrow> s = StatusProcessing"
  "status_text s = ''published'' \<longleftrightarrow> s = StatusPublished" "status_text s = ''dead'' \<longleftrightarrow> s = StatusDead"
  "status_text s = ''discarded'' \<longleftrightarrow> s = StatusDiscarded"
  by (cases s; simp)+

lemma map_option_True [simp]: "map_option P x = Some True \<longleftrightarrow> (\<exists>t. x = Some t \<and> P t)"
  by (cases x) auto

lemma fence_owned:
  assumes "length is = length ts"
  shows "strue (ctx_at env (CTexts is # CTexts ts # ps) n tbl) [('''', r)] fence = Some True \<longleftrightarrow>
    owned (zip is ts) (e_clk env n) r"
  using assms
  by (cases "r_lease_token r"; cases "r_locked_until r")
    (auto simp: fence_def owned_def reads nullable_def gt_null_def)


text \<open>Binding succeeds as it does in the store's own definitions.\<close>

lemma bind_attempts:
  "Option.bind (bind_args env (TUuids # TUuids # tys) (ATexts (fst (claimKeys msgs)) # ATexts (snd (claimKeys msgs)) # args)) f =
   (case those (map (e_uuid_in env) (map m_ID msgs)) of None \<Rightarrow> None
    | Some is \<Rightarrow> (case those (map (e_uuid_in env) (map m_LeaseToken msgs)) of None \<Rightarrow> None
      | Some ts \<Rightarrow> Option.bind (bind_args env tys args) (\<lambda>ps. f (CTexts is # CTexts ts # ps))))"
  by (auto simp: bind_args_def claimKeys_def bind_map_option comp_def split: option.splits)

lemma bind_keys_those:
  "bind_keys env msgs =
   (case those (map (e_uuid_in env) (map m_ID msgs)) of None \<Rightarrow> None
    | Some is \<Rightarrow> map_option (zip is) (those (map (e_uuid_in env) (map m_LeaseToken msgs))))"
  by (simp add: bind_keys_def claimKeys_def split: option.splits)

lemma those_length: "those xs = Some ys \<Longrightarrow> length ys = length xs"
  by (induction xs arbitrary: ys) (auto split: option.splits)

lemma scan_returned:
  "\<forall>r \<in> set rs. jsonb_ok (r_headers r) \<Longrightarrow>
    those (map (\<lambda>r. Option.bind (returning messageColumns r) scan_values) rs) = Some (scanMessages rs)"
  by (induction rs) (simp_all add: scanMessages_def scan_returning)

text \<open>
  The rows a statement returns, in whatever order, come from rows of the table: their headers are
  those of a row, or cleared.
\<close>

definition readable :: "env \<Rightarrow> row list \<Rightarrow> bool" where
  "readable env tbl \<longleftrightarrow>
     (\<forall>n rows. set (e_returning env n rows) \<subseteq> set rows) \<and> (\<forall>r \<in> set tbl. jsonb_ok (r_headers r))"

lemma scan_updated:
  assumes "readable env tbl" and "\<forall>r \<in> set out. r_headers r = [] \<or> (\<exists>r0 \<in> set tbl. r_headers r = r_headers r0)"
  shows "those (map (\<lambda>r. Option.bind (returning messageColumns r) scan_values) (e_returning env n out)) =
    Some (scanMessages (e_returning env n out))"
proof (rule scan_returned)
  have "jsonb_ok []" by (simp add: jsonb_ok_def)
  then show "\<forall>r \<in> set (e_returning env n out). jsonb_ok (r_headers r)"
    using assms unfolding readable_def by (metis subsetD)
qed

lemma finish_row_headers: "r_headers (finish_row st reason clk nxt clear r) \<in> {[], r_headers r}"
  by (simp add: finish_row_def Let_def)

lemma claim_update_headers:
  "r \<in> set (fst (snd (claim_update gen inst until ids k tbl))) \<Longrightarrow> \<exists>r0 \<in> set tbl. r_headers r = r_headers r0"
  by (induction gen inst until ids k tbl rule: claim_update.induct)
    (auto simp: Let_def claim_row_def case_prod_unfold split: if_splits)

lemma renew_means:
  "exec_sql env renew_types renew_tree (renew_args msgs duration) n d = renew_stmt env msgs duration n d"
proof (cases "bind_keys env msgs")
  case None
  then show ?thesis
    by (auto simp: exec_sql_def send_def renew_types_def renew_args_def claimKeys_def renew_stmt_def bind_keys_those
        bind_attempts [unfolded claimKeys_def, simplified] split: option.splits)
next
  case (Some keys)
  then obtain "is" ts where ts: "those (map (e_uuid_in env) (map m_ID msgs)) = Some is"
      "those (map (e_uuid_in env) (map m_LeaseToken msgs)) = Some ts" and keys: "keys = zip is ts"
    by (auto simp: bind_keys_those split: option.splits)
  have len: "length is = length ts" using ts [THEN those_length] by simp
  let ?x = "ctx_at env [CTexts is, CTexts ts, CSecs duration] n (d_rows d)"
  let ?f = "\<lambda>r. r\<lparr>r_locked_until := Some (e_clk env n + e_interval env duration)\<rparr>"
  have "run_update (e_gen env) ?x [(''locked_until'', Plus Clock (Interval (Param 3)))] fence (d_uuid d) (d_rows d) =
      Some (map (\<lambda>r. if owned keys (e_clk env n) r then ?f r else r) (d_rows d),
        map ?f (filter (owned keys (e_clk env n)) (d_rows d)), d_uuid d)"
    by (rule run_update_map) (simp_all add: keys draws_def fence_owned [OF len] reads set_column_def)
  then show ?thesis using Some ts
    by (simp add: exec_sql_def send_def renew_types_def renew_args_def claimKeys_def renew_stmt_def
        bind_attempts [unfolded claimKeys_def, simplified] bind_args_def renew_tree_def run_stmt_def
        sql_renew_def)
qed

lemma bind_reason:
  "bind_arg env TText (nullStr reason) =
   (if arg_ok (e_text_ok env) (nullStr reason) then Some (nullable CText (text_column reason)) else None)"
  by (simp add: nullStr_def text_column_def nullable_def)

lemma column_set [simp]:
  "set_column ''status'' (CText (status_text s)) r = Some (r\<lparr>r_status := s\<rparr>)"
  "set_column ''last_error'' (nullable CText e) r = Some (r\<lparr>r_last_error := e\<rparr>)"
  "set_column ''locked_by'' CNull r = Some (r\<lparr>r_locked_by := None\<rparr>)"
  "set_column ''locked_until'' (CTime t) r = Some (r\<lparr>r_locked_until := Some t\<rparr>)"
  "set_column ''locked_until'' CNull r = Some (r\<lparr>r_locked_until := None\<rparr>)"
  "set_column ''lease_token'' CNull r = Some (r\<lparr>r_lease_token := None\<rparr>)"
  by (simp_all add: set_column_def)

lemma finish_row_assigned:
  assumes "x_params x = [CTexts is, CTexts ts, CText (status_text status), nullable CText reason, CSecs delay, CBool clear]"
  shows "assign x r finish_sets r = Some (finish_row status reason (x_clk x) (x_clk x + x_interval x delay) clear r)"
  unfolding finish_sets_def status_param_def
  by (cases status; cases clear)
    (simp_all add: assms reads nullable_def set_column_def status_of_text_def cast_val_def finish_row_def Let_def
      split: option.splits)

lemma draws_finish [simp]: "\<not> draws finish_sets"
  by (simp add: draws_def finish_sets_def)

lemma finish_means:
  assumes "e_text_ok env (status_text status)" and "readable env (d_rows d)"
  shows "query_sql env finish_types finish_tree (finish_args msgs status reason delay clear) n d =
    finish_stmt env msgs status reason delay clear n d"
proof (cases "arg_ok (e_text_ok env) (nullStr reason) \<and> bind_keys env msgs \<noteq> None")
  case False
  then show ?thesis using assms
    by (auto simp: query_sql_def send_def finish_types_def finish_args_def claimKeys_def finish_stmt_def bind_keys_those
        bind_attempts [unfolded claimKeys_def, simplified] bind_args_def bind_reason split: option.splits)
next
  case True
  then obtain "is" ts where ts: "those (map (e_uuid_in env) (map m_ID msgs)) = Some is"
      "those (map (e_uuid_in env) (map m_LeaseToken msgs)) = Some ts"
    by (auto simp: bind_keys_those split: option.splits)
  then have keys: "bind_keys env msgs = Some (zip is ts)" by (simp add: bind_keys_those)
  have len: "length is = length ts" using ts [THEN those_length] by simp
  let ?x = "ctx_at env [CTexts is, CTexts ts, CText (status_text status), nullable CText (text_column reason),
    CSecs delay, CBool clear] n (d_rows d)"
  let ?f = "finish_row status (text_column reason) (e_clk env n) (e_clk env n + e_interval env delay) clear"
  have "run_update (e_gen env) ?x finish_sets fence (d_uuid d) (d_rows d) =
      Some (map (\<lambda>r. if owned (zip is ts) (e_clk env n) r then ?f r else r) (d_rows d),
        map ?f (filter (owned (zip is ts) (e_clk env n)) (d_rows d)), d_uuid d)"
    by (rule run_update_map)
      (simp_all add: fence_owned [OF len] finish_row_assigned)
  moreover have "those (map (\<lambda>r. Option.bind (returning messageColumns r) scan_values) (e_returning env n
        (map ?f (filter (owned (zip is ts) (e_clk env n)) (d_rows d))))) =
      Some (scanMessages (e_returning env n (map ?f (filter (owned (zip is ts) (e_clk env n)) (d_rows d)))))"
    using finish_row_headers by (intro scan_updated [OF assms(2)]) fastforce
  ultimately show ?thesis using True assms ts keys
    by (simp add: query_sql_def send_def finish_types_def finish_args_def claimKeys_def finish_stmt_def
        bind_attempts [unfolded claimKeys_def, simplified] bind_args_def bind_reason finish_tree_def run_stmt_def
        sql_finish_def)
qed

lemma requeue_means: "exec_sql env requeue_types requeue_tree (requeue_args ident) n d = requeue_stmt env ident n d"
proof (cases "e_uuid_in env ident")
  case None
  then show ?thesis
    by (simp add: exec_sql_def send_def requeue_types_def requeue_args_def requeue_stmt_def bind_args_def)
next
  case (Some i)
  let ?x = "ctx_at env [CText i] n (d_rows d)"
  have "run_update (e_gen env) ?x requeue_sets requeue_cond (d_uuid d) (d_rows d) =
      Some (map (\<lambda>r. if requeuable i r then requeue_row (e_clk env n) r else r) (d_rows d),
        map (requeue_row (e_clk env n)) (filter (requeuable i) (d_rows d)), d_uuid d)"
    by (rule run_update_map)
      (auto simp: draws_def requeue_sets_def requeue_cond_def requeuable_def reads requeue_row_def set_column_def status_of_text_def)
  then show ?thesis using Some
    by (simp add: exec_sql_def send_def requeue_types_def requeue_args_def requeue_stmt_def bind_args_def requeue_tree_def
        run_stmt_def sql_requeue_def)
qed

text \<open>The selections: the sort keys put the same rows in the same order.\<close>

lemma tri_and_True: "tri_and a b = Some True \<longleftrightarrow> a = Some True \<and> b = Some True"
  by (auto simp: tri_and_def)

lemma claim_cond_selects:
  "strue (ctx_at env [p, q, CInt batch] n tbl) [('''', r)] (claim_cond ordered) = Some True \<longleftrightarrow>
   r_id r \<in> set (map r_id (claim_pick ordered batch (e_now env n) (e_locked env n) tbl))"
proof -
  let ?x = "ctx_at env [p, q, CInt batch] n tbl"
  let ?c = "if ordered then And candidate (NotExists ''e'' earlier_unfinished) else candidate"
  have cand: "strue ?x [(''o'', e)] candidate = Some True \<longleftrightarrow> claimable (e_now env n) e" for e
    by (cases "r_locked_until e") (auto simp: candidate_def claimable_def reads)
  have held: "strue ?x ((''e'', f) # [(''o'', e)]) earlier_unfinished = Some True \<longleftrightarrow> holds_back f e" for e f
    by (cases "r_partition_key e"; cases "r_partition_key f"; cases "r_created_at f = r_created_at e")
      (auto simp: earlier_unfinished_def holds_back_def row_order_def reads nullable_def split: if_splits)
  have "filter (\<lambda>e. strue ?x [(''o'', e)] ?c = Some True) tbl = claim_candidates ordered (e_now env n) tbl"
    unfolding claim_candidates_def held_back_def
    by (rule filter_cong) (auto simp: tri_and_True cand held)
  moreover have "sort_key (\<lambda>e. (sort_place (sval ?x [(''o'', e)] (Col ''o'' ''created_at'')),
      sort_place (sval ?x [(''o'', e)] (Col ''o'' ''seq'')))) rs = sort_key row_order rs" for rs
    by (rule sort_key_cong_order) (auto simp: reads row_order_def)
  ultimately show ?thesis
    by (simp add: claim_cond_def reads claim_pick_def image_iff)
qed

lemma claim_row_assigned:
  assumes "x_params x = [CText inst, CSecs lease, batch]"
  shows "assign x r claim_sets r = Some (claim_row inst (x_clk x + x_interval x lease) (x_uuid x) r)"
  by (simp add: claim_sets_def assms reads set_column_def status_of_text_def claim_row_def)

lemma draws_claim [simp]: "draws claim_sets"
  by (simp add: draws_def claim_sets_def)

lemma claim_means:
  assumes "readable env (d_rows d)"
  shows "query_sql env claim_types (claim_tree (s_Ordered cfg)) (claim_args cfg) n d = claim_stmt env cfg n d"
proof (cases "e_text_ok env (s_InstanceID cfg)")
  case False
  then show ?thesis
    by (simp add: query_sql_def send_def claim_types_def claim_args_def claim_stmt_def bind_args_def)
next
  case True
  let ?x = "ctx_at env [CText (s_InstanceID cfg), CSecs (s_LeaseDuration cfg), CInt (s_BatchSize cfg)] n (d_rows d)"
  obtain c where tree: "claim_tree (s_Ordered cfg) = UpdateS claim_sets c messageColumns"
    and c: "strue ?x [('''', r)] c = Some True \<longleftrightarrow>
      r_id r \<in> set (map r_id (claim_pick (s_Ordered cfg) (s_BatchSize cfg) (e_now env n) (e_locked env n) (d_rows d)))" for r
    using claim_cond_selects by (simp add: claim_tree_def)
  have "run_update (e_gen env) ?x claim_sets c (d_uuid d) (d_rows d) =
      Some (sql_claim (e_gen env) (d_uuid d) (e_now env n) (e_locked env n) (s_Ordered cfg) (s_InstanceID cfg)
        (e_clk env n + e_interval env (s_LeaseDuration cfg)) (s_BatchSize cfg) (d_rows d))"
    unfolding sql_claim_def
    by (rule run_update_claim) (simp_all add: c claim_row_assigned)
  moreover have "those (map (\<lambda>r. Option.bind (returning messageColumns r) scan_values) (e_returning env n out)) =
      Some (scanMessages (e_returning env n out))"
    if "sql_claim gen k now locked ordered inst until batch (d_rows d) = (tbl, out, k')"
    for gen k now locked ordered inst until batch tbl out k'
  proof (rule scan_updated [OF assms])
    have "out = fst (snd (claim_update gen inst until (map r_id (claim_pick ordered batch now locked (d_rows d))) k (d_rows d)))"
      using that by (simp add: sql_claim_def)
    then show "\<forall>r \<in> set out. r_headers r = [] \<or> (\<exists>r0 \<in> set (d_rows d). r_headers r = r_headers r0)"
      using claim_update_headers by blast
  qed
  ultimately show ?thesis using True
    by (simp add: query_sql_def send_def claim_types_def claim_args_def claim_stmt_def bind_args_def tree run_stmt_def
        split: prod.splits)
qed

lemma cleanup_cond_selects:
  "strue (ctx_at env [CSecs p, CSecs q, CSecs s, CInt batch] n tbl) [('''', r)] cleanup_cond = Some True \<longleftrightarrow>
   r_id r \<in> set (map r_id (cleanup_pick
      \<lparr>rt_published = (0 < p, e_now env n - e_interval env p), rt_dead = (0 < q, e_now env n - e_interval env q),
       rt_discarded = (0 < s, e_now env n - e_interval env s)\<rparr> batch (e_locked env n) tbl))"
proof -
  let ?x = "ctx_at env [CSecs p, CSecs q, CSecs s, CInt batch] n tbl"
  let ?rt = "\<lparr>rt_published = (0 < p, e_now env n - e_interval env p), rt_dead = (0 < q, e_now env n - e_interval env q),
       rt_discarded = (0 < s, e_now env n - e_interval env s)\<rparr>"
  let ?c = "Or (past_retention 1 ''published'' ''published_at'')
           (Or (past_retention 2 ''dead'' ''finished_at'') (past_retention 3 ''discarded'' ''finished_at''))"
  have "strue ?x [('''', e)] ?c = Some True \<longleftrightarrow> expired ?rt e" for e
    by (cases "r_published_at e"; cases "r_finished_at e")
      (auto simp: past_retention_def expired_def reads cast_val_def)
  moreover have "sort_key (\<lambda>e. (sort_place (sval ?x [('''', e)] (Coalesce (col ''finished_at'') (col ''published_at''))),
      sort_place (sval ?x [('''', e)] (col ''id'')))) rs = sort_key cleanup_key rs" for rs
    by (rule sort_key_cong_order)
      (auto simp: reads cleanup_key_def nullable_def less_eq_prod_def split: option.splits)
  ultimately show ?thesis
    by (simp add: cleanup_cond_def reads cleanup_pick_def image_iff)
qed

lemma cleanup_means: "exec_sql env cleanup_types cleanup_tree (cleanup_args cfg) n d = cleanup_stmt env cfg n d"
  by (simp add: exec_sql_def send_def cleanup_types_def cleanup_args_def cleanup_stmt_def bind_args_def cleanup_tree_def
      run_stmt_def cleanup_cond_selects sql_cleanup_def cleanup_retention_def Let_def)

end
