(* ===== verification/Insertion.thy ===== *)
theory Insertion
  imports Statements Intake
begin

text \<open>
  The insert of \<^verbatim>\<open>engine/store.go\<close> at the level of its text: the syntax tree with one group of
  expressions per message, the words it is written with, and its meaning, a row built from each
  group by the columns' types and the table's defaults.
\<close>

section \<open>Syntax and words\<close>

definition insert_columns :: "string list" where
  "insert_columns =
     [''id'', ''topic'', ''partition_key'', ''payload'', ''headers'', ''content_type'', ''message_type'',
      ''max_attempts'']"

definition group_tree :: "nat \<Rightarrow> sexp list" where
  "group_tree i =
     (let p = (\<lambda>j. Param (group_params i ! j))
      in [Coalesce (Cast (p 0) ''uuid'') GenUuid, p 1, p 2, p 3, Cast (p 4) ''jsonb'', p 5, p 6, p 7])"

definition insert_tree :: "nat \<Rightarrow> sexp list list" where
  "insert_tree n = map group_tree [0..<n]"

definition group_words :: "string list \<Rightarrow> sexp list \<Rightarrow> string list" where
  "group_words t g = ''('' # commas (map (exp_words t) g) @ ['')'']"

definition insert_words :: "string list \<Rightarrow> string list \<Rightarrow> sexp list list \<Rightarrow> string list" where
  "insert_words t cols groups =
     [''INSERT'', ''INTO''] @ t @ ''('' # commas (map (\<lambda>c. [c]) cols) @ [ '')'', ''VALUES''] @
       commas (map (group_words t) groups) @
       [''ON'', ''CONFLICT'', ''('', ''id'', '')'', ''DO'', ''NOTHING'']"

lemma digits_together: "c \<in> set (show_nat n) \<Longrightarrow> \<not> apart c"
proof (induction n rule: show_nat.induct)
  case (1 n)
  have digit: "\<not> apart (digit_char d)" if "d < 10" for d
  proof -
    have "d \<in> {0, 1, 2, 3, 4, 5, 6, 7, 8, 9}" using that by auto
    then show ?thesis by (auto simp: digit_char_def apart_def blank_def symbol_def char_of_def)
  qed
  show ?case
    using 1 digit by (cases "n < 10") (auto simp: show_nat.simps [of n])
qed

lemma split_together: "(\<And>c. c \<in> set s \<Longrightarrow> \<not> apart c) \<Longrightarrow> split_words acc s = flush (acc @ s)"
  by (induction s arbitrary: acc) (auto simp: apart_def)

lemma split_number:
  assumes "rest = [] \<or> apart (hd rest)"
  shows "split_words acc (show_nat n @ rest) = (acc @ show_nat n) # split_words '''' rest"
proof -
  have "split_words acc (show_nat n) = flush (acc @ show_nat n)"
    by (rule split_together) (rule digits_together)
  then show ?thesis using split_words_append [OF assms, of acc "show_nat n"] by (simp add: flush_def)
qed

lemma commas_Cons: "commas (ws # wss) = ws @ (if wss = [] then [] else '','' # commas wss)"
  by (cases wss) simp_all

lemma group_text: "split_words '''' (enqueue_group i) = group_words t (group_tree i)"
  by (simp add: enqueue_group_def group_tree_def group_words_def Let_def split_number apart_def blank_def
      symbol_def flush_def param_word_def words_def)

lemma groups_text:
  assumes "rest \<noteq> []" and "apart (hd rest)"
  shows "split_words '''' (enqueue_groups i n @ rest) =
    (if 0 < i \<and> 0 < n then ['',''] else []) @ commas (map (group_words t) (map group_tree [i..<i + n])) @
      split_words '''' rest"
proof (induction n arbitrary: i)
  case (Suc n)
  have "enqueue_groups (Suc i) n @ rest \<noteq> [] \<and> apart (hd (enqueue_groups (Suc i) n @ rest))"
    using assms by (cases n) (simp_all add: apart_def symbol_def)
  then have "split_words '''' (enqueue_group i @ enqueue_groups (Suc i) n @ rest) =
      group_words t (group_tree i) @ split_words '''' (enqueue_groups (Suc i) n @ rest)"
    by (subst split_words_append) (simp_all add: group_text)
  moreover have "[i..<i + Suc n] = i # [Suc i..<Suc i + n]" by (simp add: upt_rec)
  ultimately show ?case
    using Suc [of "Suc i"]
    by (cases i) (simp_all add: commas_Cons blank_def symbol_def flush_def del: upt_Suc)
qed simp

lemma insert_text: "words (enqueue_sql table n) = insert_words (words table) insert_columns (insert_tree n)"
proof -
  let ?r = "'' ON CONFLICT (id) DO NOTHING''"
  let ?c = "'' (id, topic, partition_key, payload, headers, content_type, message_type, max_attempts) VALUES ''"
  have tail: "split_words '''' (enqueue_groups 0 n @ ?r) =
      commas (map (group_words (words table)) (insert_tree n)) @ split_words '''' ?r"
    using groups_text [of ?r 0 n "words table"] by (simp add: apart_def blank_def insert_tree_def)
  have "words (enqueue_sql table n) =
      [''INSERT'', ''INTO''] @ split_words '''' (table @ ?c @ enqueue_groups 0 n @ ?r)"
    by (simp add: words_def enqueue_sql_def blank_def symbol_def flush_def)
  also have "\<dots> = [''INSERT'', ''INTO''] @ words table @ split_words '''' (?c @ enqueue_groups 0 n @ ?r)"
    by (subst split_words_append) (simp_all add: apart_def blank_def words_def)
  also have "\<dots> = insert_words (words table) insert_columns (insert_tree n)"
    unfolding insert_words_def insert_columns_def
    using tail by (simp add: blank_def symbol_def flush_def)
  finally show ?thesis .
qed

section \<open>Meaning\<close>

text \<open>Whether the evaluation of an expression asks for a new value of \<open>gen_random_uuid()\<close>.\<close>

fun asks :: "ctx \<Rightarrow> sexp \<Rightarrow> bool" where
  "asks x GenUuid = True"
| "asks x (Cast e ty) = asks x e"
| "asks x (Coalesce a b) = (asks x a \<or> sval x [] a = CNull \<and> asks x b)"
| "asks x _ = False"

text \<open>A new row: the table's defaults, then the columns named; a NULL is none for a NOT NULL column.\<close>

definition default_row :: "int \<Rightarrow> int \<Rightarrow> row" where
  "default_row now seq =
     \<lparr>r_id = '''', r_topic = '''', r_partition_key = None, r_payload = '''', r_headers = [],
      r_content_type = None, r_message_type = None, r_status = StatusPending, r_attempts = 0,
      r_max_attempts = None, r_locked_by = None, r_locked_until = None, r_next_attempt_at = now,
      r_last_error = None, r_created_at = now, r_published_at = None, r_lease_token = None,
      r_finished_at = None, r_seq = seq\<rparr>"

definition set_new :: "string \<Rightarrow> colval \<Rightarrow> row \<Rightarrow> row option" where
  "set_new c v r =
     (if c = ''id'' then map_option (\<lambda>s. r\<lparr>r_id := s\<rparr>) (to_string v)
      else if c = ''topic'' then map_option (\<lambda>s. r\<lparr>r_topic := s\<rparr>) (to_string v)
      else if c = ''partition_key'' then map_option (\<lambda>s. r\<lparr>r_partition_key := s\<rparr>) (to_string_ptr v)
      else if c = ''content_type'' then map_option (\<lambda>s. r\<lparr>r_content_type := s\<rparr>) (to_string_ptr v)
      else if c = ''message_type'' then map_option (\<lambda>s. r\<lparr>r_message_type := s\<rparr>) (to_string_ptr v)
      else if c = ''max_attempts'' then map_option (\<lambda>i. r\<lparr>r_max_attempts := i\<rparr>) (to_int_ptr v)
      else set_column c v r)"

fun set_all :: "string list \<Rightarrow> colval list \<Rightarrow> row \<Rightarrow> row option" where
  "set_all [] [] r = Some r"
| "set_all (c # cs) (v # vs) r = Option.bind (set_new c v r) (set_all cs vs)"
| "set_all _ _ r = None"

text \<open>The columns without a default are named.\<close>

definition row_from :: "int \<Rightarrow> int \<Rightarrow> string list \<Rightarrow> colval list \<Rightarrow> row option" where
  "row_from now seq cols vals =
     (if {''id'', ''topic'', ''payload''} \<subseteq> set cols then set_all cols vals (default_row now seq) else None)"

text \<open>
  One group after the other; a row whose id is in the table is skipped (\<^verbatim>\<open>ON CONFLICT (id) DO
  NOTHING\<close>), and has used a value of the sequence. \<open>None\<close> is an error.
\<close>

fun run_insert ::
  "(nat \<Rightarrow> string) \<Rightarrow> ctx \<Rightarrow> string list \<Rightarrow> sexp list list \<Rightarrow> nat \<Rightarrow> int \<Rightarrow> row list \<Rightarrow> (row list \<times> nat \<times> int) option" where
  "run_insert gen x cols [] k seq tbl = Some (tbl, k, seq)"
| "run_insert gen x cols (g # gs) k seq tbl =
     Option.bind (row_from (x_now x) seq cols (map (sval (x\<lparr>x_uuid := gen k\<rparr>) []) g)) (\<lambda>r.
       run_insert gen x cols gs (if list_ex (asks x) g then Suc k else k) (seq + 1)
         (if r_id r \<in> set (map r_id tbl) then tbl else tbl @ [r]))"

definition group_types :: "ptype list" where
  "group_types = [TUuid, TText, TText, TBytes, TJson, TText, TText, TInt4]"

definition insert_types :: "nat \<Rightarrow> ptype list" where
  "insert_types n = concat (replicate n group_types)"

definition send_insert ::
  "env \<Rightarrow> ptype list \<Rightarrow> string list \<Rightarrow> sexp list list \<Rightarrow> sqlarg list \<Rightarrow> nat \<Rightarrow> database \<Rightarrow> (goerr + unit) \<times> database" where
  "send_insert env tys cols groups args n d =
     (case (if length args \<le> max_params then bind_args env tys args else None) of
        None \<Rightarrow> (Inl (e_sql_error env), d)
      | Some ps \<Rightarrow>
          (case run_insert (e_gen env) (ctx_at env ps n (d_rows d)) cols groups (d_uuid d) (d_seq d) (d_rows d) of
             None \<Rightarrow> (Inl (e_sql_error env), d)
           | Some (tbl, k, seq) \<Rightarrow>
               (Inr (), d\<lparr>d_rows := tbl, d_uuid := k, d_seq := seq, d_notified := d_notified d + 1\<rparr>)))"

section \<open>The tree is the insert\<close>

text \<open>The values a message's arguments are bound to.\<close>

definition bound :: "env \<Rightarrow> message \<Rightarrow> colval list" where
  "bound env m =
     [nullable CText (if m_ID m = '''' then None else e_uuid_in env (m_ID m)), CText (m_Topic m),
      nullable CText (text_column (m_PartitionKey m)),
      (case m_Payload m of None \<Rightarrow> CNull | Some b \<Rightarrow> CBytes b),
      CJson (stored_headers (headers_or_empty m)),
      nullable CText (text_column (m_ContentType m)), nullable CText (text_column (m_MessageType m)),
      nullable CInt (m_MaxAttempts m)]"

definition bindable :: "env \<Rightarrow> message \<Rightarrow> bool" where
  "bindable env m \<longleftrightarrow>
     storable env m \<and> (m_ID m = '''' \<or> e_uuid_in env (m_ID m) \<noteq> None)"

text \<open>The database stores the texts it reads as a uuid.\<close>

definition uuid_texts_ok :: "env \<Rightarrow> bool" where
  "uuid_texts_ok env \<longleftrightarrow> (\<forall>s. e_uuid_in env s \<noteq> None \<longrightarrow> e_text_ok env s)"

lemma bind_message:
  assumes "uuid_texts_ok env"
  shows "those (map2 (bind_arg env) group_types (message_args m)) = (if bindable env m then Some (bound env m) else None)"
proof -
  have uuid: "e_text_ok env (m_ID m)" if "e_uuid_in env (m_ID m) \<noteq> None" using assms that by (simp add: uuid_texts_ok_def)
  have int: "bind_arg env TInt4 (nullInt (m_MaxAttempts m)) =
      (if as_int (Some (nullInt (m_MaxAttempts m))) = None then None else Some (nullable CInt (m_MaxAttempts m)))"
    by (simp add: nullInt_def nullable_def split: option.splits)
  have ident: "bind_arg env TUuid (nullStr (m_ID m)) =
      (if m_ID m = '''' \<or> e_uuid_in env (m_ID m) \<noteq> None
       then Some (nullable CText (if m_ID m = '''' then None else e_uuid_in env (m_ID m))) else None)"
    by (auto simp: nullStr_def nullable_def)
  have payload: "bind_arg env TBytes (case m_Payload m of None \<Rightarrow> ANull | Some b \<Rightarrow> ABytes b) =
      Some (case m_Payload m of None \<Rightarrow> CNull | Some b \<Rightarrow> CBytes b)"
    by (simp split: option.splits)
  have accepted [simp]: "arg_ok t (nullInt (m_MaxAttempts m))"
    "arg_ok t (case m_Payload m of None \<Rightarrow> ANull | Some b \<Rightarrow> ABytes b)" for t
    by (simp_all add: nullInt_def split: option.splits)
  have json: "bind_arg env TJson (AText (Marshal_headers (headers_or_empty m))) =
      (if e_text_ok env (Marshal_headers (headers_or_empty m)) \<and> zero_free (headers_or_empty m)
       then Some (CJson (stored_headers (headers_or_empty m))) else None)"
    by (simp add: jsonb_in_Marshal)
  have "those (map2 (bind_arg env) group_types (message_args m)) =
      those [
        bind_arg env TUuid (nullStr (m_ID m)), bind_arg env TText (AText (m_Topic m)),
        bind_arg env TText (nullStr (m_PartitionKey m)),
        bind_arg env TBytes (case m_Payload m of None \<Rightarrow> ANull | Some b \<Rightarrow> ABytes b),
        bind_arg env TJson (AText (Marshal_headers (headers_or_empty m))),
        bind_arg env TText (nullStr (m_ContentType m)), bind_arg env TText (nullStr (m_MessageType m)),
        bind_arg env TInt4 (nullInt (m_MaxAttempts m))]"
    by (simp add: group_types_def message_args_def)
  also have "\<dots> = (if bindable env m then Some (bound env m) else None)"
    unfolding ident payload bind_reason int json bind_arg.simps(2)
    using uuid
    by (auto simp: bindable_def storable_def bound_def message_args_def nullStr_def [of "m_ID m"]
        split: if_splits)
  finally show ?thesis .
qed

lemma those_append: "those (xs @ ys) = Option.bind (those xs) (\<lambda>a. map_option (\<lambda>b. a @ b) (those ys))"
  by (induction xs) (auto split: option.splits simp: map_option_case Option.bind_eq_None_conv)

lemma those_groups:
  assumes "\<And>m. m \<in> set msgs \<Longrightarrow> length (h m) = length tys"
  shows "those (map2 f (concat (replicate (length msgs) tys)) (concat (map h msgs))) =
    map_option concat (those (map (\<lambda>m. those (map2 f tys (h m))) msgs))"
  using assms
proof (induction msgs)
  case (Cons m msgs)
  then show ?case
    by (simp add: zip_append those_append split: option.splits)
      (auto simp: map_option_case split: option.splits)
qed simp

lemma bind_messages:
  assumes "uuid_texts_ok env"
  shows "bind_args env (insert_types (length msgs)) (enqueue_args msgs) =
    (if \<forall>m \<in> set msgs. bindable env m then Some (concat (map (bound env) msgs)) else None)"
proof -
  have "those (map (\<lambda>m. if bindable env m then Some (bound env m) else None) ms) =
      (if \<forall>m \<in> set ms. bindable env m then Some (map (bound env) ms) else None)" for ms
    by (induction ms) auto
  moreover have "length (insert_types n) = 8 * n" for n
    by (induction n) (simp_all add: insert_types_def group_types_def)
  moreover have "length (message_args m) = length group_types" for m
    by (simp add: message_args_def group_types_def)
  ultimately show ?thesis
    unfolding bind_args_def enqueue_args_length
    by (simp add: insert_types_def enqueue_args_def those_groups bind_message [OF assms])
qed

lemma bound_length [simp]: "length (bound env m) = 8"
  by (simp add: bound_def)

lemma group_values:
  assumes "x_params x = pre @ bound env m @ post" and "length pre = a * 8" and "bindable env m"
  shows "row_from now seq insert_columns (map (sval (x\<lparr>x_uuid := u\<rparr>) []) (group_tree a)) =
    map_option (\<lambda>v. fresh_row (case v_id v of Some i \<Rightarrow> i | None \<Rightarrow> u) now seq v) (message_row (e_uuid_in env) m)"
    and "list_ex (asks x) (group_tree a) \<longleftrightarrow> m_ID m = ''''"
proof -
  have at: "param x (group_params a ! j) = bound env m ! j" "param (x\<lparr>x_uuid := u\<rparr>) (group_params a ! j) = bound env m ! j"
    if "j < 8" for j
    using that assms(1,2) group_params_nth [OF that, of a]
    by (simp_all add: param_def nth_append)
  show "row_from now seq insert_columns (map (sval (x\<lparr>x_uuid := u\<rparr>) []) (group_tree a)) =
    map_option (\<lambda>v. fresh_row (case v_id v of Some i \<Rightarrow> i | None \<Rightarrow> u) now seq v) (message_row (e_uuid_in env) m)"
    using assms(3)
    by (cases "m_Payload m")
      (auto simp: group_tree_def Let_def at bound_def row_from_def insert_columns_def set_new_def set_column_def
        cast_val_def nullable_def message_row_def bindable_def storable_def default_row_def fresh_row_def
        jsonb_in_Marshal split: option.splits if_splits)
  show "list_ex (asks x) (group_tree a) \<longleftrightarrow> m_ID m = ''''"
    using assms(3)
    by (auto simp: group_tree_def Let_def at bound_def cast_val_def nullable_def bindable_def split: option.splits)
qed

lemma run_insert_messages:
  assumes "x_params x = pre @ concat (map (bound env) msgs)" and "length pre = a * 8"
    and "\<forall>m \<in> set msgs. bindable env m"
  shows "run_insert gen x insert_columns (map group_tree [a..<a + length msgs]) k seq tbl =
    map_option (\<lambda>vs. sql_insert gen (x_now x) k seq vs tbl) (those (map (message_row (e_uuid_in env)) msgs))"
  using assms
proof (induction msgs arbitrary: pre a k seq tbl)
  case (Cons m msgs)
  obtain gs where gs: "gs = map group_tree [Suc a..<Suc a + length msgs]" by blast
  have groups: "map group_tree [a..<a + length (m # msgs)] = group_tree a # gs" by (simp add: upt_rec gs)
  have ok: "bindable env m" using Cons.prems by simp
  note vals = group_values [OF _ Cons.prems(2) ok, where x = x and post = "concat (map (bound env) msgs)"]
  have prm: "x_params x = pre @ bound env m @ concat (map (bound env) msgs)" using Cons.prems by simp
  have IH: "run_insert gen x insert_columns gs k seq tbl =
      map_option (\<lambda>vs. sql_insert gen (x_now x) k seq vs tbl) (those (map (message_row (e_uuid_in env)) msgs))"
    for k seq tbl
    unfolding gs using Cons.IH [of "pre @ bound env m" "Suc a"] Cons.prems by simp
  show ?case
  proof (cases "message_row (e_uuid_in env) m")
    case None
    then show ?thesis unfolding groups by (simp add: vals(1) [OF prm])
  next
    case (Some v)
    have drawn: "m_ID m = '''' \<longleftrightarrow> v_id v = None"
      using Some by (auto simp: message_row_def split: option.splits if_splits)
    have "r_id (fresh_row i now s v) = i" for i now s by (simp add: fresh_row_def)
    then show ?thesis
      unfolding groups
      using Some drawn vals(2) [OF prm]
      by (cases "those (map (message_row (e_uuid_in env)) msgs)"; cases "v_id v")
        (simp_all add: vals(1) [OF prm] IH)
  qed
qed simp

lemma insert_means:
  assumes "uuid_texts_ok env"
  shows "send_insert env (insert_types (length msgs)) insert_columns (insert_tree (length msgs)) (enqueue_args msgs) n d =
    insert_stmt env msgs n d"
proof (cases "length (enqueue_args msgs) \<le> max_params \<and> (\<forall>m \<in> set msgs. bindable env m)")
  case True
  let ?x = "ctx_at env (concat (map (bound env) msgs)) n (d_rows d)"
  have "list_all (arg_ok (e_text_ok env)) (enqueue_args msgs)"
    using True by (auto simp: bindable_def storable_def enqueue_args_def list_all_iff)
  then show ?thesis
    using True run_insert_messages [of ?x "[]" env msgs 0]
    by (simp add: send_insert_def insert_stmt_def bind_messages [OF assms] decode_groups_enqueue insert_tree_def
        Let_def case_prod_unfold split: option.splits)
next
  case False
  have "those (map (message_row (e_uuid_in env)) msgs) = None"
    if "m \<in> set msgs" "\<not> bindable env m" "list_all (arg_ok (e_text_ok env)) (enqueue_args msgs)" for m
  proof -
    have "message_row (e_uuid_in env) m = None"
      using that by (auto simp: bindable_def storable_def enqueue_args_def list_all_iff message_row_def
          jsonb_in_Marshal split: option.splits if_splits)
    then show ?thesis unfolding those_None_iff using that(1) by force
  qed
  then have "insert_stmt env msgs n d = (Inl (e_sql_error env), d)"
    using False by (auto simp: insert_stmt_def decode_groups_enqueue)
  then show ?thesis
    using False by (auto simp: send_insert_def bind_messages [OF assms])
qed

section \<open>Properties\<close>

text \<open>C14. The six statements are written as modelled: for every table name, number of messages and setting
  of the ordered clause, the text each method of the store builds has exactly the words of the syntax
  tree whose meaning is modelled, and every disjunction inside a conjunction has its parentheses.\<close>

theorem sql_texts_parse:
  "words (enqueue_sql table n) = insert_words (words table) insert_columns (insert_tree n) \<and>
   words (claim_sql table ordered) = stmt_words (words table) (claim_tree ordered) \<and>
   words (renew_sql table) = stmt_words (words table) renew_tree \<and>
   words (finish_sql table) = stmt_words (words table) finish_tree \<and>
   words (requeue_sql table) = stmt_words (words table) requeue_tree \<and>
   words (cleanup_sql table) = stmt_words (words table) cleanup_tree \<and>
   list_all stmt_nested [claim_tree ordered, renew_tree, finish_tree, requeue_tree, cleanup_tree]"
  by (simp add: insert_text claim_words renew_words finish_words requeue_words cleanup_words trees_nested)

end
