(* ===== verification/Unrecordable.thy ===== *)
theory Unrecordable
  imports Guarantees
begin

text \<open>
  What becomes of a batch whose error text the database does not take (PostgreSQL stores no zero
  byte and no invalid UTF-8 in a text): the completion is the only way out of \<open>processing\<close>, and it
  carries the text. In a batch with per-message outcomes only the messages whose own error cannot be
  stored are stranded.
\<close>

section \<open>Error texts the database does not take\<close>

text \<open>
  The error text is an argument of the completion. When the database rejects it, nothing is
  completed: no statement of the settlement has an effect, and none of them succeeds.
\<close>

definition fruitless :: "goerr option go \<Rightarrow> bool" where
  "fruitless m \<longleftrightarrow>
     (\<forall>w r w'. m w = (r, w') \<longrightarrow> r \<noteq> Return None \<and> w_db w' = w_db w \<and> w_log w' = w_log w)"

lemma fruitlessD:
  assumes "fruitless m" and "m w = (r, w')"
  shows "r \<noteq> Return None" and "w_db w' = w_db w" and "w_log w' = w_log w"
  using assms unfolding fruitless_def by blast+

lemma complete_fruitless:
  assumes "alone env" and "msgs \<noteq> []" and "\<not> recordable_text env (Some e)"
  shows "fruitless (complete env cfg msgs st (Some e) delay)"
  unfolding fruitless_def
proof (intro allI impI)
  fix w r w' assume run: "complete env cfg msgs st (Some e) delay w = (r, w')"
  have rejected: "finish_stmt env msgs st (error_text e) delay c n d = (Inl (e_sql_error env), d)" for c n d
    using assms(3) by (simp add: finish_stmt_def recordable_text_def)
  have others: "e_others env n d = d" for n d using assms(1) by (simp add: alone_def)
  show "r \<noteq> Return None \<and> w_db w' = w_db w \<and> w_log w' = w_log w"
    using run assms(2)
    by (cases "e_call env (w_tick w)")
      (auto simp: complete_def Store_finish_def exec_call_def rejected others bind_go_def ret_go_run Let_def)
qed

lemma settle_retry_fruitless:
  assumes "alone env" and "\<not> recordable_text env (Some e)"
  shows "fruitless (settle_retry env cfg e retry m)"
  unfolding fruitless_def
proof (intro allI impI)
  fix w r w' assume run: "settle_retry env cfg e retry m w = (r, w')"
  note fin = complete_fruitless [OF assms(1) _ assms(2), of "[m]" cfg, simplified]
  show "r \<noteq> Return None \<and> w_db w' = w_db w \<and> w_log w' = w_log w"
  proof (cases "effective_max cfg m \<le> m_Attempts m")
    case True
    then show ?thesis using fruitlessD [OF fin] run by (simp add: settle_retry_def)
  next
    case False
    obtain r1 w1 where pause: "call_backoff cfg (m_Attempts m) w = (r1, w1)" by fastforce
    then have same: "w_db w1 = w_db w" "w_log w1 = w_log w"
      by (auto simp: call_backoff_def go_run split: option.splits res.splits)
    show ?thesis
      using run False pause same fruitlessD [OF fin] by (cases r1) (auto simp: settle_retry_def bind_go_def)
  qed
qed

lemma for_each_fruitless:
  assumes "\<And>x. fruitless (body x)" and "for_each body xs w = (r, w')"
  shows "(\<forall>ys. r = Return ys \<longrightarrow> length ys = length xs \<and> None \<notin> set ys) \<and> w_db w' = w_db w \<and> w_log w' = w_log w"
  using assms(2)
proof (induction xs arbitrary: w r w')
  case (Cons x xs)
  obtain r1 w1 where 1: "body x w = (r1, w1)" by fastforce
  obtain r2 w2 where 2: "for_each body xs w1 = (r2, w2)" by fastforce
  note h = fruitlessD [OF assms(1) 1] Cons.IH [OF 2]
  show ?case
    using Cons.prems 1 2 h by (cases r1; cases r2) (auto simp: bind_go_def ret_go_run)
qed (auto simp: ret_go_run)

lemma settle_fruitless:
  assumes "alone env" and "msgs \<noteq> []" and "\<not> recordable_text env (Some e)"
  shows "fruitless (settle env cfg msgs (Some e))"
proof (cases "has_as is_permanent e \<or> has_as is_discard e")
  case True
  then show ?thesis using complete_fruitless [OF assms] assms(2) by (auto simp: settle_def)
next
  case False
  let ?body = "settle_retry env cfg e (errors_as is_retry e)"
  have eq: "settle env cfg msgs (Some e) = bind_go (for_each ?body msgs) (\<lambda>errs. ret_go (errors_join errs))"
    using False assms(2) by (simp add: settle_def)
  show ?thesis
    unfolding fruitless_def
  proof (intro allI impI)
    fix w r w' assume run: "settle env cfg msgs (Some e) w = (r, w')"
    obtain r1 w1 where loop: "for_each ?body msgs w = (r1, w1)" by fastforce
    note each = for_each_fruitless [OF settle_retry_fruitless [OF assms(1,3)] loop]
    show "r \<noteq> Return None \<and> w_db w' = w_db w \<and> w_log w' = w_log w"
    proof (cases r1)
      case (Return errs)
      then have "\<not> (\<forall>x \<in> set errs. x = None)" using each assms(2) by (cases errs) auto
      then show ?thesis
        using run loop Return each errors_join_None_iff [of errs] unfolding eq by (auto simp: bind_go_def ret_go_run)
    qed (use run loop each in \<open>auto simp: eq bind_go_def\<close>)
  qed
qed

section \<open>Per-message outcomes\<close>

text \<open>Settling other messages leaves the rows with this id alone.\<close>

definition spares :: "string \<Rightarrow> database \<Rightarrow> database \<Rightarrow> bool" where
  "spares i d d' \<longleftrightarrow> (\<forall>r \<in> set (d_rows d). r_id r = i \<longrightarrow> r \<in> set (d_rows d'))"

interpretation spared: settling "\<lambda>d d'. alone env \<longrightarrow> spares i d d'" env f "{(j, t). j \<noteq> i}" for env f i
proof unfold_locales
  fix d d'
  show "alone env \<longrightarrow> spares i d d'" if d: "settles f {(j, t). j \<noteq> i} d d'"
    unfolding spares_def
  proof (intro impI ballI)
    fix r assume r: "r \<in> set (d_rows d)" "r_id r = i"
    from list_all2_in_set1 [OF d [unfolded settles_def] r(1)] show "r \<in> set (d_rows d')"
      using r(2) by (auto simp: settles_row_def)
  qed
qed (auto simp: spares_def alone_def)

lemma settle_spares:
  assumes "canonical env xs" and "distinct (map m_ID xs)" and "i \<notin> m_ID ` set xs"
  shows "within (\<lambda>d d'. alone env \<longrightarrow> spares i d d') (settle env cfg xs perr)"
proof -
  let ?f = "\<lambda>j. verdict cfg perr (the (map_of (map (\<lambda>m. (m_ID m, m)) xs) j))"
  have "map_of (map (\<lambda>m. (m_ID m, m)) xs) (m_ID m) = Some m" if "m \<in> set xs" for m
    using that assms(2) by (intro map_of_is_SomeI) (auto simp: comp_def)
  moreover have "attempts_of xs \<subseteq> {(j, t). j \<noteq> i}" using assms(3) by (auto simp: attempts_of_def)
  ultimately show ?thesis using spared.settle_settles [OF assms(1), of i ?f cfg perr] by simp
qed

lemma fruitless_spares: "fruitless m \<Longrightarrow> within (\<lambda>d d'. alone env \<longrightarrow> spares i d d') m"
  unfolding within_def spares_def by (metis fruitlessD(2) prod.collapse)

text \<open>A loop over settlements reports a failure when one of them always does.\<close>

lemma for_each_reports:
  assumes "\<And>w r w'. body x w = (r, w') \<Longrightarrow> r \<noteq> Return None" and "x \<in> set xs"
    and "for_each body xs w = (Return errs, w')"
  shows "\<exists>e \<in> set errs. e \<noteq> None"
  using assms(2,3)
proof (induction xs arbitrary: w errs)
  case (Cons a xs)
  then obtain e w1 es where step: "body a w = (Return e, w1)" "for_each body xs w1 = (Return es, w')" "errs = e # es"
    by (auto elim!: bind_go_ReturnE dest!: ret_go_ReturnD)
  show ?case
  proof (cases "a = x")
    case True
    then show ?thesis using assms(1) step by force
  next
    case False
    then show ?thesis using Cons.IH [OF _ step(2)] Cons.prems(1) step(3) by auto
  qed
qed simp

lemma settleEach_strands:
  assumes "alone env" and "canonical env msgs" and "distinct (map m_ID msgs)" and "m \<in> set msgs"
    and "(case map_of outcomes (m_ID m) of Some err \<Rightarrow> err | None \<Rightarrow> be) = Some x" and "\<not> recordable_text env (Some x)"
    and "settleEach env cfg msgs outcomes be w = (r, w')"
  shows "r \<noteq> Return None \<and> spares (m_ID m) (w_db w) (w_db w')"
proof -
  let ?i = "m_ID m" and ?R = "\<lambda>d d'. alone env \<longrightarrow> spares (m_ID m) d d'"
  let ?own = "own_group outcomes msgs" and ?pub = "published_group outcomes be msgs"
    and ?oth = "others_group outcomes be msgs"
  note sub = groups_in_batch(1) [of outcomes msgs] groups_in_batch(2,3) [of outcomes be msgs]
  have group: "within ?R (settle env cfg xs p)" if "set xs \<subseteq> set msgs" "distinct (map m_ID xs)" "?i \<notin> m_ID ` set xs" for xs p
    using settle_spares [OF canonical_mono [OF assms(2) that(1)] that(2,3)] .
  have entry: "within ?R (settle_entry env cfg outcomes a)" if a: "a \<in> set ?own" for a
  proof (cases "m_ID a = ?i")
    case True
    then have "the (map_of outcomes (m_ID a)) = Some x" using a assms(5) by (auto simp: own_group_def)
    then show ?thesis
      using fruitless_spares [OF settle_fruitless [OF assms(1) _ assms(6)]] by (simp add: settle_entry_def)
  next
    case False
    then show ?thesis unfolding settle_entry_def using a sub(1) by (intro group) auto
  qed
  have dist: "distinct (map m_ID ?pub)" "distinct (map m_ID ?oth)"
    using assms(3) by (simp_all add: published_group_def others_group_def distinct_map_filter)
  have "?i \<notin> m_ID ` set ?pub" using assms(5) by (auto simp: published_group_def)
  then have pub: "within ?R (settle env cfg ?pub None)" using sub(2) dist(1) by (intro group)
  have oth: "within ?R (settle env cfg ?oth be)"
  proof (cases "map_of outcomes ?i")
    case None
    then have "be = Some x" using assms(5) by simp
    then show ?thesis
      using fruitless_spares [OF settle_fruitless [OF assms(1) _ assms(6)], of ?oth] spared.within_ret
      by (cases "?oth = []") (simp_all add: settle_def)
  next
    case (Some err)
    then have "?i \<notin> m_ID ` set ?oth" by (auto simp: others_group_def)
    then show ?thesis using sub(3) dist(2) by (intro group)
  qed
  have "within ?R (settleEach env cfg msgs outcomes be)"
    unfolding settleEach_eq by (intro spared.within_bind spared.for_each_within spared.within_ret entry pub oth)
  then have "spares ?i (w_db w) (w_db w')" using withinD assms(1,7) by (metis snd_conv)
  moreover have "r \<noteq> Return None"
  proof
    assume "r = Return None"
    then obtain errs w1 e1 w2 e2 w3 where loop: "for_each (settle_entry env cfg outcomes) ?own w = (Return errs, w1)"
      "settle env cfg ?oth be w2 = (Return e2, w3)" and none: "None = errors_join (errs @ [e1, e2])"
      using assms(7) unfolding settleEach_eq by (auto elim!: bind_go_ReturnE dest!: ret_go_ReturnD)
    from none [symmetric] have nil: "\<forall>e \<in> set errs. e = None" "e2 = None" by (simp_all add: errors_join_None_iff)
    show False
    proof (cases "map_of outcomes ?i")
      case None
      then have be: "be = Some x" using assms(5) by simp
      then have "?oth \<noteq> []" using None assms(4) by (auto simp: others_group_def filter_empty_conv)
      then show False
        using fruitlessD(1) [OF settle_fruitless [OF assms(1) _ assms(6)], of ?oth cfg w2 "Return e2" w3] loop(2) be nil(2)
        by simp
    next
      case (Some err)
      then have "err = Some x" "m \<in> set ?own" using assms(4,5) by (auto simp: own_group_def)
      moreover have "fruitless (settle env cfg [m] (Some x))" by (rule settle_fruitless [OF assms(1) _ assms(6)]) simp
      ultimately have "\<exists>e \<in> set errs. e \<noteq> None"
        using for_each_reports [OF _ _ loop(1), of m] fruitlessD(1) Some by (auto simp: settle_entry_def)
      then show False using nil(1) by blast
    qed
  qed
  ultimately show ?thesis by blast
qed

lemma settle_batch_strands:
  assumes "alone env" and "canonical env msgs" and "distinct (map m_ID msgs)" and "m \<in> set msgs"
    and "own_outcome (Some e) m = Some x" and "\<not> recordable_text env (Some x)"
    and "settle_batch env cfg msgs (Some e) w = (r, w')"
  shows "r \<noteq> Return None \<and> spares (m_ID m) (w_db w) (w_db w') \<and>
    (errors_as is_batch e = None \<longrightarrow> w_db w' = w_db w \<and> w_log w' = w_log w)"
proof (cases rule: settle_batch_cases [of "Some e"])
  case plain
  show ?thesis
  proof (cases "\<exists>outcomes be. errors_as is_batch e = Some (BatchError outcomes be)")
    case True
    then obtain outcomes be where "errors_as is_batch e = Some (BatchError outcomes be)" by blast
    then show ?thesis
      using settleEach_strands [OF assms(1-4) _ assms(6)] assms(5,7)
      by (simp add: own_outcome_def settle_batch_def)
  next
    case False
    then have "x = e" using assms(5) by (auto simp: own_outcome_def split: option.splits goerr.splits)
    moreover have "msgs \<noteq> []" using assms(4) by auto
    ultimately have "fruitless (settle env cfg msgs (Some e))" using settle_fruitless assms(1,6) by blast
    from fruitlessD [OF this, of w r w'] show ?thesis
      using assms(7) plain(2) by (simp add: spares_def)
  qed
next
  case (batch e' outcomes be)
  then show ?thesis
    using settleEach_strands [OF assms(1-4) _ assms(6), where outcomes = outcomes and be = be and cfg = cfg and w = w] assms(5,7)
    by (simp add: own_outcome_def)
qed

text \<open>A claimed row is processing, and publishing only moves its lease.\<close>

lemma claimed_row_held:
  assumes "claim env cfg w = (Return (Inr msgs), w1)" and "publish env cfg msgs w1 = (r, w2)" and "m \<in> set msgs"
    and "alone env" and "returning_ok env" and "uuid_ok env (w_db w)" and "distinct (map r_id (d_rows (w_db w)))"
  shows "\<exists>row \<in> set (d_rows (w_db w2)). r_id row = m_ID m \<and> r_status row = StatusProcessing"
    and "canonical env msgs" and "distinct (map m_ID msgs)"
proof -
  let ?due = "due env cfg (w_tick w) (d_rows (w_db w))"
  note cl = claim_run [OF assms(1,4,5,7)]
  show canon: "canonical env msgs" using uuid_ok_claimed [OF assms(6) cl(2) due_in_table cl(5)] .
  show "distinct (map m_ID msgs)" by (rule cl(3))
  have "m_ID m \<in> r_id ` set ?due" unfolding cl(2) [symmetric] using assms(3) by simp
  then obtain r0 where r0: "r0 \<in> set ?due" "r_id r0 = m_ID m" by auto
  then have "r0 \<in> set (d_rows (w_db w))" using due_in_table by blast
  from list_all2_in_set1 [OF cl(1) this] obtain r1 where r1: "r1 \<in> set (d_rows (w_db w1))"
    "r_id r1 = m_ID m" "r_status r1 = StatusProcessing"
    using r0 by (auto simp: claimed_as_def claim_row_def)
  have "list_all2 (kept_row (m_ID ` set msgs)) (d_rows (w_db w1)) (d_rows (w_db w2))"
    using withinD [OF publish_keeps [OF assms(4) canon, of cfg], of w1] assms(2) by (simp add: keeps_claims_def)
  from list_all2_in_set1 [OF this r1(1)] obtain r2 where "r2 \<in> set (d_rows (w_db w2))"
    "kept_row (m_ID ` set msgs) r1 r2" by blast
  moreover from this(2) have "r_id r2 = m_ID m \<and> r_status r2 = StatusProcessing"
    using r1(2,3) by (auto simp: kept_row_def)
  ultimately show "\<exists>row \<in> set (d_rows (w_db w2)). r_id row = m_ID m \<and> r_status row = StatusProcessing"
    by blast
qed

lemma unrecordable_batch:
  assumes "claim env cfg w = (Return (Inr msgs), w1)"
    and "publish env cfg msgs w1 = (Return (Some e, lease_err), w2)" and "isFatal env cfg e w2 = (Return False, w3)"
    and "alone env" and "canonical env msgs" and "distinct (map m_ID msgs)" and "m \<in> set msgs"
    and "own_outcome (Some e) m = Some x" and "\<not> recordable_text env (Some x)"
  shows "\<exists>r w'. processBatch env cfg w = (r, w') \<and> (\<forall>n. r \<noteq> Return (n, None)) \<and>
    spares (m_ID m) (w_db w2) (w_db w') \<and>
    (errors_as is_batch e = None \<longrightarrow> w_db w' = w_db w2 \<and> w_log w' = w_log w2)"
proof -
  obtain r4 w4 where settle: "settle_batch env cfg msgs (Some e) w3 = (r4, w4)" by fastforce
  note h = settle_batch_strands [OF assms(4-9) settle] isFatal_unmoved [OF assms(3)]
  have "msgs \<noteq> []" using assms(7) by auto
  then show ?thesis
    using assms(1-3) h settle
    by (cases lease_err; cases r4) (auto simp: processBatch_def bind_go_def ret_go_run spares_def)
qed

end
