(* ===== verification/Ledger.thy ===== *)
theory Ledger
  imports Engine_Steps
begin

text \<open>
  The abstract specification of the outbox: a ledger that knows of each message only whether it
  waits, is leased under a token, or has come to an end, and the acts that move it. The theory
  proves that the database, whatever statements run on it, implements the ledger, and that the
  ledger answers each lease at most once.
\<close>

section \<open>The ledger\<close>

datatype phase = Waiting | Leased string | Ended status

record ledger =
  g_phase :: "string \<Rightarrow> phase option"
  g_used :: "string set"

datatype act =
    Accept string
  | Lease string string
  | Answer string string phase
  | Replay string
  | Forget string
  | Draw

definition open_phase :: "phase \<Rightarrow> bool" where
  "open_phase p \<longleftrightarrow> (case p of Ended _ \<Rightarrow> False | _ \<Rightarrow> True)"

definition answer_phase :: "phase \<Rightarrow> bool" where
  "answer_phase p \<longleftrightarrow> (case p of Waiting \<Rightarrow> True | Leased _ \<Rightarrow> False | Ended s \<Rightarrow> terminal s)"

definition enter :: "string \<Rightarrow> phase \<Rightarrow> ledger \<Rightarrow> ledger" where
  "enter i p g = g\<lparr>g_phase := (g_phase g)(i \<mapsto> p)\<rparr>"

text \<open>
  A message is accepted once; an open one can be leased, under a token never used before, also
  while another lease is out; only the current lease can be answered; only a dead message is
  replayed, and only an ended one forgotten. Tokens may be drawn and not used for a lease.
\<close>

inductive ledger_step :: "act \<Rightarrow> ledger \<Rightarrow> ledger \<Rightarrow> bool" where
  accept: "g_phase g i = None \<Longrightarrow> ledger_step (Accept i) g (enter i Waiting g)"
| lease: "g_phase g i = Some p \<Longrightarrow> open_phase p \<Longrightarrow> t \<notin> g_used g \<Longrightarrow>
    ledger_step (Lease i t) g ((enter i (Leased t) g)\<lparr>g_used := insert t (g_used g)\<rparr>)"
| answer: "g_phase g i = Some (Leased t) \<Longrightarrow> answer_phase p \<Longrightarrow>
    ledger_step (Answer i t p) g (enter i p g)"
| replay: "g_phase g i = Some (Ended StatusDead) \<Longrightarrow> ledger_step (Replay i) g (enter i Waiting g)"
| forget: "g_phase g i = Some (Ended s) \<Longrightarrow>
    ledger_step (Forget i) g (g\<lparr>g_phase := (g_phase g)(i := None)\<rparr>)"
| draw: "g_used g \<subseteq> u \<Longrightarrow> ledger_step Draw g (g\<lparr>g_used := u\<rparr>)"

inductive_cases accept_stepE: "ledger_step (Accept i) g g'"
inductive_cases lease_stepE: "ledger_step (Lease i t) g g'"
inductive_cases answer_stepE: "ledger_step (Answer i t p) g g'"
inductive_cases replay_stepE: "ledger_step (Replay i) g g'"
inductive_cases forget_stepE: "ledger_step (Forget i) g g'"
inductive_cases draw_stepE: "ledger_step Draw g g'"

inductive ledger_run :: "act list \<Rightarrow> ledger \<Rightarrow> ledger \<Rightarrow> bool" where
  run_nil: "ledger_run [] g g"
| run_cons: "ledger_step a g g1 \<Longrightarrow> ledger_run as g1 g2 \<Longrightarrow> ledger_run (a # as) g g2"

lemma ledger_run_append: "ledger_run as g g1 \<Longrightarrow> ledger_run bs g1 g2 \<Longrightarrow> ledger_run (as @ bs) g g2"
  by (induction rule: ledger_run.induct) (auto intro: run_cons)

lemma ledger_run_one: "ledger_step a g g' \<Longrightarrow> ledger_run [a] g g'"
  by (blast intro: ledger_run.intros)

text \<open>Some run leads from one ledger to another.\<close>

definition leads_to :: "ledger \<Rightarrow> ledger \<Rightarrow> bool" where
  "leads_to g g' \<longleftrightarrow> (\<exists>as. ledger_run as g g')"

lemma leads_to_refl [simp, intro]: "leads_to g g"
  unfolding leads_to_def by (blast intro: run_nil)

lemma leads_to_trans: "leads_to g g1 \<Longrightarrow> leads_to g1 g2 \<Longrightarrow> leads_to g g2"
  unfolding leads_to_def by (blast intro: ledger_run_append)

lemma leads_to_step: "ledger_step a g g' \<Longrightarrow> leads_to g g'"
  unfolding leads_to_def by (blast intro: ledger_run_one)

section \<open>At most one answer per lease\<close>

definition ledger_ok :: "ledger \<Rightarrow> bool" where
  "ledger_ok g \<longleftrightarrow>
     (\<forall>i t. g_phase g i = Some (Leased t) \<longrightarrow> t \<in> g_used g) \<and>
     (\<forall>i j t. g_phase g i = Some (Leased t) \<longrightarrow> g_phase g j = Some (Leased t) \<longrightarrow> i = j)"

lemma ledger_step_ok: "ledger_step a g g' \<Longrightarrow> ledger_ok g \<Longrightarrow> ledger_ok g'"
  by (induction rule: ledger_step.induct)
    (auto simp: ledger_ok_def enter_def answer_phase_def split: phase.splits if_splits)

fun answers :: "string \<Rightarrow> act \<Rightarrow> bool" where
  "answers t (Answer i t' p) = (t = t')"
| "answers t _ = False"

text \<open>A token can still be answered if it is unused or leased; an answer uses that up.\<close>

definition answerable :: "string \<Rightarrow> ledger \<Rightarrow> nat" where
  "answerable t g = (if t \<notin> g_used g \<or> (\<exists>i. g_phase g i = Some (Leased t)) then 1 else 0)"

lemma ledger_step_answerable:
  assumes "ledger_step a g g'" and "ledger_ok g"
  shows "(if answers t a then 1 else 0) + answerable t g' \<le> answerable t g"
  using assms(1)
proof cases
  case (answer i t' p)
  then show ?thesis
    using assms(2) by (auto simp: answerable_def enter_def answer_phase_def ledger_ok_def split: phase.splits)
qed (use assms(2) in \<open>auto simp: answerable_def enter_def ledger_ok_def split: if_splits\<close>)

lemma answered_once:
  assumes "ledger_run as g g'" and "ledger_ok g"
  shows "length (filter (answers t) as) + answerable t g' \<le> answerable t g"
  using assms
proof (induction rule: ledger_run.induct)
  case (run_cons a g g1 as g2)
  then show ?case
    using ledger_step_answerable [OF run_cons.hyps(1) run_cons.prems, of t] ledger_step_ok [OF run_cons.hyps(1)]
    by (fastforce split: if_splits)
qed simp

section \<open>The database as a ledger\<close>

definition phase_of :: "row \<Rightarrow> phase" where
  "phase_of r =
     (case r_status r of
        StatusPending \<Rightarrow> Waiting
      | StatusProcessing \<Rightarrow> Leased (derefStr (r_lease_token r))
      | s \<Rightarrow> Ended s)"

definition ledger_on :: "row list \<Rightarrow> string set \<Rightarrow> ledger" where
  "ledger_on rows used = \<lparr>g_phase = map_of (map (\<lambda>r. (r_id r, phase_of r)) rows), g_used = used\<rparr>"

definition ledger_of :: "(nat \<Rightarrow> string) \<Rightarrow> database \<Rightarrow> ledger" where
  "ledger_of gen d = ledger_on (d_rows d) (gen ` {..<d_uuid d})"

lemma ledger_on_sel [simp]:
  "g_phase (ledger_on rows used) = map_of (map (\<lambda>r. (r_id r, phase_of r)) rows)"
  "g_used (ledger_on rows used) = used"
  by (simp_all add: ledger_on_def)

lemma phase_at:
  assumes "distinct (map r_id (pre @ r # rest))"
  shows "g_phase (ledger_on (pre @ r # rest) used) (r_id r) = Some (phase_of r)"
proof -
  have "map_of (map (\<lambda>r. (r_id r, phase_of r)) pre) (r_id r) = None"
    using assms by (force simp: map_of_eq_None_iff)
  then show ?thesis by (simp add: map_add_def)
qed

lemma ledger_replace:
  assumes "distinct (map r_id (pre @ r # rest))" and "r_id r' = r_id r"
  shows "ledger_on (pre @ r' # rest) used = enter (r_id r) (phase_of r') (ledger_on (pre @ r # rest) used)"
proof -
  have "map_of (map (\<lambda>r. (r_id r, phase_of r)) pre) (r_id r) = None"
    using assms(1) by (force simp: map_of_eq_None_iff)
  then show ?thesis
    using assms(2) by (auto simp: ledger_on_def enter_def map_add_def fun_eq_iff split: option.splits)
qed

lemma ledger_remove:
  assumes "distinct (map r_id (pre @ r # rest))"
  shows "ledger_on (pre @ rest) used =
    (ledger_on (pre @ r # rest) used)\<lparr>g_phase := (g_phase (ledger_on (pre @ r # rest) used))(r_id r := None)\<rparr>"
proof -
  have "map_of (map (\<lambda>r. (r_id r, phase_of r)) pre) (r_id r) = None"
    "map_of (map (\<lambda>r. (r_id r, phase_of r)) rest) (r_id r) = None"
    using assms by (force simp: map_of_eq_None_iff)+
  then show ?thesis
    by (auto simp: ledger_on_def map_add_def fun_eq_iff split: option.splits)
qed

lemma ledger_append:
  assumes "r_id r \<notin> set (map r_id rows)"
  shows "ledger_on (rows @ [r]) used = enter (r_id r) (phase_of r) (ledger_on rows used)"
proof -
  have "map_of (map (\<lambda>r. (r_id r, phase_of r)) rows) (r_id r) = None"
    using assms by (force simp: map_of_eq_None_iff)
  then show ?thesis
    by (auto simp: ledger_on_def enter_def map_add_def fun_eq_iff split: option.splits)
qed

section \<open>Statements as acts\<close>

text \<open>What an update may make of one row, seen from the ledger.\<close>

definition row_act :: "row \<Rightarrow> row \<Rightarrow> bool" where
  "row_act r r' \<longleftrightarrow> r_id r' = r_id r \<and>
     (phase_of r' = phase_of r \<or>
      (\<exists>a. \<forall>g. g_phase g (r_id r) = Some (phase_of r) \<longrightarrow> ledger_step a g (enter (r_id r) (phase_of r') g)))"

lemma row_act_refl [simp]: "row_act r r"
  by (simp add: row_act_def)

lemma row_act_leads:
  assumes "distinct (map r_id (pre @ r # rest))" and "row_act r r'"
  shows "leads_to (ledger_on (pre @ r # rest) used) (ledger_on (pre @ r' # rest) used)"
proof (cases "phase_of r' = phase_of r")
  case True
  then have "map (\<lambda>r. (r_id r, phase_of r)) (pre @ r' # rest) = map (\<lambda>r. (r_id r, phase_of r)) (pre @ r # rest)"
    using assms(2) by (simp add: row_act_def)
  then show ?thesis unfolding ledger_on_def by (simp only: leads_to_refl)
next
  case False
  then obtain a where "ledger_step a (ledger_on (pre @ r # rest) used)
      (enter (r_id r) (phase_of r') (ledger_on (pre @ r # rest) used))"
    using assms(2) phase_at [OF assms(1)] unfolding row_act_def by metis
  moreover have "r_id r' = r_id r" using assms(2) by (simp add: row_act_def)
  ultimately show ?thesis
    unfolding ledger_replace [OF assms(1) \<open>r_id r' = r_id r\<close>] by (blast intro: leads_to_step)
qed

lemma update_leads:
  assumes "list_all2 row_act rows rows'" and "distinct (map r_id (pre @ rows))"
  shows "leads_to (ledger_on (pre @ rows) used) (ledger_on (pre @ rows') used)"
  using assms
proof (induction arbitrary: pre rule: list_all2_induct)
  case (Cons r rows r' rows')
  have same: "r_id r' = r_id r" using Cons.hyps(1) by (simp add: row_act_def)
  have "leads_to (ledger_on (pre @ r # rows) used) (ledger_on (pre @ r' # rows) used)"
    using row_act_leads Cons.prems Cons.hyps(1) by blast
  also have "leads_to (ledger_on (pre @ r' # rows) used) (ledger_on (pre @ r' # rows') used)"
    using Cons.IH [of "pre @ [r']"] Cons.prems same by simp
  finally (leads_to_trans) show ?case .
qed simp

lemma finish_act:
  assumes "owned keys clk r" and "st \<noteq> StatusProcessing"
  shows "row_act r (finish_row st reason clk nxt clear r)"
proof -
  obtain t where t: "r_lease_token r = Some t" "r_status r = StatusProcessing"
    using assms(1) by (rule ownedE)
  have "answer_phase (phase_of (finish_row st reason clk nxt clear r))"
    using assms(2) by (cases st) (simp_all add: answer_phase_def phase_of_def)
  moreover have "phase_of r = Leased t" using t by (simp add: phase_of_def derefStr_def)
  ultimately show ?thesis unfolding row_act_def by (auto intro: answer)
qed

lemma requeue_act: "requeuable ident r \<Longrightarrow> row_act r (requeue_row clk r)"
  unfolding row_act_def by (auto simp: requeuable_def phase_of_def intro: replay)

lemma renew_act: "row_act r (r\<lparr>r_locked_until := u\<rparr>)"
  by (simp add: row_act_def phase_of_def split: status.splits)

lemma map_update_leads:
  assumes "\<And>r. r \<in> set rows \<Longrightarrow> sel r \<Longrightarrow> row_act r (upd r)" and "distinct (map r_id rows)"
  shows "leads_to (ledger_on rows used) (ledger_on (map (\<lambda>r. if sel r then upd r else r) rows) used)"
proof -
  have "list_all2 row_act rows (map (\<lambda>r. if sel r then upd r else r) rows)"
    using assms(1) by (simp add: list.rel_map list.rel_refl_strong)
  then show ?thesis using update_leads [of _ _ "[]"] assms(2) by simp
qed

text \<open>Deleting ended rows one after the other.\<close>

lemma filter_leads:
  assumes "distinct (map r_id (pre @ rows))"
    and "\<And>r. r \<in> set rows \<Longrightarrow> \<not> keep r \<Longrightarrow> terminal (r_status r)"
  shows "leads_to (ledger_on (pre @ rows) used) (ledger_on (pre @ filter keep rows) used)"
  using assms
proof (induction rows arbitrary: pre)
  case (Cons r rows)
  show ?case
  proof (cases "keep r")
    case True
    then show ?thesis using Cons.IH [of "pre @ [r]"] Cons.prems by simp
  next
    case False
    then have "terminal (r_status r)" using Cons.prems(2) by simp
    then obtain s where "phase_of r = Ended s"
      by (cases "r_status r") (simp_all add: phase_of_def)
    then have "ledger_step (Forget (r_id r)) (ledger_on (pre @ r # rows) used) (ledger_on (pre @ rows) used)"
      unfolding ledger_remove [OF Cons.prems(1)] using phase_at [OF Cons.prems(1)] by (metis forget)
    then have "leads_to (ledger_on (pre @ r # rows) used) (ledger_on (pre @ rows) used)"
      by (rule leads_to_step)
    also have "leads_to (ledger_on (pre @ rows) used) (ledger_on (pre @ filter keep rows) used)"
      using Cons.IH [of pre] Cons.prems by simp
    finally (leads_to_trans) show ?thesis using False by simp
  qed
qed simp

text \<open>A claim leases its rows one after the other, each under the next token.\<close>

lemma used_Suc: "gen ` {..<Suc k} = insert (gen k) (gen ` {..<k})"
  by (simp add: lessThan_Suc)

lemma claim_leads:
  assumes "inj gen" and "claim_update gen inst until ids k rows = (rows', out, k')"
    and "distinct (map r_id (pre @ rows))"
    and "\<And>r. r \<in> set rows \<Longrightarrow> r_id r \<in> set ids \<Longrightarrow> open_phase (phase_of r)"
  shows "leads_to (ledger_on (pre @ rows) (gen ` {..<k})) (ledger_on (pre @ rows') (gen ` {..<k'}))"
  using assms(2-4)
proof (induction rows arbitrary: pre k rows' out k')
  case (Cons r rows)
  show ?case
  proof (cases "r_id r \<in> set ids")
    case True
    let ?r' = "claim_row inst until (gen k) r"
    obtain tbl out1 where rest: "claim_update gen inst until ids (Suc k) rows = (tbl, out1, k')"
      and rows': "rows' = ?r' # tbl"
      using Cons.prems(1) True by (auto simp: Let_def split: prod.splits)
    have fresh: "gen k \<notin> gen ` {..<k}" using assms(1) by (auto dest: injD)
    have phase: "phase_of ?r' = Leased (gen k)" by (simp add: phase_of_def derefStr_def)
    have "ledger_on (pre @ ?r' # rows) (gen ` {..<Suc k}) =
        (ledger_on (pre @ ?r' # rows) (gen ` {..<k}))\<lparr>g_used := insert (gen k) (gen ` {..<k})\<rparr>"
      unfolding used_Suc by (simp add: ledger_on_def)
    also have "ledger_on (pre @ ?r' # rows) (gen ` {..<k}) =
        enter (r_id r) (Leased (gen k)) (ledger_on (pre @ r # rows) (gen ` {..<k}))"
      using ledger_replace [OF Cons.prems(2), of ?r'] unfolding phase by simp
    finally have leased: "ledger_on (pre @ ?r' # rows) (gen ` {..<Suc k}) =
        (enter (r_id r) (Leased (gen k)) (ledger_on (pre @ r # rows) (gen ` {..<k})))
          \<lparr>g_used := insert (gen k) (gen ` {..<k})\<rparr>" .
    have "ledger_step (Lease (r_id r) (gen k)) (ledger_on (pre @ r # rows) (gen ` {..<k}))
        ((enter (r_id r) (Leased (gen k)) (ledger_on (pre @ r # rows) (gen ` {..<k})))
          \<lparr>g_used := insert (gen k) (g_used (ledger_on (pre @ r # rows) (gen ` {..<k})))\<rparr>)"
      by (rule lease [OF phase_at [OF Cons.prems(2)]]) (use Cons.prems(3) True fresh in simp_all)
    then have "leads_to (ledger_on (pre @ r # rows) (gen ` {..<k})) (ledger_on (pre @ ?r' # rows) (gen ` {..<Suc k}))"
      unfolding leased ledger_on_sel by (rule leads_to_step)
    also have "leads_to (ledger_on (pre @ ?r' # rows) (gen ` {..<Suc k})) (ledger_on (pre @ ?r' # tbl) (gen ` {..<k'}))"
      using Cons.IH [OF rest, of "pre @ [?r']"] Cons.prems(2,3) by simp
    finally (leads_to_trans) show ?thesis using rows' by simp
  next
    case False
    obtain tbl out1 where rest: "claim_update gen inst until ids k rows = (tbl, out1, k')"
      and rows': "rows' = r # tbl"
      using Cons.prems(1) False by (auto split: prod.splits)
    then show ?thesis using Cons.IH [OF rest, of "pre @ [r]"] Cons.prems(2,3) by simp
  qed
qed simp

text \<open>An insert accepts its new ids one after the other; a generated id draws a token.\<close>

lemma insert_leads:
  assumes "sql_insert gen now k s vs rows = (rows', k', s')"
  shows "leads_to (ledger_on rows (gen ` {..<k})) (ledger_on rows' (gen ` {..<k'}))"
  using assms
proof (induction gen now k s vs rows arbitrary: rows' k' s' rule: sql_insert.induct)
  case (2 gen now k s v vs tbl)
  obtain ident k1 where ik: "(case v_id v of Some i \<Rightarrow> (i, k) | None \<Rightarrow> (gen k, Suc k)) = (ident, k1)"
    by fastforce
  then have "gen ` {..<k} \<subseteq> gen ` {..<k1}" by (auto split: option.splits)
  then have drawn: "leads_to (ledger_on tbl (gen ` {..<k})) (ledger_on tbl (gen ` {..<k1}))"
    using draw [of "ledger_on tbl (gen ` {..<k})" "gen ` {..<k1}"]
    by (auto simp: ledger_on_def intro: leads_to_step)
  show ?case
  proof (cases "ident \<in> set (map r_id tbl)")
    case True
    with 2(3) ik have "sql_insert gen now k1 (s + 1) vs tbl = (rows', k', s')" by simp
    from 2(1) [OF ik [symmetric] refl True this] show ?thesis using drawn by (rule leads_to_trans [rotated])
  next
    case False
    let ?r = "fresh_row ident now s v"
    have r: "r_id ?r = ident" "phase_of ?r = Waiting" by (simp_all add: fresh_row_def phase_of_def)
    have "g_phase (ledger_on tbl (gen ` {..<k1})) ident = None"
      using False by (force simp: map_of_eq_None_iff)
    then have "leads_to (ledger_on tbl (gen ` {..<k1})) (enter ident Waiting (ledger_on tbl (gen ` {..<k1})))"
      by (blast intro: leads_to_step accept)
    then have "leads_to (ledger_on tbl (gen ` {..<k1})) (ledger_on (tbl @ [?r]) (gen ` {..<k1}))"
      using ledger_append [of ?r tbl "gen ` {..<k1}"] False r by simp
    moreover from False 2(3) ik have "sql_insert gen now k1 (s + 1) vs (tbl @ [?r]) = (rows', k', s')" by simp
    from 2(2) [OF ik [symmetric] refl False this]
    have "leads_to (ledger_on (tbl @ [?r]) (gen ` {..<k1})) (ledger_on rows' (gen ` {..<k'}))" .
    ultimately show ?thesis using drawn by (blast intro: leads_to_trans)
  qed
qed simp

section \<open>The database implements the ledger\<close>

lemma claim_pick_open:
  assumes "distinct (map r_id tbl)" and "r \<in> set tbl"
    and "r_id r \<in> set (map r_id (claim_pick ordered batch now locked tbl))"
  shows "open_phase (phase_of r)"
proof -
  have "claimable now r" using assms in_pick_iff [OF assms(1,2)] claim_pickD(2) by blast
  then show ?thesis by (auto simp: claimable_def open_phase_def phase_of_def)
qed

theorem db_step_ledger:
  assumes "inj gen" and "distinct (map r_id (d_rows d))" and "db_step gen l d d'"
  shows "leads_to (ledger_of gen d) (ledger_of gen d')"
  using assms(3,2)
proof (induction rule: db_step.cases)
  case (step_insert now d vs tbl k s)
  then show ?case using insert_leads [OF step_insert(4)] by (simp add: ledger_of_def)
next
  case (step_claim d now locked ordered inst until batch tbl out k)
  have dist: "distinct (map r_id (d_rows d))" using step_claim by simp
  then have "leads_to (ledger_on ([] @ d_rows d) (gen ` {..<d_uuid d})) (ledger_on ([] @ tbl) (gen ` {..<k}))"
    by (intro claim_leads [OF assms(1) step_claim(4) [unfolded sql_claim_def]])
      (simp, rule claim_pick_open)
  then show ?case using step_claim(2,3) by (simp add: ledger_of_def)
next
  case (step_renew keys clk until d tbl n)
  then show ?case
    using map_update_leads [of "d_rows d" "owned keys clk" "\<lambda>r. r\<lparr>r_locked_until := Some until\<rparr>"]
    by (auto simp: ledger_of_def sql_renew_def renew_act)
next
  case (step_finish st keys reason clk nxt clear d tbl out)
  then show ?case
    using map_update_leads [of "d_rows d" "owned keys clk" "finish_row st reason clk nxt clear"]
    by (auto simp: ledger_of_def sql_finish_def finish_act)
next
  case (step_requeue ident clk d tbl n)
  then show ?case
    using map_update_leads [of "d_rows d" "requeuable ident" "requeue_row clk"]
    by (auto simp: ledger_of_def sql_requeue_def requeue_act)
next
  case (step_cleanup rt batch locked d tbl n)
  let ?ids = "set (map r_id (cleanup_pick rt batch locked (d_rows d)))"
  have dist: "distinct (map r_id (d_rows d))" using step_cleanup by simp
  have tbl: "tbl = filter (\<lambda>r. r_id r \<notin> ?ids) (d_rows d)"
    using step_cleanup(4) by (auto simp: sql_cleanup_def Let_def)
  have "terminal (r_status r)" if r: "r \<in> set (d_rows d)" "\<not> r_id r \<notin> ?ids" for r
  proof -
    have "r \<notin> set (fst (sql_cleanup rt batch locked (d_rows d)))" using r by (auto simp: sql_cleanup_def Let_def)
    from cleanup_deleted [OF dist r(1) this] show ?thesis
      by (blast dest: cleanup_pickD(2) expired_terminal)
  qed
  then have "leads_to (ledger_on ([] @ d_rows d) (gen ` {..<d_uuid d})) (ledger_on ([] @ tbl) (gen ` {..<d_uuid d}))"
    unfolding tbl using dist by (intro filter_leads) auto
  then show ?case using step_cleanup(2,3) by (simp add: ledger_of_def)
qed

lemma db_steps_ledger:
  assumes "db_steps gen L d d'" and "inj gen" and "distinct (map r_id (d_rows d))"
  shows "leads_to (ledger_of gen d) (ledger_of gen d')"
proof -
  have "leads_to (ledger_of gen d) (ledger_of gen d') \<and> distinct (map r_id (d_rows d'))"
    using assms(1)
  proof (induction rule: db_steps_induct)
    case (step l e e')
    then show ?case
      using db_step_ledger [OF assms(2)] db_step_ids_distinct leads_to_trans by blast
  qed (use assms(3) in simp)
  then show ?thesis ..
qed

lemma ledger_of_ok:
  assumes "db_ok gen d"
  shows "ledger_ok (ledger_of gen d)"
proof -
  have leased: "\<exists>r \<in> set (d_rows d). r_id r = i \<and> r_lease_token r = Some t"
    if at: "g_phase (ledger_of gen d) i = Some (Leased t)" for i t
  proof -
    obtain r where r: "r \<in> set (d_rows d)" "r_id r = i" "phase_of r = Leased t"
      using at by (auto simp: ledger_of_def dest!: map_of_SomeD)
    then have "r_status r = StatusProcessing" "t = derefStr (r_lease_token r)"
      by (auto simp: phase_of_def split: status.splits)
    moreover have "row_ok r" using assms r(1) by (simp add: db_ok_def)
    ultimately show ?thesis using r by (auto simp: row_ok_def derefStr_def)
  qed
  have issued: "t \<in> gen ` {..<d_uuid d}" if "r \<in> set (d_rows d)" "r_lease_token r = Some t" for r t
    using assms that unfolding db_ok_def issued_def by blast
  have unshared: "r_id a = r_id b"
    if "a \<in> set (d_rows d)" "b \<in> set (d_rows d)" "r_lease_token a = Some t" "r_lease_token b = Some t" for a b t
    using assms that unfolding db_ok_def by (metis option.distinct(1))
  show ?thesis
    unfolding ledger_ok_def
  proof (intro conjI allI impI)
    show "t \<in> g_used (ledger_of gen d)" if "g_phase (ledger_of gen d) i = Some (Leased t)" for i t
      using leased [OF that] issued by (auto simp: ledger_of_def)
    show "i = j" if "g_phase (ledger_of gen d) i = Some (Leased t)" "g_phase (ledger_of gen d) j = Some (Leased t)"
      for i j t
      using leased [OF that(1)] leased [OF that(2)] unshared by blast
  qed
qed

text \<open>A run of statements is a run of acts that answers each lease at most once.\<close>

lemma db_steps_acts:
  assumes "db_steps gen L d d'" and "inj gen" and "db_ok gen d"
  shows "\<exists>as. ledger_run as (ledger_of gen d) (ledger_of gen d') \<and> (\<forall>t. length (filter (answers t) as) \<le> 1)"
proof -
  obtain as where run: "ledger_run as (ledger_of gen d) (ledger_of gen d')"
    using db_steps_ledger [OF assms(1,2)] assms(3) by (auto simp: db_ok_def leads_to_def)
  have "length (filter (answers t) as) \<le> 1" for t
    using answered_once [OF run ledger_of_ok [OF assms(3)], of t] by (auto simp: answerable_def split: if_splits)
  then show ?thesis using run by blast
qed

end
