(* ===== verification/Spec2Isabelle.thy ===== *)
theory Spec2Isabelle
  imports Sample Ordering Progress Insertion Stopping Unrecordable Ledger
begin

text \<open>
  A verification development for pg-outbox, a transactional outbox for Go on PostgreSQL.

  The program. A producer writes messages into the table \<^verbatim>\<open>outbox_messages\<close> in the transaction
  of its own change (\<^verbatim>\<open>outbox.go\<close>: \<open>Enqueue\<close>, \<open>EnqueueBatch\<close>, \<open>EnqueueValue\<close>). Any number of relay
  processes (\<^verbatim>\<open>engine/relay.go\<close>) claim due rows in batches under a lease and a fresh token, hand
  them to the user's publisher while a heartbeat renews the lease, and settle each row by the
  publisher's answer: published, discarded, dead, or pending again after a delay. The statements
  are those of \<^verbatim>\<open>engine/store.go\<close>; every write of a relay names the id and the token of the
  attempt. A cleaner (\<^verbatim>\<open>engine/cleaner.go\<close>) deletes terminal rows past their retention, \<open>Requeue\<close>
  replays a dead row, and \<open>Run\<close> supervises the goroutines. The publisher's answers are Go errors
  (\<^verbatim>\<open>port/outcome.go\<close>); the delay of a retry comes from \<^verbatim>\<open>backoff/backoff.go\<close>; the settings from
  \<^verbatim>\<open>config/config.go\<close>; \<^verbatim>\<open>contrib/publishers/\<close> has adapters for Kafka, NATS and Valkey.

  Theories that model code, and what they model:
  \<^item> \<open>Outcome\<close>: error values with \<open>errors.As\<close>, \<open>errors.Join\<close> and \<open>Error()\<close>; \<^verbatim>\<open>port/outcome.go\<close>.
  \<^item> \<open>Message\<close>: \<^verbatim>\<open>message/message.go\<close>. \<open>Backoff\<close>: \<^verbatim>\<open>backoff/backoff.go\<close>, on 64-bit words.
    \<open>Port\<close>: the calls of \<^verbatim>\<open>port/port.go\<close>. \<open>Config\<close>: \<^verbatim>\<open>config/config.go\<close>.
  \<^item> \<open>Json\<close>: the headers as JSON: the text of \<open>json.Marshal\<close>, the value a \<^verbatim>\<open>jsonb\<close> column holds and prints,
    and the reader of \<open>json.Unmarshal\<close>. Two printers share one reader by the locale \<open>printer\<close>.
  \<^item> \<open>Table\<close>: the rows of \<^verbatim>\<open>outbox_messages\<close> (\<^verbatim>\<open>migrations/\<close>) and the meaning of each SQL statement
    of \<^verbatim>\<open>engine/store.go\<close>: \<open>sql_insert\<close>, \<open>sql_claim\<close>, \<open>sql_renew\<close>, \<open>sql_finish\<close>, \<open>sql_requeue\<close>,
    \<open>sql_cleanup\<close>.
  \<^item> \<open>Engine\<close>: the state (\<open>world\<close>: database, tick, log of calls to user code), the environment
    (\<open>env\<close>) and the combinators of Go methods (\<open>'a go\<close>, a state transformer that returns or
    panics; \<open>recovered\<close> is a deferred recover).
  \<^item> \<open>Store\<close>: the methods of the store, one definition each, with the parameters they bind;
    \<open>Arguments\<close> reads the parameters of an insert back as the messages they were built from.
    \<open>Relay\<close>: \<^verbatim>\<open>engine/relay.go\<close> in the order of the file. \<open>Cleaner\<close>: \<^verbatim>\<open>engine/cleaner.go\<close>.
    \<open>Outbox\<close>: \<^verbatim>\<open>outbox.go\<close>. \<open>Kafka\<close>, \<open>Nats\<close>, \<open>Valkey\<close>: the adapters. \<open>Migrations\<close>:
    \<^verbatim>\<open>migrations/migrations.go\<close> and what \<^verbatim>\<open>0002_delivery_control.sql\<close> and \<^verbatim>\<open>0003_insert_order.sql\<close>
    make of the rows. \<open>Columns\<close>: the column list of \<^verbatim>\<open>engine/store.go\<close> and its scan by position, against
    the value-level scan of \<open>Store\<close>.
  \<^item> \<open>Sql\<close>: the fragment of PostgreSQL's language the store uses: syntax trees, their meaning by
    three-valued logic, the binding of arguments, and the words a tree is written with.
    \<open>Statements\<close>, \<open>Insertion\<close>: the format strings of \<^verbatim>\<open>engine/store.go\<close>, the trees they spell, and the
    proofs that each tree means the function of \<open>Table\<close> that the methods of \<open>Store\<close> run. The words of a text
    ignore blanks; precedence is fixed by requiring parentheses around a disjunction in a conjunction.

  Theories of lemmas, and what they show:
  \<^item> \<open>Table_Facts\<close>: what each statement selects, writes and leaves alone; the update statements
    are instances of the locale \<open>keyed_update\<close>.
  \<^item> \<open>Steps\<close>: the database as an abstract state machine whose step is one committed statement with
    any parameters, its invariant \<open>db_ok\<close>, the lifecycle of a row, and the fence of lease tokens.
    \<open>Engine_Steps\<close>: every Go operation refines that machine. The argument is made once, in the
    locales \<open>db_frame\<close>, \<open>batch_frame\<close>, \<open>relay_frame\<close> and \<open>cleaner_frame\<close>, for any reflexive and transitive
    relation on databases the statements stay within; the interpretations put in the machine's
    steps, the relation of published to acknowledged rows, the retention windows and others.
  \<^item> \<open>Ledger\<close>: the abstract specification of the outbox, a ledger of messages that wait, are leased
    under a token or have ended; the machine implements it, and it answers no lease twice.
  \<^item> \<open>Settlement\<close>, \<open>Batch\<close>, \<open>Pipeline\<close>, \<open>Drain\<close>: the specification of settling is \<open>verdict\<close>, the status a
    message's own outcome calls for; settling writes verdicts and nothing else, a batch without
    an error has written all of them, a drain ends and leaves nothing due.
  \<^item> \<open>Events\<close>, \<open>Guarantees\<close>, \<open>Delivery\<close>: the order of calls to user code and the guarantees under failure.
    \<open>Intake\<close>: enqueueing and replay. \<open>Retention\<close>: the cleaner. \<open>Supervision\<close>: workers, listener
    and \<open>Run\<close>, whose goroutines take turns, each turn a run of the goroutine's own code. \<open>Facade\<close>: construction. \<open>Publishers\<close>: the contract \<open>batch_publisher\<close> that the three
    adapters implement, with clients that may answer differently each time; \<open>Delivery\<close> plugs them into the relay.
  \<^item> \<open>Ordering\<close>: ordered mode over the whole system, as an invariant of the machine restricted to
    ordered claims and commits in order. \<open>Progress\<close>: in a healthy deployment every batch succeeds,
    so that draining delivers. \<open>Stopping\<close>: which errors end a worker under the default classifier.
    \<open>Unrecordable\<close>: messages whose error text the database cannot store.
  \<^item> \<open>Sample\<close>: a concrete deployment for the instances of the properties.

  The environment. Every interaction with the outside has a number, the tick, and the
  environment answers by it: whether a call to the database succeeds, fails before or after
  committing (\<open>e_call\<close>), the clocks, the rows other transactions hold locked, what other sessions
  have committed meanwhile (\<open>e_others\<close>), whether the context is done, what the publisher, the
  hooks and the error classifier do, and the heartbeat's timer. A property for all environments
  is one for all these behaviours and interleavings. Named restrictions are \<open>alone\<close> (no other
  session writes), \<open>returning_ok\<close> (\<open>RETURNING\<close> yields the updated rows, in some order), \<open>uuid_ok\<close> and
  injectivity of \<open>e_gen\<close> (\<open>gen_random_uuid()\<close> does not repeat), \<open>canonical\<close> (ids and tokens are in the
  form PostgreSQL prints), \<open>readable\<close> (a result holds updated rows only, and the stored headers are values
  of their column), \<open>others_within\<close> (other sessions only run the program's statements) and
  \<open>calm_hooks\<close> (the hooks return). The database rejects some texts (\<open>e_text_ok\<close>; PostgreSQL those with a
  zero byte or invalid in its encoding): \<open>recordable\<close> and \<open>recordable_text\<close> say that it accepts a
  publisher's reasons, \<open>storable\<close> that it accepts a message, \<open>uuid_texts_ok\<close> that what it reads as
  a uuid is such a text. \<open>others_in_order\<close> keeps other sessions to ordered claims and inserts newer than
  every stored row. For progress, \<open>healthy\<close> says that calls succeed, hooks and backoff
  return and the instance id is storable, \<open>willing\<close> that the publisher returns no error that ends the relay
  and none that cannot be recorded, \<open>prompt\<close> that a batch is over before its lease, \<open>accepting\<close> that the
  publisher takes every batch, \<open>plugged_in\<close> that the publisher is a given adapter whose errors are no
  \<open>PerMessage\<close>, \<open>unhindered\<close> that no other transaction holds row locks, and \<open>unblocked\<close>
  that a row, and in ordered mode every row that holds it back, can be claimed. \<open>public_env\<close> says that
  database errors do not contain the engine's own marker of a fatal error, whose type is not exported.
  Each property states those it needs.

  Loops and fuel. \<open>drain\<close> and \<open>cleanup_pass\<close> run until a batch comes back short; they take fuel and
  return \<open>Running\<close> when it is used up. Drain ends with more fuel than \<open>work\<close>, the sum over unsettled
  rows of the attempts left plus one (\<open>drain_terminates\<close>), a pass with more fuel than there are
  rows (\<open>cleanup_terminates\<close>). The worker, the listener and the cleaner recurse over the finite
  list of the events they receive. All other functions are total.

  Not modelled: concurrency inside a statement (a statement is one atomic update with one reading of
  \<open>clock_timestamp()\<close>, where PostgreSQL reads it per row; the row locks it skips are a parameter), timers and the publish timeout (their effect, a cancelled context, is the
  environment's), logging texts, stack traces, escapes of surrogates in JSON (neither printer writes one),
  a database whose encoding is not UTF-8, the overflow of the integer column \<open>attempts\<close>, the indexes and constraints of the migrations, the struct tags of \<open>Config\<close>
  and the names \<^verbatim>\<open>outbox.go\<close> re-exports, which have no behaviour of their own, and the libraries of the
  transports, which are parameters.
\<close>

section \<open>One batch and the drain loop\<close>

text \<open>C1. A batch that reports no error, run by a relay that nobody disturbs: it claimed exactly the
  rows that were due, called the publisher once with them, recorded for each row the verdict of
  the publisher's answer for that very message (published, discarded, dead or pending again) with
  one more attempt counted, and left every other row as it was.\<close>

theorem batch_correct:
  assumes "processBatch env cfg w = (Return (n, None), w')"
    and "alone env" and "returning_ok env" and "uuid_ok env (w_db w)"
    and "distinct (map r_id (d_rows (w_db w)))"
  shows "\<exists>perr msgs. n = length (due env cfg (w_tick w) (d_rows (w_db w))) \<and>
    list_all2 (processed_row cfg perr (due env cfg (w_tick w) (d_rows (w_db w))) msgs)
      (d_rows (w_db w)) (d_rows (w_db w')) \<and>
    (0 < n \<longrightarrow> published_as env msgs perr \<and>
      set (map m_ID msgs) = r_id ` set (due env cfg (w_tick w) (d_rows (w_db w))) \<and>
      distinct (map m_ID msgs) \<and>
      (\<exists>evs. w_log w' = w_log w @ EvPublish msgs # evs \<and> list_all (\<lambda>ev. \<not> publish_event ev) evs))"
  using assms by (rule processBatch_rows)

theorem batch_correct_witness:
  "\<exists>perr msgs. 2 = length (due sample_env sample_cfg 0 (d_rows sample_db)) \<and>
    list_all2 (processed_row sample_cfg perr (due sample_env sample_cfg 0 (d_rows sample_db)) msgs)
      (d_rows sample_db) (d_rows (w_db sample_after))"
  using batch_correct [OF sample_batch] by auto

text \<open>C9. Draining ends: with more fuel than the attempts left over all unsettled rows, the loop
  returns or panics, whatever the publisher, the hooks and the calls do. The bound is the sum over
  the rows of the attempts left before the limit plus one; the backoff plays no part in it.\<close>

theorem drain_terminates:
  assumes "alone env" and "returning_ok env" and "uuid_ok env (w_db w)"
    and "distinct (map r_id (d_rows (w_db w)))" and "work cfg (w_db w) < fuel"
  shows "fst (drain fuel env cfg w) \<noteq> Return Running"
  using assms by (rule drain_ends)

theorem drain_terminates_witness:
  "fst (drain 9 sample_env sample_cfg sample_world) \<noteq> Return Running"
  by (rule drain_terminates) (simp, simp, simp, simp, code_simp)

text \<open>A drain that returns nil without having been cancelled has either seen an empty claim last
  (no row of the table it leaves was due then) or logged the error that made it give up.\<close>

theorem drain_empties:
  assumes "alone env" and "returning_ok env" and "uuid_ok env (w_db w)"
    and "distinct (map r_id (d_rows (w_db w)))" and "\<forall>n. \<not> e_done env n"
    and "drain fuel env cfg w = (Return (Done None), w')"
  shows "(\<exists>n. due env cfg n (d_rows (w_db w')) = []) \<or> log_ends_with_error w'"
  using assms by (rule drain_reaches)

theorem drain_empties_witness:
  "(\<exists>n. due sample_env sample_cfg n (d_rows (w_db (snd (drain 9 sample_env sample_cfg sample_world)))) = []) \<or>
    log_ends_with_error (snd (drain 9 sample_env sample_cfg sample_world))"
proof (rule drain_empties)
  show "drain 9 sample_env sample_cfg sample_world =
      (Return (Done None), snd (drain 9 sample_env sample_cfg sample_world))"
    by (rule prod_eqI) (code_simp, simp)
qed simp_all

text \<open>C2. Progress: in a healthy deployment (the database answers, hooks and backoff return, the publisher
  does not abort, every batch is over before its lease runs out) a drain with enough fuel returns
  nil and leaves nothing due, whatever ordinary, permanent, discarding or per-message errors the
  publisher returns (if the database takes their texts); and when the publisher accepts every batch, every row
  that was claimable when the drain began is published, in ordered mode provided that the earlier
  unsettled rows of its key were claimable too.\<close>

theorem drain_delivers:
  assumes "healthy env cfg" and "willing env cfg" and "prompt env cfg" and "\<forall>n. \<not> e_done env n"
    and "uuid_ok env (w_db w)" and "distinct (map r_id (d_rows (w_db w)))" and "work cfg (w_db w) < fuel"
  shows "\<exists>w'. drain fuel env cfg w = (Return (Done None), w') \<and>
    (\<exists>n \<ge> w_tick w. due env cfg n (d_rows (w_db w')) = []) \<and>
    (accepting env \<and> unhindered env \<and> 1 \<le> s_BatchSize cfg \<longrightarrow>
      list_all2 (\<lambda>r r'. unblocked cfg (e_now env (w_tick w)) (d_rows (w_db w)) r \<longrightarrow>
          same_origin r r' \<and> r_status r' = StatusPublished)
        (d_rows (w_db w)) (d_rows (w_db w')))"
proof -
  from drain_delivers_rows [OF assms, of "\<lambda>_ _. True"] obtain w' n where
    run: "drain fuel env cfg w = (Return (Done None), w')" "w_tick w \<le> n" "due env cfg n (d_rows (w_db w')) = []"
    by blast
  then show ?thesis using drain_publishes [OF assms] by auto
qed

lemma sample_healthy [simp]: "healthy sample_env sample_cfg"
  by (simp add: healthy_def calm_hooks_def sample_cfg_def)

lemma sample_willing [simp]: "willing sample_env sample_cfg"
  by (simp add: willing_def sample_env_def sample_cfg_def)

lemma sample_prompt [simp]: "prompt sample_env sample_cfg"
  by (simp add: prompt_def lease_end_def) (simp add: sample_env_def sample_cfg_def)

lemma sample_unblocked: "r \<in> set (d_rows sample_db) \<Longrightarrow> unblocked cfg 100 (d_rows sample_db) r"
  by (auto simp: unblocked_def sample_db_def sample_row_def claimable_def)

theorem drain_delivers_witness:
  "\<exists>w'. drain 9 sample_env (sample_cfg\<lparr>s_Ordered := True\<rparr>) sample_world = (Return (Done None), w') \<and>
    list_all2 (\<lambda>r r'. same_origin r r' \<and> r_status r' = StatusPublished) (d_rows sample_db) (d_rows (w_db w'))"
proof -
  let ?cfg = "sample_cfg\<lparr>s_Ordered := True\<rparr>"
  have "healthy sample_env ?cfg" "willing sample_env ?cfg"
    by (simp add: healthy_def calm_hooks_def sample_cfg_def)
      (simp add: willing_def sample_env_def sample_cfg_def)
  moreover have "prompt sample_env ?cfg"
    by (simp add: prompt_def lease_end_def) (simp add: sample_env_def sample_cfg_def)
  moreover have "accepting sample_env" "unhindered sample_env"
    by (simp_all add: accepting_def unhindered_def) (simp add: sample_env_def)
  moreover have "1 \<le> s_BatchSize ?cfg" "work ?cfg (w_db sample_world) < 9" by code_simp+
  ultimately obtain w' where run: "drain 9 sample_env ?cfg sample_world = (Return (Done None), w')"
    and rows: "list_all2 (\<lambda>r r'. unblocked ?cfg 100 (d_rows sample_db) r \<longrightarrow>
      same_origin r r' \<and> r_status r' = StatusPublished) (d_rows sample_db) (d_rows (w_db w'))"
    using drain_delivers [of sample_env ?cfg sample_world 9] by auto
  have "list_all2 (\<lambda>r r'. same_origin r r' \<and> r_status r' = StatusPublished) (d_rows sample_db) (d_rows (w_db w'))"
    by (rule list.rel_mono_strong [OF rows]) (use sample_unblocked in blast)
  with run show ?thesis by blast
qed

text \<open>C3. No message is lost on the way: whatever the relays, cleaners and producers have committed since a
  row was stored, in any order and with any crash between two statements, the row is still there
  with its message, or it had come to a terminal status on the way. And if it is there and can be claimed when a
  healthy relay begins to drain (it waits and is due, or the lease of a relay that disappeared has run
  out), the drain publishes it, when the publisher accepts every batch.\<close>

theorem delivered_after_any_history:
  assumes "db_steps (e_gen env) L d (w_db w)" and "distinct (map r_id (d_rows d))" and "r \<in> set (d_rows d)"
    and "healthy env cfg" and "willing env cfg" and "prompt env cfg" and "\<forall>n. \<not> e_done env n"
    and "uuid_ok env (w_db w)" and "work cfg (w_db w) < fuel"
    and "accepting env" and "unhindered env" and "1 \<le> s_BatchSize cfg"
  shows "(\<exists>r' \<in> set (d_rows (w_db w)). same_message r r' \<and>
      (unblocked cfg (e_now env (w_tick w)) (d_rows (w_db w)) r' \<longrightarrow>
        (\<exists>w'. drain fuel env cfg w = (Return (Done None), w') \<and>
          (\<exists>r'' \<in> set (d_rows (w_db w')). same_origin r r'' \<and> r_status r'' = StatusPublished)))) \<or>
    (\<exists>d1. \<exists>r1 \<in> set (d_rows d1). db_steps (e_gen env) L d d1 \<and> db_steps (e_gen env) L d1 (w_db w) \<and>
      same_origin r r1 \<and> terminal (r_status r1))"
    (is "?there \<or> ?ended")
proof (rule disjE [OF db_steps_row [OF assms(1-3)]])
  assume "\<exists>r' \<in> set (d_rows (w_db w)). same_message r r'"
  then obtain r' where r': "r' \<in> set (d_rows (w_db w))" "same_message r r'" "same_origin r r'"
    unfolding same_message_def by blast
  obtain w' where run: "drain fuel env cfg w = (Return (Done None), w')"
    and rows: "list_all2 (\<lambda>x y. unblocked cfg (e_now env (w_tick w)) (d_rows (w_db w)) x \<longrightarrow>
      same_origin x y \<and> r_status y = StatusPublished) (d_rows (w_db w)) (d_rows (w_db w'))"
    using drain_publishes [OF assms(4-8) db_steps_distinct [OF assms(1,2)] assms(9-12)] by blast
  from list_all2_in_set1 [OF rows r'(1)] show ?thesis using run r' same_origin_trans by metis
qed blast

text \<open>The instance: a relay claims the row under a lease that ends at 50 and is not seen again; the
  next one drains at 100.\<close>

definition sample_abandoned :: database where
  "sample_abandoned = sample_db
     \<lparr>d_rows := [claim_row ''gone'' 50 (sample_gen 2) (sample_row ''b'' 2)], d_uuid := 3\<rparr>"

theorem delivered_after_any_history_witness:
  "\<exists>w'. drain 9 sample_env sample_cfg (sample_world\<lparr>w_db := sample_abandoned\<rparr>) = (Return (Done None), w') \<and>
    (\<exists>r \<in> set (d_rows (w_db w')). same_origin (sample_row ''b'' 2) r \<and> r_status r = StatusPublished)"
proof -
  let ?d = "sample_db\<lparr>d_rows := [sample_row ''b'' 2]\<rparr>"
  let ?w = "sample_world\<lparr>w_db := sample_abandoned\<rparr>"
  have "sql_claim sample_gen 2 2 (\<lambda>_. False) False ''gone'' 50 1 (d_rows ?d) =
      (d_rows sample_abandoned, [claim_row ''gone'' 50 (sample_gen 2) (sample_row ''b'' 2)], 3)"
    by code_simp
  then have "db_steps sample_gen {LClaim} ?d sample_abandoned"
    using db_steps_single [OF singletonI step_claim [of sample_gen ?d 2 "\<lambda>_. False" False "''gone''" 50 1]]
    by (simp add: sample_abandoned_def sample_db_def)
  moreover have "accepting sample_env" "unhindered sample_env"
    by (simp_all add: accepting_def unhindered_def) (simp add: sample_env_def)
  moreover have "1 \<le> s_BatchSize sample_cfg" "work sample_cfg sample_abandoned < 9" by code_simp+
  moreover have "unblocked sample_cfg 100 (d_rows sample_abandoned) r" if "r \<in> set (d_rows sample_abandoned)" for r
    using that by (auto simp: unblocked_def sample_abandoned_def claim_row_def claimable_def sample_row_def)
  moreover have "\<not> terminal (r_status r1)" if "r1 \<in> set (d_rows d1)" "db_steps sample_gen {LClaim} ?d d1" for r1 d1
    using claims_end_nothing [OF that(2)] that(1) by (auto simp: sample_row_def)
  ultimately show ?thesis
    using delivered_after_any_history [of sample_env "{LClaim}" ?d ?w "sample_row ''b'' 2" sample_cfg 9]
    by (simp add: sample_world_def) blast
qed

section \<open>Delivery guarantees\<close>

text \<open>C4. At least once: however long a worker runs and whatever fails on the way (errors, lost
  acknowledgements, panics, cancellation), a row becomes published only if the publisher was
  handed a batch with that row's message and its answer reports no failure for it.\<close>

theorem published_only_if_acknowledged:
  assumes "alone env" and "returning_ok env" and "uuid_ok env (w_db w)"
    and "distinct (map r_id (d_rows (w_db w)))"
    and "r' \<in> set (d_rows (w_db (snd (worker_goroutine fuel env cfg ws w))))"
    and "r_status r' = StatusPublished"
  shows "(\<exists>r \<in> set (d_rows (w_db w)). r_id r = r_id r' \<and> r_status r = StatusPublished) \<or>
    acknowledged env (r_id r')"
  using assms by (rule published_row_acknowledged)

definition sample_drained :: world where
  "sample_drained = snd (worker_goroutine 9 sample_env sample_cfg [WakeTick, WakeDone] sample_world)"

theorem published_only_if_acknowledged_witness:
  "r_status (d_rows (w_db sample_drained) ! 0) = StatusPublished \<and>
    ((\<exists>r \<in> set (d_rows sample_db). r_id r = r_id (d_rows (w_db sample_drained) ! 0) \<and> r_status r = StatusPublished) \<or>
     acknowledged sample_env (r_id (d_rows (w_db sample_drained) ! 0)))"
proof
  have len: "0 < length (d_rows (w_db sample_drained))"
    unfolding sample_drained_def by code_simp
  show st: "r_status (d_rows (w_db sample_drained) ! 0) = StatusPublished"
    unfolding sample_drained_def by code_simp
  show "(\<exists>r \<in> set (d_rows sample_db). r_id r = r_id (d_rows (w_db sample_drained) ! 0) \<and> r_status r = StatusPublished) \<or>
     acknowledged sample_env (r_id (d_rows (w_db sample_drained) ! 0))"
    using published_only_if_acknowledged [of sample_env sample_world "d_rows (w_db sample_drained) ! 0" 9
        sample_cfg "[WakeTick, WakeDone]"] nth_mem [OF len] st
    by (simp add: sample_drained_def)
qed

text \<open>C6. Settling a batch against any interleaving of other sessions: the relay's own statements
  only change rows that still carry one of the batch's lease tokens, from processing to the
  verdict of the publisher's answer for that row's message.\<close>

theorem settlement_safe:
  assumes "canonical env msgs" and "distinct (map m_ID msgs)"
  shows "interleaved env (settles (verdict_of cfg perr msgs) (attempts_of msgs))
    (w_db w) (w_db (snd (settle_batch env cfg msgs perr w)))"
  by (rule withinD [OF with_others.settle_batch_settles [OF assms(1) subset_refl]])
    (use verdict_of_message [OF assms(2)] in blast)

definition sample_msgs :: "message list" where
  "sample_msgs = scanMessages
     [claim_row ''relay'' 130 ''tt'' (sample_row ''b'' 2), claim_row ''relay'' 130 ''ttt'' (sample_row ''c'' 3)]"

theorem settlement_safe_witness:
  "interleaved sample_env (settles (verdict_of sample_cfg None sample_msgs) (attempts_of sample_msgs))
    sample_db (w_db (snd (settle_batch sample_env sample_cfg sample_msgs None sample_world)))"
  using settlement_safe [of sample_env sample_msgs sample_cfg None sample_world]
  by (simp add: sample_msgs_def scanMessages_def sample_row_def)

text \<open>C5. The fence: once an issued lease token has left its row, no interleaving of statements of any
  number of processes brings it back, so a late completion or renewal of that attempt changes
  nothing, reports nothing to the hooks and returns \<open>ErrLeaseLost\<close> (or the database's refusal of the
  error text).\<close>

theorem stale_attempt_fenced:
  assumes "inj (e_gen env)" and "db_ok (e_gen env) d0" and "stale d0 msgs"
    and "\<forall>m \<in> set msgs. issued (e_gen env) d0 (m_LeaseToken m)"
    and "db_steps (e_gen env) UNIV d0 (w_db w)" and "others_within UNIV env"
    and "msgs \<noteq> []" and "canonical env msgs" and "returning_ok env" and "e_call env (w_tick w) = CallOk"
  shows "let w' = w\<lparr>w_tick := Suc (w_tick w), w_db := e_others env (w_tick w) (w_db w)\<rparr>
    in complete env cfg msgs st cause delay w =
         (Return (Some (if recordable_text env cause then ErrLeaseLost else e_sql_error env)), w') \<and>
      renew env msgs duration w = (Return (Some ErrLeaseLost), w')"
proof -
  have "db_steps (e_gen env) UNIV (w_db w) (e_others env (w_tick w) (w_db w))"
    using assms(6) by (simp add: others_within_def)
  with assms(5) have "db_steps (e_gen env) UNIV d0 (e_others env (w_tick w) (w_db w))"
    by (rule db_steps_trans)
  then have "stale (e_others env (w_tick w) (w_db w)) msgs"
    using stale_steps assms(1-4) by blast
  then show ?thesis
    using stale_complete [OF assms(7-9) _ assms(10)] stale_renew [OF assms(7,8) _ assms(10)]
    by (simp add: Let_def)
qed

definition stale_msgs :: "message list" where
  "stale_msgs = scanMessages [claim_row ''gone'' 50 [] (sample_row ''a'' 1)]"

theorem stale_attempt_fenced_witness:
  "complete sample_env sample_cfg stale_msgs StatusPublished None 0 sample_world =
     (Return (Some ErrLeaseLost), sample_world\<lparr>w_tick := 1\<rparr>)"
proof -
  have "stale sample_db stale_msgs"
    by (simp add: stale_def live_def stale_msgs_def scanMessages_def sample_db_def sample_row_def derefStr_def)
  moreover have "\<forall>m \<in> set stale_msgs. issued sample_gen sample_db (m_LeaseToken m)"
    by (auto simp: stale_msgs_def scanMessages_def derefStr_def issued_def sample_gen_def sample_db_def
        intro!: exI [of _ 0])
  moreover have "stale_msgs \<noteq> []" by (simp add: stale_msgs_def scanMessages_def)
  ultimately show ?thesis
    using stale_attempt_fenced [of sample_env sample_db stale_msgs sample_world sample_cfg StatusPublished None 0 30]
    by (simp add: Let_def)
qed

text \<open>C16. A publisher's abort (or an error carrying a recovered panic) stops the relay and leaves the
  batch claimed: the drain loop returns that very error, and after the publisher's answer no
  statement is run and no outcome is reported.\<close>

theorem abort_leaves_batch_claimed:
  assumes "claim env cfg (w\<lparr>w_tick := Suc (w_tick w)\<rparr>) = (Return (Inr msgs), w1)" and "msgs \<noteq> []"
    and "publish env cfg msgs w1 = (Return (Some e, lease_err), w2)"
    and "has_as is_abort e \<or> has_as is_panic e" and "\<not> e_done env (w_tick w)"
  shows "drain (Suc fuel) env cfg w = (Return (Done (Some e)), w2) \<and>
    outcomes_of (w_log w2) = outcomes_of (w_log w)"
proof
  have "errors_as is_fatal_error (FatalError e) = Some (FatalError e)"
    by (simp add: errors_as.simps)
  then show "drain (Suc fuel) env cfg w = (Return (Done (Some e)), w2)"
    using abort_batch [OF assms(1-4)] assms(5) by (simp add: bind_go_def ret_go_run batch_failed_def)
  show "outcomes_of (w_log w2) = outcomes_of (w_log w)"
    using publish_no_outcome [OF assms(3)] exec_call_InrD [OF assms(1) [unfolded claim_def]] by simp
qed

definition abort_env :: env where
  "abort_env = sample_env\<lparr>e_publish := (\<lambda>_ _. Return (Abort (Some (Plain ''stop''))))\<rparr>"

definition abort_msgs :: "message list" where
  "abort_msgs = (case fst (claim abort_env sample_cfg (sample_world\<lparr>w_tick := 1\<rparr>)) of
     Return (Inr ms) \<Rightarrow> ms | _ \<Rightarrow> [])"

definition abort_world1 :: world where
  "abort_world1 = snd (claim abort_env sample_cfg (sample_world\<lparr>w_tick := 1\<rparr>))"

definition abort_world2 :: world where
  "abort_world2 = snd (publish abort_env sample_cfg abort_msgs abort_world1)"

theorem abort_leaves_batch_claimed_witness:
  "length abort_msgs = 2 \<and>
    drain 1 abort_env sample_cfg sample_world =
      (Return (Done (Some (AbortError (Some (Plain ''stop''))))), abort_world2) \<and>
    outcomes_of (w_log abort_world2) = []"
proof -
  have "claim abort_env sample_cfg (sample_world\<lparr>w_tick := Suc (w_tick sample_world)\<rparr>) =
      (Return (Inr abort_msgs), abort_world1)"
    by (rule prod_eqI) (code_simp, simp add: abort_world1_def)
  moreover have len: "length abort_msgs = 2" by code_simp
  moreover have "publish abort_env sample_cfg abort_msgs abort_world1 =
      (Return (Some (AbortError (Some (Plain ''stop''))), None), abort_world2)"
    by (rule prod_eqI) (code_simp, simp add: abort_world2_def)
  moreover have "has_as is_abort (AbortError (Some (Plain ''stop'')))" by code_simp
  moreover have "abort_msgs \<noteq> []" using len by auto
  ultimately show ?thesis
    using abort_leaves_batch_claimed [of abort_env sample_cfg sample_world abort_msgs abort_world1
        "AbortError (Some (Plain ''stop''))" None abort_world2 0]
    by (simp add: abort_env_def) (simp add: sample_world_def)
qed

text \<open>C17. A renewal that fails while the publisher runs cancels the publisher, and nothing of the batch
  is settled, so the lease runs out and the rows are claimed again. The batch ends with the
  renewal error, unless the publisher's own error, which the cancellation may have caused, is
  judged fatal: that judgement is made first, by the caller's classifier too.\<close>

theorem renewal_failure_settles_nothing:
  assumes "claim env cfg w = (Return (Inr msgs), w1)" and "msgs \<noteq> []"
    and "publish env cfg msgs w1 = (Return (perr, Some le), w2)"
    and "(case perr of None \<Rightarrow> Return False | Some e \<Rightarrow> fst (isFatal env cfg e w2)) = Return fatal"
  shows "\<exists>w'. processBatch env cfg w =
      (Return (length msgs, Some (if fatal then FatalError (the perr) else le)), w') \<and>
    w_db w' = w_db w2 \<and> outcomes_of (w_log w') = outcomes_of (w_log w)"
  using lease_lost_batch [OF assms] publish_no_outcome [OF assms(3)]
    exec_call_InrD [OF assms(1) [unfolded claim_def]] by auto

definition lost_env :: env where
  "lost_env = sample_env\<lparr>e_beats := (\<lambda>_. [BeatTick False]),
     e_call := (\<lambda>n. if n = 0 then CallOk else CallErr False (Plain ''gone''))\<rparr>"

definition lost_msgs :: "message list" where
  "lost_msgs = (case fst (claim lost_env sample_cfg sample_world) of Return (Inr ms) \<Rightarrow> ms | _ \<Rightarrow> [])"

definition lost_world1 :: world where
  "lost_world1 = snd (claim lost_env sample_cfg sample_world)"

definition lost_world2 :: world where
  "lost_world2 = snd (publish lost_env sample_cfg lost_msgs lost_world1)"

theorem renewal_failure_settles_nothing_witness:
  "\<exists>w'. processBatch lost_env sample_cfg sample_world =
      (Return (length lost_msgs, Some (renew_error (Plain ''gone''))), w') \<and>
    w_db w' = w_db lost_world2 \<and> outcomes_of (w_log w') = []"
proof -
  have "claim lost_env sample_cfg sample_world = (Return (Inr lost_msgs), lost_world1)"
    by (rule prod_eqI) (code_simp, simp add: lost_world1_def)
  moreover have "length lost_msgs = 2" by code_simp
  then have "lost_msgs \<noteq> []" by auto
  moreover have "publish lost_env sample_cfg lost_msgs lost_world1 =
      (Return (None, Some (renew_error (Plain ''gone''))), lost_world2)"
    by (rule prod_eqI) (code_simp, simp add: lost_world2_def)
  ultimately show ?thesis
    using renewal_failure_settles_nothing [of lost_env sample_cfg sample_world lost_msgs lost_world1
        None "renew_error (Plain ''gone'')" lost_world2 False]
    by (simp add: sample_world_def)
qed

text \<open>C18. An outcome the database cannot record strands its message: when the text of the error a message is
  to be settled with (the batch's error, or its own in a \<open>PerMessage\<close>) is none PostgreSQL stores, the completion
  itself fails, whatever the outcome is and however many attempts were made: a permanent error does not make
  the row dead, a discard does not discard it, and the attempt limit never dead-letters it. The row stays
  claimed and the batch fails. With an error for the whole batch nothing is completed and no hook is
  called; in a \<open>PerMessage\<close> the other messages are settled.\<close>

theorem unrecordable_error_strands_batch:
  assumes "claim env cfg w = (Return (Inr msgs), w1)"
    and "publish env cfg msgs w1 = (Return (Some e, lease_err), w2)"
    and "fst (isFatal env cfg e w2) = Return False"
    and "alone env" and "returning_ok env" and "uuid_ok env (w_db w)" and "distinct (map r_id (d_rows (w_db w)))"
    and "m \<in> set msgs" and "own_outcome (Some e) m = Some x" and "\<not> recordable_text env (Some x)"
  shows "\<exists>r w'. processBatch env cfg w = (r, w') \<and> (\<forall>n. r \<noteq> Return (n, None)) \<and>
    (\<exists>row \<in> set (d_rows (w_db w')). r_id row = m_ID m \<and> r_status row = StatusProcessing \<and> row \<in> set (d_rows (w_db w2))) \<and>
    (errors_as is_batch e = None \<longrightarrow> w_db w' = w_db w2 \<and> outcomes_of (w_log w') = outcomes_of (w_log w))"
proof -
  have judge: "isFatal env cfg e w2 = (Return False, snd (isFatal env cfg e w2))"
    using assms(3) by (metis prod.collapse)
  note held = claimed_row_held [OF assms(1,2,8,4-7)]
  from unrecordable_batch [OF assms(1,2) judge assms(4) held(2,3) assms(8-10)] held(1) show ?thesis
    using publish_no_outcome [OF assms(2)] exec_call_InrD [OF assms(1) [unfolded claim_def]]
    unfolding spares_def by fastforce
qed

text \<open>A database that stores no zero byte, and a publisher that took \<open>a\<close> and rejects \<open>b\<close> with a permanent error
  that quotes one.\<close>

definition binary_error :: goerr where
  "binary_error = BatchError
     [(''a'', None), (''b'', Some (PermanentError (Some (Plain (''broker said '' @ [CHR 0x00])))))] None"

definition binary_env :: env where
  "binary_env = sample_env\<lparr>e_text_ok := (\<lambda>s. CHR 0x00 \<notin> set s), e_publish := (\<lambda>_ _. Return (Some binary_error))\<rparr>"

definition binary_msgs :: "message list" where
  "binary_msgs = (case fst (claim binary_env sample_cfg sample_world) of Return (Inr ms) \<Rightarrow> ms | _ \<Rightarrow> [])"

definition binary_world1 :: world where
  "binary_world1 = snd (claim binary_env sample_cfg sample_world)"

definition binary_world2 :: world where
  "binary_world2 = snd (publish binary_env sample_cfg binary_msgs binary_world1)"

theorem unrecordable_error_strands_batch_witness:
  "\<exists>r w'. processBatch binary_env sample_cfg sample_world = (r, w') \<and> (\<forall>n. r \<noteq> Return (n, None)) \<and>
    (\<exists>row \<in> set (d_rows (w_db w')). r_id row = ''b'' \<and> r_status row = StatusProcessing \<and> row \<in> set (d_rows (w_db binary_world2)))"
proof -
  have run: "claim binary_env sample_cfg sample_world = (Return (Inr binary_msgs), binary_world1)"
    by (rule prod_eqI) (code_simp, simp add: binary_world1_def)
  have pub: "publish binary_env sample_cfg binary_msgs binary_world1 =
      (Return (Some binary_error, None), binary_world2)"
    by (rule prod_eqI) (code_simp, simp add: binary_world2_def)
  have calm: "fst (isFatal binary_env sample_cfg binary_error binary_world2) = Return False" by code_simp
  have ok: "alone binary_env" "returning_ok binary_env" "uuid_ok binary_env sample_db"
    using sample_alone sample_returning sample_uuid [of sample_db]
    by (simp_all add: binary_env_def alone_def returning_ok_def uuid_ok_def)
  have m: "binary_msgs ! 1 \<in> set binary_msgs" "m_ID (binary_msgs ! 1) = ''b''"
    by (rule nth_mem, code_simp) code_simp
  have own: "own_outcome (Some binary_error) (binary_msgs ! 1) =
      Some (PermanentError (Some (Plain (''broker said '' @ [CHR 0x00]))))" by code_simp
  have "\<not> recordable_text binary_env (Some (PermanentError (Some (Plain (''broker said '' @ [CHR 0x00])))))"
    by code_simp
  from unrecordable_error_strands_batch [OF run pub calm ok(1,2) _ _ m(1) own this, unfolded m(2)]
  show ?thesis using ok(3) sample_db_ids unfolding sample_world_sel by blast
qed

text \<open>C19. The hooks hear of exactly the rows the completion updated, once each and with the status
  written (a discard only if the hooks implement \<open>DiscardHooks\<close>); the result is \<open>ErrLeaseLost\<close>
  precisely when fewer or more rows than messages were updated.\<close>

theorem hooks_told_what_was_written:
  assumes "calm_hooks env cfg" and "st \<noteq> StatusProcessing"
    and "Store_finish env msgs st (case cause of None \<Rightarrow> '''' | Some e \<Rightarrow> error_text e) delay
      (s_ClearPayloadOnComplete cfg) w = (Return (Inr completed), w1)"
  shows "\<exists>w'. complete env cfg msgs st cause delay w =
      (Return (if length completed = length msgs then None else Some ErrLeaseLost), w') \<and>
    w_db w' = w_db w1 \<and> outcomes_of (w_log w') = outcomes_of (w_log w) @ told cfg st completed"
  using assms by (rule complete_told)

theorem hooks_told_what_was_written_witness:
  "\<exists>w'. complete abort_env sample_cfg abort_msgs StatusPublished None 0 abort_world1 = (Return None, w') \<and>
    outcomes_of (w_log w') = outcomes_of (w_log abort_world1) @ told sample_cfg StatusPublished
      (projr (case fst (Store_finish abort_env abort_msgs StatusPublished '''' 0 False abort_world1) of Return r \<Rightarrow> r))"
proof -
  let ?run = "Store_finish abort_env abort_msgs StatusPublished '''' 0 False abort_world1"
  let ?done = "projr (case fst ?run of Return r \<Rightarrow> r)"
  have "?run = (Return (Inr ?done), snd ?run)"
    by (rule prod_eqI) (code_simp, simp)
  moreover have "length ?done = length abort_msgs" by code_simp
  moreover have "\<not> s_ClearPayloadOnComplete sample_cfg" by code_simp
  moreover have "calm_hooks abort_env sample_cfg"
    by (simp add: calm_hooks_def abort_env_def sample_cfg_def)
  ultimately show ?thesis
    using hooks_told_what_was_written [of abort_env sample_cfg StatusPublished abort_msgs None 0
        abort_world1 ?done "snd ?run"]
    by auto
qed

section \<open>The database as a state machine\<close>

text \<open>Each operation is a run of the machine's steps.\<close>

lemma operations_steps:
  assumes "others_within UNIV env"
  shows "db_steps (e_gen env) UNIV (w_db w) (w_db (snd (worker_goroutine fuel env cfg ws w))) \<and>
    db_steps (e_gen env) UNIV (w_db w) (w_db (snd (Cleaner_Run fuel env cfg evs w))) \<and>
    db_steps (e_gen env) UNIV (w_db w) (w_db (snd (Enqueue env ob m w))) \<and>
    db_steps (e_gen env) UNIV (w_db w) (w_db (snd (EnqueueBatch env ob ms w))) \<and>
    db_steps (e_gen env) UNIV (w_db w) (w_db (snd (Requeue env ob ident w)))"
proof -
  note run = steps_run [OF _ subset_UNIV assms, of _ _ w]
  have "db_steps (e_gen env) UNIV (w_db w) (w_db (snd (Enqueue env ob m w)))"
    using run [OF Store_Enqueue_within, of "ob_store ob" "[m]"]
    by (auto simp: Enqueue_def ret_go_run split: option.splits)
  moreover have "db_steps (e_gen env) UNIV (w_db w) (w_db (snd (EnqueueBatch env ob ms w)))"
    using run [OF Store_Enqueue_within, of "ob_store ob" ms]
    by (auto simp: EnqueueBatch_def ret_go_run split: option.splits)
  ultimately show ?thesis
    using run [OF relay_steps.worker_goroutine_within] run [OF cleaner_steps.Cleaner_Run_within]
      run [OF Store_Requeue_within]
    unfolding Requeue_def by blast
qed

text \<open>C8. Refinement: whatever the environment answers, a worker, the cleaner, an enqueue (of one
  message or a batch) and a replay move the database only along steps of the abstract machine,
  interleaved with the steps of other sessions; and these implement the ledger: there is a run of
  its acts (accept, lease under a new token, answer the current lease, replay, forget) from the
  ledger the database was to the one it has become, in which no lease token is answered twice.\<close>

theorem operations_implement_ledger:
  assumes "others_within UNIV env" and "inj (e_gen env)" and "db_ok (e_gen env) (w_db w)"
    and "w' = snd (worker_goroutine fuel env cfg ws w) \<or> w' = snd (Cleaner_Run fuel env cfg evs w) \<or>
      w' = snd (Enqueue env ob m w) \<or> w' = snd (EnqueueBatch env ob ms w) \<or> w' = snd (Requeue env ob ident w)"
  shows "db_steps (e_gen env) UNIV (w_db w) (w_db w') \<and>
    (\<exists>as. ledger_run as (ledger_of (e_gen env) (w_db w)) (ledger_of (e_gen env) (w_db w')) \<and>
      (\<forall>t. length (filter (answers t) as) \<le> 1))"
proof -
  have "db_steps (e_gen env) UNIV (w_db w) (w_db w')"
    using assms(4) operations_steps [OF assms(1)] by metis
  then show ?thesis using db_steps_acts [OF _ assms(2,3)] by blast
qed

theorem operations_implement_ledger_witness:
  "\<exists>as. ledger_run as (ledger_of sample_gen sample_db) (ledger_of sample_gen (w_db sample_drained)) \<and>
    (\<forall>t. length (filter (answers t) as) \<le> 1)"
  using operations_implement_ledger [of sample_env sample_world sample_drained 9 sample_cfg "[WakeTick, WakeDone]"]
  by (simp add: sample_drained_def)

section \<open>The texts of the statements\<close>

text \<open>C13. The statements the store sends mean what the model does: evaluated from their syntax trees, by
  SQL's three-valued logic and the order of \<open>ORDER BY\<close>, with the arguments each method binds, the insert,
  the claim, the renewal, the completion, the replay and the cleanup have on every table the effect
  and the result of the functions the rest of the development is about, rejected arguments included.
  The database accepts the five words for a status, and uuids, as texts; the rows returned are updated
  rows, and the headers in the table are values of their column.\<close>

theorem sql_trees_mean:
  assumes "e_text_ok env (status_text status)" and "uuid_texts_ok env" and "readable env (d_rows d)"
  shows "send_insert env (insert_types (length ms)) insert_columns (insert_tree (length ms)) (enqueue_args ms) n d =
      insert_stmt env ms n d \<and>
    query_sql env claim_types (claim_tree (s_Ordered cfg)) (claim_args cfg) n d = claim_stmt env cfg n d \<and>
    exec_sql env renew_types renew_tree (renew_args msgs duration) n d = renew_stmt env msgs duration n d \<and>
    query_sql env finish_types finish_tree (finish_args msgs status reason delay clear) n d =
      finish_stmt env msgs status reason delay clear n d \<and>
    exec_sql env requeue_types requeue_tree (requeue_args ident) n d = requeue_stmt env ident n d \<and>
    exec_sql env cleanup_types cleanup_tree (cleanup_args cfg) n d = cleanup_stmt env cfg n d"
  using insert_means [OF assms(2)] claim_means [OF assms(3)] renew_means finish_means [OF assms(1,3)]
    requeue_means cleanup_means
  by simp

definition sent_message :: message where
  "sent_message = scan_row (sample_row ''z'' 9)"

theorem sql_trees_mean_witness:
  "send_insert sample_env (insert_types 1) insert_columns (insert_tree 1) (enqueue_args [sent_message]) 1 sample_db =
     insert_stmt sample_env [sent_message] 1 sample_db \<and>
   query_sql sample_env claim_types (claim_tree False) (claim_args sample_cfg) 1 sample_db =
     claim_stmt sample_env sample_cfg 1 sample_db \<and>
   query_sql sample_env finish_types finish_tree (finish_args [] StatusDead ''bad'' 0 True) 1 sample_db =
     finish_stmt sample_env [] StatusDead ''bad'' 0 True 1 sample_db"
proof -
  have "\<not> s_Ordered sample_cfg" by code_simp
  moreover have "uuid_texts_ok sample_env" by (simp add: uuid_texts_ok_def)
  moreover have "readable sample_env (d_rows sample_db)"
    by (simp add: readable_def sample_db_def sample_row_def jsonb_ok_def)
  ultimately show ?thesis
    using sql_trees_mean [of sample_env StatusDead sample_db "[sent_message]" 1 sample_cfg "[]" 0 "''bad''" 0 True]
    by simp
qed

text \<open>C7. Invariant: ids and sequence numbers stay distinct, the columns of every row fit its status
  (a lock, a token and an attempt while processing, none of them otherwise; terminal rows dated),
  every token in the table was issued, no two rows share one, and the headers are values of their column.\<close>

theorem machine_invariant:
  assumes "inj gen" and "db_ok gen d" and "db_steps gen L d d'"
  shows "db_ok gen d'"
  using db_steps_ok assms by blast

theorem machine_invariant_witness: "db_ok sample_gen (w_db sample_drained)"
proof (rule machine_invariant)
  show "db_steps sample_gen relay_labels sample_db (w_db sample_drained)"
    using steps_run [OF relay_steps.worker_goroutine_within subset_refl, of sample_env sample_world]
    by (simp add: sample_drained_def)
qed simp_all

text \<open>C15. Lifecycle: in one step a row keeps its origin and its status follows the state diagram
  (pending to processing, processing to anything, dead to pending, nothing else); it disappears
  only by cleanup and only in a terminal state, and published and discarded rows never change.\<close>

theorem row_lifecycle:
  assumes "db_step gen l d d'" and "distinct (map r_id (d_rows d))" and "r \<in> set (d_rows d)"
  shows "(\<exists>r' \<in> set (d_rows d'). same_origin r r' \<and> follows (r_status r) (r_status r') \<and>
      (r_status r = StatusPublished \<or> r_status r = StatusDiscarded \<longrightarrow> r' = r)) \<or>
    (l = LCleanup \<and> terminal (r_status r))"
  using db_step_forward [OF assms] lifecycle_origin lifecycle_follows lifecycle_settled by metis

theorem row_lifecycle_witness:
  "\<exists>r' \<in> set (d_rows (snd (claim_stmt sample_env sample_cfg 0 sample_db))).
     same_origin (sample_row ''c'' 3) r' \<and> follows StatusPending (r_status r')"
proof -
  have "sample_row ''c'' 3 \<in> set (d_rows sample_db)" by (simp add: sample_db_def)
  moreover have "db_step (e_gen sample_env) LClaim sample_db (snd (claim_stmt sample_env sample_cfg 0 sample_db))"
    by (rule claim_stmt_step) simp
  ultimately have "\<exists>r' \<in> set (d_rows (snd (claim_stmt sample_env sample_cfg 0 sample_db))).
      same_origin (sample_row ''c'' 3) r' \<and> follows (r_status (sample_row ''c'' 3)) (r_status r')"
    using row_lifecycle [OF _ sample_db_ids] by blast
  then show ?thesis by (simp add: sample_row_def)
qed

text \<open>Completion consumes the attempt: a row that a completion has updated carries no token any
  more, so a second completion with the same keys updates nothing.\<close>

theorem completion_at_most_once:
  assumes "sql_finish keys st reason clk nxt clear (d_rows d) = (tbl, out)"
    and "db_ok gen d"
    and "\<forall>i t. (i, t) \<in> set keys \<longrightarrow> (\<exists>m \<in> set out. r_id m = i)"
  shows "sql_finish keys st' reason' clk' nxt' clear' tbl = (tbl, [])"
proof -
  have "\<forall>key \<in> set keys. \<not> live (d\<lparr>d_rows := tbl\<rparr>) key"
    using finish_consumes [OF assms(2,1)] assms(3) by fastforce
  from finish_not_live [OF this] show ?thesis by simp
qed

theorem completion_at_most_once_witness:
  "let once = fst (sql_finish [(''a'', ''t'')] StatusPublished None 20 20 False (d_rows sample_db))
   in once \<noteq> d_rows sample_db \<and> sql_finish [(''a'', ''t'')] StatusDead None 30 30 False once = (once, [])"
proof -
  let ?run = "sql_finish [(''a'', ''t'')] StatusPublished None 20 20 False (d_rows sample_db)"
  have "fst ?run \<noteq> d_rows sample_db" by code_simp
  moreover have "map r_id (snd ?run) = [''a'']" by code_simp
  then obtain m where "m \<in> set (snd ?run)" "r_id m = ''a''" by (auto simp: map_eq_Cons_conv)
  then have "\<forall>i t. (i, t) \<in> set [(''a'', ''t'')] \<longrightarrow> (\<exists>m \<in> set (snd ?run). r_id m = i)" by auto
  ultimately show ?thesis
    using completion_at_most_once [of "[(''a'', ''t'')]" StatusPublished None 20 20 False sample_db "fst ?run"
        "snd ?run" sample_gen StatusDead None 30 30 False]
    by (simp add: Let_def)
qed

section \<open>Claiming\<close>

text \<open>C11. A claim returns at most a batch of rows, each of which was due (pending or with an expired
  lease, its time reached), was not locked by another transaction and got a token never issued
  before; nothing else changes, and an eligible row is only left out for a full batch of rows
  that come before it in creation order.\<close>

theorem claim_selects:
  assumes "distinct (map r_id tbl)"
    and "sql_claim gen k now locked ordered inst until batch tbl = (tbl', out, k')"
  shows "length out \<le> nat batch \<and>
    (\<forall>m \<in> set out. \<exists>r \<in> set tbl. \<exists>j \<ge> k. claimable now r \<and> \<not> locked (r_id r) \<and>
       m = claim_row inst until (gen j) r) \<and>
    (\<forall>r \<in> set tbl'. r \<in> set out \<or> r \<in> set tbl) \<and>
    (\<forall>r \<in> set tbl. claimable now r \<and> \<not> locked (r_id r) \<and> (ordered \<longrightarrow> \<not> held_back tbl r) \<longrightarrow>
       r_id r \<in> r_id ` set out \<or> length out = nat batch \<and> (\<forall>m \<in> set out. row_order m \<le> row_order r))"
proof (intro conjI ballI impI)
  let ?p = "claim_pick ordered batch now locked tbl"
  have len: "length out = length ?p" by (rule sql_claim_length [OF assms])
  then show "length out \<le> nat batch" using claim_pick_length by metis
  have orig: "\<exists>r \<in> set ?p. \<exists>j \<ge> k. m = claim_row inst until (gen j) r" if "m \<in> set out" for m
    by (rule sql_claim_out [OF assms that]) blast
  fix m assume "m \<in> set out"
  then show "\<exists>r \<in> set tbl. \<exists>j \<ge> k. claimable now r \<and> \<not> locked (r_id r) \<and> m = claim_row inst until (gen j) r"
    using orig claim_pickD(1-3) by meson
next
  fix r assume "r \<in> set tbl'"
  then show "r \<in> set out \<or> r \<in> set tbl"
    by (rule sql_claim_rows [OF assms]) (auto split: if_splits)
next
  let ?p = "claim_pick ordered batch now locked tbl"
  fix r assume r: "r \<in> set tbl" and el: "claimable now r \<and> \<not> locked (r_id r) \<and> (ordered \<longrightarrow> \<not> held_back tbl r)"
  have ids: "r_id ` set out = r_id ` set ?p"
    using mset_set_eq [OF sql_claim_out_ids [OF assms]] by simp
  show "r_id r \<in> r_id ` set out \<or> length out = nat batch \<and> (\<forall>m \<in> set out. row_order m \<le> row_order r)"
  proof (cases "r \<in> set ?p")
    case False
    have cand: "r \<in> set (claim_candidates ordered now tbl)" using r el by (simp add: claim_candidates_def)
    note out = claim_pick_left_out [OF cand _ False]
    have "row_order m \<le> row_order r" if "m \<in> set out" for m
    proof (rule sql_claim_out [OF assms that])
      fix p j assume "p \<in> set ?p" "m = claim_row inst until (gen j) p"
      then show ?thesis using out(2) el by (simp add: row_order_def)
    qed
    then show ?thesis using out(1) el sql_claim_length [OF assms] by simp
  qed (use ids in blast)
qed

theorem claim_selects_witness:
  "let (tbl', out, k') = sql_claim sample_gen 2 100 (\<lambda>_. False) False ''relay'' 130 2 (d_rows sample_db)
   in length out = 2 \<and> (\<forall>m \<in> set out. \<exists>r \<in> set (d_rows sample_db). \<exists>j \<ge> 2. claimable 100 r \<and>
     m = claim_row ''relay'' 130 (sample_gen j) r)"
proof -
  let ?run = "sql_claim sample_gen 2 100 (\<lambda>_. False) False ''relay'' 130 2 (d_rows sample_db)"
  have run: "?run = (fst ?run, fst (snd ?run), snd (snd ?run))" by simp
  have "length (fst (snd ?run)) = 2" by code_simp
  then show ?thesis
    using claim_selects [OF sample_db_ids run] by (simp add: case_prod_beta)
qed

text \<open>C12. Ordered mode: for each partition key a claim takes at most one row, and only when every
  earlier row of that key (by creation time, then insertion order) is published or discarded.\<close>

theorem ordered_claim_takes_heads:
  assumes "distinct (map r_id tbl)" and "distinct (map r_seq tbl)"
    and "sql_claim gen k now locked True inst until batch tbl = (tbl', out, k')"
    and "m \<in> set out" and "r_partition_key m = Some key"
  shows "(\<forall>e \<in> set tbl. r_partition_key e = Some key \<and> row_order e < row_order m \<longrightarrow>
      r_status e = StatusPublished \<or> r_status e = StatusDiscarded) \<and>
    (\<forall>m' \<in> set out. r_partition_key m' = Some key \<longrightarrow> r_id m' = r_id m)"
proof -
  let ?p = "claim_pick True batch now locked tbl"
  have orig: "\<exists>p \<in> set ?p. r_id x = r_id p \<and> r_partition_key x = r_partition_key p \<and> row_order x = row_order p"
    if x: "x \<in> set out" for x
    by (rule sql_claim_out [OF assms(1,3) x]) (auto simp: row_order_def)
  obtain p where p: "p \<in> set ?p" "r_id m = r_id p" "r_partition_key p = Some key" "row_order m = row_order p"
    using orig [OF assms(4)] assms(5) by auto
  have "r_id m' = r_id m" if m': "m' \<in> set out" "r_partition_key m' = Some key" for m'
  proof -
    obtain q where q: "q \<in> set ?p" "r_id m' = r_id q" "r_partition_key q = Some key"
      using orig [OF m'(1)] m'(2) by auto
    have "q = p" using ordered_pick_one_per_key [OF assms(2) q(1) p(1) q(3) p(3)] .
    then show ?thesis using p(2) q(2) by simp
  qed
  moreover have "r_status e = StatusPublished \<or> r_status e = StatusDiscarded"
    if "e \<in> set tbl" "r_partition_key e = Some key" "row_order e < row_order m" for e
    using ordered_pick_head [OF p(1) that(1) p(3) that(2)] that(3) p(4) by simp
  ultimately show ?thesis by blast
qed

theorem ordered_claim_takes_heads_witness:
  "let out = fst (snd (sql_claim sample_gen 2 100 (\<lambda>_. False) True ''relay'' 130 2 (d_rows sample_db)))
   in length out = 1 \<and> (\<forall>m' \<in> set out. r_partition_key m' = Some ''k'' \<longrightarrow> r_id m' = r_id (out ! 0))"
proof -
  let ?run = "sql_claim sample_gen 2 100 (\<lambda>_. False) True ''relay'' 130 2 (d_rows sample_db)"
  have run: "?run = (fst ?run, fst (snd ?run), snd (snd ?run))" by simp
  have len: "length (fst (snd ?run)) = 1" by code_simp
  have "0 < length (fst (snd ?run))" by (simp only: len)
  then have mem: "fst (snd ?run) ! 0 \<in> set (fst (snd ?run))" by (rule nth_mem)
  have key: "r_partition_key (fst (snd ?run) ! 0) = Some ''k''" by code_simp
  have seqs: "distinct (map r_seq (d_rows sample_db))" by code_simp
  show ?thesis
    unfolding Let_def
    using len ordered_claim_takes_heads [OF sample_db_ids seqs run mem key] by blast
qed

section \<open>Enqueue and replay\<close>

text \<open>C10. Ordered mode as a whole: when all relays claim in ordered mode and transactions commit in the
  order they began, then after any run of a worker or of the cleaner, against any interleaving
  with the others, a row that has left pending has only published or discarded rows of its key
  before it; so no two rows of a key are ever in flight together.\<close>

theorem ordered_keys_in_turn:
  assumes "inj (e_gen env)" and "s_Ordered cfg" and "others_in_order env" and "turn_ok (e_gen env) (w_db w)"
    and "d' = w_db (snd (worker_goroutine fuel env cfg ws w)) \<or> d' = w_db (snd (Cleaner_Run fuel env cfg evs w))"
    and "a \<in> set (d_rows d')" and "b \<in> set (d_rows d')"
    and "r_partition_key a = Some key" and "r_partition_key b = Some key"
  shows "(row_order a < row_order b \<and> r_status b \<noteq> StatusPending \<longrightarrow>
      r_status a = StatusPublished \<or> r_status a = StatusDiscarded) \<and>
    (r_status a = StatusProcessing \<and> r_status b = StatusProcessing \<longrightarrow> a = b)"
proof -
  have ok: "turn_ok (e_gen env) d'"
    using assms(5) withinD [OF relay_turn.worker_goroutine_within [of env cfg fuel ws], of w]
      withinD [OF cleaner_turn.Cleaner_Run_within [of env cfg fuel evs], of w] assms(1-4)
    by (auto simp: turn_frame_def)
  then have "holds_back a b \<Longrightarrow> r_status b = StatusPending"
    using assms(6,7) by (simp add: turn_ok_def in_turn_def)
  then show ?thesis
    using in_turn_one_in_flight [OF ok assms(6,7) _ _ assms(8,9)] assms(8,9)
    unfolding holds_back_def by auto
qed

definition ordered_cfg :: settings where
  "ordered_cfg = sample_cfg\<lparr>s_Ordered := True\<rparr>"

definition ordered_aborted :: world where
  "ordered_aborted = snd (worker_goroutine 9 abort_env ordered_cfg [WakeTick] sample_world)"

theorem ordered_keys_in_turn_witness:
  "map r_id (d_rows (w_db ordered_aborted)) = [''a'', ''b'', ''c''] \<and>
    r_status (d_rows (w_db ordered_aborted) ! 0) = StatusProcessing \<and>
    r_status (d_rows (w_db ordered_aborted) ! 1) = StatusPending"
proof (intro conjI)
  let ?rows = "d_rows (w_db ordered_aborted)"
  show ids: "map r_id ?rows = [''a'', ''b'', ''c'']" unfolding ordered_aborted_def by code_simp
  show st: "r_status (?rows ! 0) = StatusProcessing" unfolding ordered_aborted_def by code_simp
  have len: "length ?rows = 3" using arg_cong [OF ids, of length] by simp
  have keys: "map r_partition_key ?rows = [Some ''k'', Some ''k'', Some ''k'']"
    unfolding ordered_aborted_def by code_simp
  have "map r_partition_key ?rows ! 0 = Some ''k''" "map r_partition_key ?rows ! 1 = Some ''k''"
    unfolding keys by simp_all
  then have key: "r_partition_key (?rows ! 0) = Some ''k''" "r_partition_key (?rows ! 1) = Some ''k''"
    using len by simp_all
  have order: "row_order (?rows ! 0) < row_order (?rows ! 1)" unfolding ordered_aborted_def by code_simp
  have "in_turn (d_rows sample_db)" unfolding in_turn_def by code_simp
  then have "turn_ok sample_gen sample_db" by (simp add: turn_ok_def)
  moreover have "others_in_order abort_env" "inj (e_gen abort_env)" "e_gen abort_env = sample_gen" "s_Ordered ordered_cfg"
    by (simp_all add: others_in_order_def abort_env_def ordered_cfg_def)
  ultimately show "r_status (?rows ! 1) = StatusPending"
    using ordered_keys_in_turn [of abort_env ordered_cfg sample_world "w_db ordered_aborted" 9 "[WakeTick]" "[]"
        "?rows ! 0" "?rows ! 1" "''k''"] key order st len
    by (auto simp: ordered_aborted_def)
qed

text \<open>C31. The assumption on commits is needed: the order is that of the beginning of transactions, so a
  row whose transaction began before that of the row in flight but committed only after the
  claim is claimed beside it, in ordered mode too: two rows of one key are in flight, and the
  later one was handed out first.\<close>

theorem late_commit_overtakes:
  fixes v :: new_row
  assumes "d_rows d = [r]" and "r_status r = StatusProcessing" and "r_locked_until r = Some u" and "now \<le> u"
    and "v_id v = Some i" and "i \<noteq> r_id r" and "t < r_created_at r" and "t \<le> now"
    and "v_partition_key v = r_partition_key r" and "jsonb_ok (v_headers v)"
  shows "\<exists>d1 d2 late. db_step gen LInsert d d1 \<and> ordered_step gen LClaim d1 d2 \<and> d_rows d2 = [r, late] \<and>
    r_partition_key late = r_partition_key r \<and> r_status late = StatusProcessing \<and> row_order late < row_order r"
  using late_commit_claim [OF assms(1-8,10)] assms(9) by metis

definition in_flight_row :: row where
  "in_flight_row = claim_row ''relay'' 90 ''t'' (sample_row ''a'' 5)"

definition late_values :: new_row where
  "late_values = \<lparr>v_id = Some ''b'', v_topic = ''orders'', v_partition_key = Some ''k'', v_payload = ''p'',
     v_headers = [], v_content_type = None, v_message_type = None, v_max_attempts = None\<rparr>"

theorem late_commit_overtakes_witness:
  "\<exists>d1 d2 late. db_step sample_gen LInsert (sample_db\<lparr>d_rows := [in_flight_row]\<rparr>) d1 \<and>
    ordered_step sample_gen LClaim d1 d2 \<and> d_rows d2 = [in_flight_row, late] \<and>
    r_partition_key late = Some ''k'' \<and> r_status late = StatusProcessing \<and>
    row_order late < row_order in_flight_row"
  using late_commit_overtakes [of "sample_db\<lparr>d_rows := [in_flight_row]\<rparr>" in_flight_row 90 20 late_values "''b''" 3 sample_gen]
  by (simp add: in_flight_row_def late_values_def sample_row_def jsonb_ok_def)

text \<open>The insert's positional arguments are read back, group by group, as the messages they were
  built from, for any number of messages, and its placeholders are numbered without gap from 1
  to eight times that number.\<close>

lemma enqueue_arguments_round_trip:
  "decode_groups uuid_in (enqueue_args msgs) (length msgs) = those (map (message_row uuid_in) msgs) \<and>
   concat (map group_params [0..<length msgs]) = [1..<Suc (length (enqueue_args msgs))]"
proof -
  have "length (enqueue_args msgs) = 8 * length msgs"
    by (induction msgs) (simp_all add: enqueue_args_def message_args_def)
  then show ?thesis using decode_groups_enqueue group_params_consecutive by metis
qed

text \<open>C20. From enqueue to delivery: a valid message whose id is not stored yet becomes one new row,
  and whenever a relay claims that row the publisher receives the enqueued topic, key, payload,
  content type, message type and attempt limit, with the first attempt counted, and the headers as
  they survive JSON (the same map when their texts are valid UTF-8).\<close>

theorem enqueued_is_delivered:
  assumes "Validate m = None" and "answered env (w_tick w)" and "st_enq (ob_store ob) \<noteq> None"
    and "enqueue_id env (w_db w) m = Some i" and "i \<notin> r_id ` set (d_rows (w_db w))" and "storable env m"
  shows "\<exists>w' r. Enqueue env ob m w = (Return None, w') \<and> d_rows (w_db w') = d_rows (w_db w) @ [r] \<and>
    r_status r = StatusPending \<and>
    (\<forall>inst until tok. let m' = scan_row (claim_row inst until tok r) in
      m_ID m' = i \<and> m_Topic m' = m_Topic m \<and> m_PartitionKey m' = m_PartitionKey m \<and>
      m_Payload m' = m_Payload m \<and> (\<exists>hs. m_Headers m' = Some hs \<and> carries (headers_or_empty m) hs) \<and>
      m_ContentType m' = m_ContentType m \<and> m_MessageType m' = m_MessageType m \<and>
      m_MaxAttempts m' = m_MaxAttempts m \<and> m_Attempts m' = 1)"
proof -
  obtain w' v where run: "Enqueue env ob m w = (Return None, w')"
    and v: "message_row (e_uuid_in env) m = Some v"
    and rows: "d_rows (w_db w') = d_rows (w_db w) @ [fresh_row i (e_now env (w_tick w)) (d_seq (w_db w)) v]"
    using Enqueue_stores [OF assms(1-4,6)] assms(5) by auto
  let ?r = "fresh_row i (e_now env (w_tick w)) (d_seq (w_db w)) v"
  note carried = stored_headers_carries [OF message_row_headers(1) [OF v]]
  have "let m' = scan_row (claim_row inst until tok ?r) in
      m_ID m' = i \<and> m_Topic m' = m_Topic m \<and> m_PartitionKey m' = m_PartitionKey m \<and>
      m_Payload m' = m_Payload m \<and> (\<exists>hs. m_Headers m' = Some hs \<and> carries (headers_or_empty m) hs) \<and>
      m_ContentType m' = m_ContentType m \<and> m_MessageType m' = m_MessageType m \<and>
      m_MaxAttempts m' = m_MaxAttempts m \<and> m_Attempts m' = 1" for inst until tok
    using claimed_content [OF v, of inst until tok i] carried unfolding Let_def by auto
  moreover have "r_status ?r = StatusPending" by (simp add: fresh_row_def)
  ultimately show ?thesis using run rows by blast
qed

definition sample_outbox :: outbox where
  "sample_outbox = \<lparr>ob_store = NewStore (Some (OtherExecutor 0)) (Some (OtherExecutor 1)) None ''public'',
     ob_set = sample_cfg\<rparr>"

definition sample_message :: message where
  "sample_message = zero_message\<lparr>m_ID := ''d'', m_Topic := ''orders'', m_Payload := Some ''p''\<rparr>"

theorem enqueued_is_delivered_witness:
  "\<exists>w' r. Enqueue sample_env sample_outbox sample_message sample_world = (Return None, w') \<and>
    d_rows (w_db w') = d_rows sample_db @ [r] \<and> r_status r = StatusPending \<and>
    m_ID (scan_row (claim_row ''relay'' 130 ''ttt'' r)) = ''d''"
proof -
  have "Validate sample_message = None" by code_simp
  moreover have "st_enq (ob_store sample_outbox) \<noteq> None" by (simp add: sample_outbox_def NewStore_def)
  moreover have "enqueue_id sample_env sample_db sample_message = Some ''d''"
    by (simp add: enqueue_id_def sample_message_def zero_message_def)
  moreover have "''d'' \<notin> r_id ` set (d_rows sample_db)"
    by (simp add: sample_db_def sample_row_def)
  moreover have "storable sample_env sample_message" by code_simp
  ultimately show ?thesis
    using enqueued_is_delivered [of sample_message sample_env sample_world sample_outbox "''d''"]
    by (auto simp: answered_def Let_def)
qed

text \<open>C25. Enqueueing is idempotent on the caller's id: a message whose id is already stored is accepted
  and changes no row, whatever has become of the stored one.\<close>

theorem enqueue_idempotent:
  assumes "Validate m = None" and "answered env (w_tick w)" and "st_enq (ob_store ob) \<noteq> None"
    and "m_ID m \<noteq> ''''" and "e_uuid_in env (m_ID m) = Some i" and "i \<in> r_id ` set (d_rows (w_db w))"
    and "storable env m"
  shows "\<exists>w'. Enqueue env ob m w = (Return None, w') \<and> d_rows (w_db w') = d_rows (w_db w)"
  using Enqueue_stores [OF assms(1-3), of i] assms(4-7) by (auto simp: enqueue_id_def)

theorem enqueue_idempotent_witness:
  "\<exists>w'. Enqueue sample_env sample_outbox (sample_message\<lparr>m_ID := ''b''\<rparr>) sample_world = (Return None, w') \<and>
    d_rows (w_db w') = d_rows sample_db"
proof -
  have "Validate (sample_message\<lparr>m_ID := ''b''\<rparr>) = None" by code_simp
  moreover have "st_enq (ob_store sample_outbox) \<noteq> None" by (simp add: sample_outbox_def NewStore_def)
  moreover have "''b'' \<in> r_id ` set (d_rows sample_db)" by (simp add: sample_db_def sample_row_def)
  moreover have "storable sample_env (sample_message\<lparr>m_ID := ''b''\<rparr>)" by code_simp
  ultimately show ?thesis
    using enqueue_idempotent [of "sample_message\<lparr>m_ID := ''b''\<rparr>" sample_env sample_world sample_outbox "''b''"]
    by (simp add: answered_def)
qed

text \<open>A batch is validated as a whole: one invalid message and nothing is written, nothing is
  called, and the first violation in batch order is returned.\<close>

theorem batch_enqueue_all_or_nothing:
  assumes "m \<in> set ms" and "Validate m \<noteq> None"
  shows "\<exists>e. EnqueueBatch env ob ms w = (Return (Some e), w) \<and> first_some (map Validate ms) = Some e"
  using assms by (rule EnqueueBatch_rejects)

theorem batch_enqueue_all_or_nothing_witness:
  "EnqueueBatch sample_env sample_outbox [sample_message, zero_message] sample_world =
    (Return (Some ErrEmptyTopic), sample_world)"
proof -
  have "Validate zero_message \<noteq> None" by (simp add: Validate_def zero_message_def)
  moreover have "first_some (map Validate [sample_message, zero_message]) = Some ErrEmptyTopic" by code_simp
  ultimately show ?thesis
    using batch_enqueue_all_or_nothing [of zero_message "[sample_message, zero_message]"] by auto
qed

text \<open>C27. A rejected enqueue has no effect at all, not even a call: an invalid message, a batch with an
  invalid message (the first violation is returned), a value without a codec, one the codec
  fails on, and one it marshals to a nil payload. A batch the database refuses, because it cannot
  store one of its messages or because the batch has more than the 8191 messages whose parameters
  fit one statement, fails as a whole and leaves the table as it was.\<close>

theorem rejected_enqueue_no_effect:
  "(Validate m = Some e \<longrightarrow> Enqueue env ob m w = (Return (Some e), w)) \<and>
   (first_some (map Validate ms) = Some e \<longrightarrow> EnqueueBatch env ob ms w = (Return (Some e), w)) \<and>
   (s_Codec (ob_set ob) = None \<longrightarrow> EnqueueValue env ob topic key mt v w = (Return (Some ErrNoCodec), w)) \<and>
   (s_Codec (ob_set ob) = Some c \<and> cd_Marshal c v = (payload, ct, Some e) \<longrightarrow>
      EnqueueValue env ob topic key mt v w = (Return (Some e), w)) \<and>
   (s_Codec (ob_set ob) = Some c \<and> cd_Marshal c v = (None, ct, None) \<and> topic \<noteq> '''' \<longrightarrow>
      EnqueueValue env ob topic key mt v w = (Return (Some ErrNilPayload), w)) \<and>
   ((\<forall>m \<in> set ms. Validate m = None) \<and> answered env (w_tick w) \<and> st_enq (ob_store ob) \<noteq> None \<and>
    (8191 < length ms \<or> (\<exists>m \<in> set ms. \<not> storable env m \<or> m_ID m \<noteq> '''' \<and> e_uuid_in env (m_ID m) = None)) \<longrightarrow>
      EnqueueBatch env ob ms w = (Return (Some (e_sql_error env)), w\<lparr>w_tick := Suc (w_tick w)\<rparr>))"
proof -
  have "EnqueueBatch env ob ms w = (Return (Some (e_sql_error env)), w\<lparr>w_tick := Suc (w_tick w)\<rparr>)"
    if "\<forall>m \<in> set ms. Validate m = None" "answered env (w_tick w)" "st_enq (ob_store ob) \<noteq> None"
      "8191 < length ms \<or> (\<exists>x \<in> set ms. \<not> storable env x \<or> m_ID x \<noteq> '''' \<and> e_uuid_in env (m_ID x) = None)"
  proof -
    have "validate_all ms = None" using that(1) by (simp add: validate_all_None_iff)
    then show ?thesis
      using Store_Enqueue_refused [OF that(2,3), of ms] that(4) by (simp add: EnqueueBatch_def too_many_def)
  qed
  moreover have "(Validate m = Some e \<longrightarrow> Enqueue env ob m w = (Return (Some e), w)) \<and>
      (first_some (map Validate ms) = Some e \<longrightarrow> EnqueueBatch env ob ms w = (Return (Some e), w)) \<and>
      (s_Codec (ob_set ob) = None \<longrightarrow> EnqueueValue env ob topic key mt v w = (Return (Some ErrNoCodec), w)) \<and>
      (s_Codec (ob_set ob) = Some c \<and> cd_Marshal c v = (payload, ct, Some e) \<longrightarrow>
        EnqueueValue env ob topic key mt v w = (Return (Some e), w)) \<and>
      (s_Codec (ob_set ob) = Some c \<and> cd_Marshal c v = (None, ct, None) \<and> topic \<noteq> '''' \<longrightarrow>
        EnqueueValue env ob topic key mt v w = (Return (Some ErrNilPayload), w))"
    by (auto simp: Enqueue_def EnqueueBatch_def EnqueueValue_def validate_all_first ret_go_run Validate_def)
  ultimately show ?thesis by blast
qed

theorem rejected_enqueue_no_effect_witness:
  "EnqueueBatch sample_env sample_outbox [sample_message, zero_message] sample_world =
    (Return (Some ErrEmptyTopic), sample_world)"
proof -
  have "first_some (map Validate [sample_message, zero_message]) = Some ErrEmptyTopic" by code_simp
  then show ?thesis
    using rejected_enqueue_no_effect [where ms = "[sample_message, zero_message]" and e = ErrEmptyTopic
        and env = sample_env and ob = sample_outbox and w = sample_world] by blast
qed

text \<open>C26. Replay resets exactly the dead row with the given id (pending, no attempts counted, due now)
  and reports whether there was one; every other row stays as it is.\<close>

theorem requeue_replays_dead_row:
  assumes "answered env (w_tick w)" and "st_enq (ob_store ob) \<noteq> None" and "e_uuid_in env ident = Some i"
    and "distinct (map r_id (d_rows (w_db w)))"
  shows "\<exists>w'. Requeue env ob ident w =
      (Return (\<exists>r \<in> set (d_rows (w_db w)). r_id r = i \<and> r_status r = StatusDead, None), w') \<and>
    list_all2 (\<lambda>r r'. if r_id r = i \<and> r_status r = StatusDead
        then same_origin r r' \<and> r_status r' = StatusPending \<and> r_attempts r' = 0 \<and>
          r_next_attempt_at r' = e_clk env (w_tick w) \<and> r_payload r' = r_payload r
        else r' = r) (d_rows (w_db w)) (d_rows (w_db w'))"
proof -
  obtain w' where run: "Requeue env ob ident w =
      (Return (\<exists>r \<in> set (d_rows (w_db w)). r_id r = i \<and> r_status r = StatusDead, None), w')"
    and rows: "d_rows (w_db w') = map (\<lambda>r. if requeuable i r then requeue_row (e_clk env (w_tick w)) r else r)
      (d_rows (w_db w))"
    using Requeue_run [OF assms] by blast
  have "r_payload (requeue_row c r) = r_payload r" "r_next_attempt_at (requeue_row c r) = c" for c r
    by (simp_all add: requeue_row_def)
  then show ?thesis
    by (intro exI [of _ w'] conjI run)
      (simp add: rows list.rel_map list.rel_refl requeuable_def requeue_row_origin)
qed

theorem requeue_replays_dead_row_witness:
  "\<exists>w'. Requeue sample_env sample_outbox ''b'' sample_world = (Return (False, None), w') \<and>
    d_rows (w_db w') ! 1 = d_rows sample_db ! 1"
proof -
  have "st_enq (ob_store sample_outbox) \<noteq> None" by (simp add: sample_outbox_def NewStore_def)
  moreover have "(\<exists>r \<in> set (d_rows sample_db). r_id r = ''b'' \<and> r_status r = StatusDead) = False"
    by code_simp
  moreover have "length (d_rows sample_db) = 3" "r_status (d_rows sample_db ! 1) = StatusPending"
    by code_simp+
  ultimately show ?thesis
    using requeue_replays_dead_row [of sample_env sample_world sample_outbox "''b''" "''b''"]
    by (auto simp: answered_def list_all2_conv_all_nth)
qed

section \<open>Retention\<close>

text \<open>C28. Whatever the cleaner deletes over any number of ticks was in a terminal state whose retention
  window is configured and had run out; it never changes a row and never adds one.\<close>

theorem cleaner_deletes_only_expired:
  assumes "alone env" and "distinct (map r_id (d_rows (w_db w)))"
  shows "set (d_rows (w_db (snd (Cleaner_Run fuel env cfg evs w)))) \<subseteq> set (d_rows (w_db w)) \<and>
    (\<forall>r \<in> set (d_rows (w_db w)) - set (d_rows (w_db (snd (Cleaner_Run fuel env cfg evs w)))).
       \<exists>n. expired (cleanup_retention env cfg n) r \<and>
         (r_status r = StatusPublished \<and> 0 < s_Retention cfg \<or>
          r_status r = StatusDead \<and> 0 < s_DeadRetention cfg \<or>
          r_status r = StatusDiscarded \<and> 0 < s_DiscardRetention cfg))"
  using withinD [OF cleaner_purges.Cleaner_Run_within [of env cfg fuel evs], of w] assms
    expired_cleanup_retention
  unfolding purged_def by meson

definition old_published :: row where
  "old_published = (sample_row ''z'' 0)\<lparr>r_status := StatusPublished, r_attempts := 1,
     r_published_at := Some 5, r_finished_at := Some 5\<rparr>"

definition cleaning_world :: world where
  "cleaning_world = sample_world\<lparr>w_db := sample_db\<lparr>d_rows := old_published # d_rows sample_db\<rparr>\<rparr>"

theorem cleaner_deletes_only_expired_witness:
  "\<exists>n. expired (cleanup_retention sample_env sample_cfg n) old_published"
proof -
  have "distinct (map r_id (d_rows (w_db cleaning_world)))" by code_simp
  moreover have "old_published \<in> set (d_rows (w_db cleaning_world))" by (simp add: cleaning_world_def)
  moreover have "map r_id (d_rows (w_db (snd (Cleaner_Run 9 sample_env sample_cfg [CleanerTick, CleanerDone]
      cleaning_world)))) = [''a'', ''b'', ''c'']" by code_simp
  then have "r_id old_published \<notin> r_id ` set (d_rows (w_db (snd (Cleaner_Run 9 sample_env sample_cfg
      [CleanerTick, CleanerDone] cleaning_world))))"
    by (simp add: old_published_def sample_row_def flip: set_map)
  then have "old_published \<notin> set (d_rows (w_db (snd (Cleaner_Run 9 sample_env sample_cfg
      [CleanerTick, CleanerDone] cleaning_world))))" by blast
  ultimately show ?thesis
    using cleaner_deletes_only_expired [of sample_env cleaning_world 9 sample_cfg "[CleanerTick, CleanerDone]"]
    by simp
qed

text \<open>C30. A cleanup pass ends within one more batch than the table has rows, because a full batch
  deletes at least one row.\<close>

theorem cleanup_terminates:
  assumes "alone env" and "1 \<le> s_BatchSize cfg" and "length (d_rows (w_db w)) < fuel"
  shows "fst (cleanup_pass fuel env cfg w) \<noteq> Return Running"
  using assms by (rule cleanup_pass_ends)

theorem cleanup_terminates_witness:
  "fst (cleanup_pass 5 sample_env sample_cfg cleaning_world) \<noteq> Return Running"
  by (rule cleanup_terminates) (simp, simp add: sample_cfg_def, code_simp)

text \<open>C29. A pass that returns nil without having been cancelled leaves no expired row behind that was
  not locked by another transaction at its last statement, or has logged the error that cut it
  short.\<close>

theorem cleanup_complete:
  assumes "alone env" and "\<forall>n. \<not> e_done env n" and "distinct (map r_id (d_rows (w_db w)))"
    and "cleanup_pass fuel env cfg w = (Return (Done None), w')"
  shows "(\<exists>n. \<forall>r \<in> set (d_rows (w_db w')). expired (cleanup_retention env cfg n) r \<longrightarrow> e_locked env n (r_id r))
    \<or> log_ends_with_cleanup_error w'"
  using assms by (rule cleanup_pass_reaches)

theorem cleanup_complete_witness:
  "let w' = snd (cleanup_pass 5 sample_env sample_cfg cleaning_world)
   in (\<exists>n. \<forall>r \<in> set (d_rows (w_db w')). \<not> expired (cleanup_retention sample_env sample_cfg n) r) \<or>
      log_ends_with_cleanup_error w'"
proof -
  have "distinct (map r_id (d_rows (w_db cleaning_world)))" by code_simp
  moreover have "cleanup_pass 5 sample_env sample_cfg cleaning_world =
      (Return (Done None), snd (cleanup_pass 5 sample_env sample_cfg cleaning_world))"
    by (rule prod_eqI) (code_simp, simp)
  ultimately show ?thesis
    using cleanup_complete [of sample_env cleaning_world 5 sample_cfg] by (simp add: Let_def)
qed

section \<open>Retries\<close>

text \<open>C33. The delay of a retry is never negative, never shorter than the publisher's \<open>RetryAfter\<close>, and
  with the default backoff never longer than the larger of that request and 30 s.\<close>

theorem retry_delay_range:
  assumes "s_Backoff cfg = Some (Default_backoff raw)" and "call_backoff cfg attempts w = (Return d, w')"
    and "errors_as is_retry e = Some (RetryAfterError cause request)"
  shows "let delay = retry_delay d (errors_as is_retry e)
    in 0 \<le> delay \<and> request \<le> delay \<and> delay \<le> max request (30 * 1000000000)"
proof -
  have "Default_backoff raw (w_tick w) attempts = Return d"
    using assms(1,2) by (auto simp: call_backoff_def bind_go_def ret_go_run panic_go_run split: res.splits)
  from default_backoff.bounded [OF this] show ?thesis
    using assms(3) by (auto simp: retry_delay_def Let_def)
qed

theorem retry_delay_range_witness:
  "let delay = retry_delay (sint (5 :: 64 word)) (Some (RetryAfterError None 7))
    in 0 \<le> delay \<and> 7 \<le> delay \<and> delay \<le> max 7 (30 * 1000000000)"
proof -
  have b: "Default_backoff (\<lambda>_. 5) 0 1 = Return (sint (5 :: 64 word))"
    by (simp add: Default_backoff_def Exp_def exp_delay_def exp_computed_def exp_shift_def Int64N_def)
  have "call_backoff (Default (\<lambda>_. 5)) 1 sample_world =
      (Return (sint (5 :: 64 word)), sample_world\<lparr>w_tick := 1\<rparr>)"
    using b by (simp add: call_backoff_def bind_go_def ret_go_run)
  moreover have "errors_as is_retry (RetryAfterError None 7) = Some (RetryAfterError None 7)"
    by (simp add: errors_as.simps)
  ultimately show ?thesis
    using retry_delay_range [of "Default (\<lambda>_. 5)" "\<lambda>_. 5" 1 sample_world "sint (5 :: 64 word)"
        "sample_world\<lparr>w_tick := 1\<rparr>" "RetryAfterError None 7" None 7]
    by simp
qed

text \<open>C35. The attempt limit is only looked at when a failed publish is settled: a message whose relay
  stalls or crashes after each claim is claimed again, beyond any limit (up to the range of the integer
  column that counts the attempts), and is never dead-lettered by that.\<close>

theorem stalled_attempts_unbounded:
  assumes "r_status r = StatusPending" and "d_rows d = [r]" and "r_attempts r + 1 + int n < 2 ^ 31"
  shows "\<exists>d' r'. db_steps gen {LClaim} d d' \<and> d_rows d' = [r'] \<and> r_status r' = StatusProcessing \<and>
    r_attempts r' = r_attempts r + 1 + int n"
  using stalled_claims [OF assms(1,2)] by blast

theorem stalled_attempts_unbounded_witness:
  "\<exists>d' r'. db_steps sample_gen {LClaim} (sample_db\<lparr>d_rows := [sample_row ''b'' 2]\<rparr>) d' \<and> d_rows d' = [r'] \<and>
    r_attempts r' = 1001"
  using stalled_attempts_unbounded [of "sample_row ''b'' 2" "sample_db\<lparr>d_rows := [sample_row ''b'' 2]\<rparr>" 1000
      sample_gen]
  by (auto simp: sample_row_def)

section \<open>Lifecycle of the relay and the facade\<close>

text \<open>C32. The group of goroutines \<open>Run\<close> supervises, each running the code of its worker or of the listener, in
  any interleaving of their turns: the first failure is kept for good; the context is cancelled exactly
  when the caller did it or a failure was reported, and no goroutine ends before; so \<open>Run\<close> returns nil
  only after its caller cancelled, and otherwise the first failure, which with the default classifier is an
  abort or a recovered panic. Once cancelled the group can always come to its end: a worker that
  receives the cancellation returns nil, and so does the listener's loop.\<close>

theorem run_supervision:
  assumes "(run_step envs cfg)\<^sup>*\<^sup>* (Run_start cfg pool views False) s" and "1 \<le> s_Concurrency cfg"
  shows "(\<forall>s' e. (run_step envs cfg)\<^sup>*\<^sup>* s s' \<longrightarrow> sv_failure s = Some e \<longrightarrow> sv_failure s' = Some e) \<and>
    (sv_cancelled s \<longleftrightarrow> sv_caller_done s \<or> sv_failure s \<noteq> None) \<and>
    (Returned \<in> set (sv_goroutines s) \<longrightarrow> sv_cancelled s) \<and>
    (Run_returns s = Some None \<longrightarrow> sv_caller_done s) \<and>
    ((\<forall>i. public_env (envs i)) \<and> s_Fatal cfg = Some neverFatal \<longrightarrow>
      (\<forall>e. sv_failure s = Some e \<longrightarrow> has_as is_abort e \<or> has_as is_panic e)) \<and>
    (sv_cancelled s \<longrightarrow> (\<exists>s'. (run_step envs cfg)\<^sup>*\<^sup>* s s' \<and> Run_returns s' = Some (sv_failure s)))"
proof -
  let ?n = "length (goroutines cfg pool views)"
  have ok: "group_ok envs cfg ?n s"
    using group_ok_steps [OF assms(1) group_ok_start] .
  have "0 < ?n" using assms(2) by (simp add: goroutines_def)
  then have "Returned \<in> set (sv_goroutines s)" if "Run_returns s = Some None"
    using that ok by (cases "sv_goroutines s") (auto simp: group_ok_def Run_returns_def split: if_splits)
  moreover have "sv_failure s = None" if "Run_returns s = Some None"
    using that by (auto simp: Run_returns_def split: if_splits)
  moreover have "\<forall>e. sv_failure s = Some e \<longrightarrow> reported envs cfg e" using ok unfolding group_ok_def by blast
  ultimately show ?thesis
    using failure_kept group_finishes reported_stopper ok unfolding group_ok_def by metis
qed

text \<open>Two workers: the publisher of the first aborts, the second can only stop.\<close>

definition pair_cfg :: settings where
  "pair_cfg = sample_cfg\<lparr>s_Concurrency := 2\<rparr>"

theorem run_supervision_witness:
  "\<exists>s s'. (run_step (\<lambda>_. abort_env) pair_cfg)\<^sup>*\<^sup>* (Run_start pair_cfg None (\<lambda>_. sample_world) False) s \<and>
    sv_goroutines s ! 0 = Returned \<and> sv_goroutines s ! 1 = Working sample_world \<and>
    (run_step (\<lambda>_. abort_env) pair_cfg)\<^sup>*\<^sup>* s s' \<and>
    Run_returns s' = Some (Some (AbortError (Some (Plain ''stop''))))"
proof -
  let ?start = "Run_start pair_cfg None (\<lambda>_. sample_world) False"
  let ?e = "AbortError (Some (Plain ''stop''))"
  define s where "s = turn_over 0 (Working sample_world) (Done (Some ?e)) (receive WakeTick ?start)"
  have gs: "sv_goroutines ?start = [Working sample_world, Working sample_world]"
    by (simp add: Run_start_def goroutines_def pair_cfg_def upt_rec)
  have turn: "fst (worker_goroutine 9 abort_env pair_cfg [WakeTick] sample_world) = Return (Done (Some ?e))"
    by code_simp
  have "run_step (\<lambda>_. abort_env) pair_cfg ?start
      (turn_over 0 (Working (snd (worker_goroutine 9 abort_env pair_cfg [WakeTick] sample_world)))
        (Done (Some ?e)) (receive WakeTick ?start))"
    by (rule run_step.worker_turn [of 0 ?start sample_world WakeTick 9])
      (simp_all add: gs turn [symmetric])
  then have step: "run_step (\<lambda>_. abort_env) pair_cfg ?start s" by (simp add: s_def turn_over_def)
  have s: "sv_failure s = Some ?e" "sv_cancelled s" "sv_goroutines s = [Returned, Working sample_world]"
    by (simp_all add: s_def turn_over_sel gs) (simp_all add: Run_start_def)
  have "1 \<le> s_Concurrency pair_cfg" by (simp add: pair_cfg_def)
  moreover have star: "(run_step (\<lambda>_. abort_env) pair_cfg)\<^sup>*\<^sup>* ?start s" using step by blast
  ultimately have "\<exists>s'. (run_step (\<lambda>_. abort_env) pair_cfg)\<^sup>*\<^sup>* s s' \<and> Run_returns s' = Some (sv_failure s)"
    using run_supervision [of "\<lambda>_. abort_env" pair_cfg None "\<lambda>_. sample_world" s] s(2) by blast
  then show ?thesis using star s(1,3) by force
qed

text \<open>C22. A worker goroutine always delivers a result: nil (only after it has seen the context
  cancelled), the error of a drain, or the panic it recovered as a \<open>PanicError\<close>; otherwise it is
  still running. With the default classifier the error is an abort or a recovered panic: no
  database error, lost lease or failed publish ever ends a worker.\<close>

theorem worker_results:
  "(\<forall>w'. worker_goroutine fuel env cfg ws w = (Return (Done None), w') \<longrightarrow> WakeDone \<in> set ws) \<and>
   (\<forall>v w'. worker fuel env cfg ws w = (Panic v, w') \<longrightarrow>
      worker_goroutine fuel env cfg ws w = (Return (Done (Some (PanicError v))), w')) \<and>
   (\<forall>e w'. public_env env \<and> s_Fatal cfg = Some neverFatal \<and>
      worker_goroutine fuel env cfg ws w = (Return (Done (Some e)), w') \<longrightarrow>
      has_as is_abort e \<or> has_as is_panic e) \<and>
   (\<exists>r w'. worker_goroutine fuel env cfg ws w = (Return r, w'))"
proof (intro conjI allI impI)
  fix w' assume "worker_goroutine fuel env cfg ws w = (Return (Done None), w')"
  then have "worker fuel env cfg ws w = (Return (Done None), w')"
    by (auto simp: worker_goroutine_def recovered_run_def split: prod.splits res.splits)
  then show "WakeDone \<in> set ws" by (rule worker_stops)
next
  show "\<exists>r w'. worker_goroutine fuel env cfg ws w = (Return r, w')"
    by (rule worker_goroutine_result)
next
  fix v w' assume "worker fuel env cfg ws w = (Panic v, w')"
  then show "worker_goroutine fuel env cfg ws w = (Return (Done (Some (PanicError v))), w')"
    by (rule worker_goroutine_panic)
next
  fix e w'
  assume "public_env env \<and> s_Fatal cfg = Some neverFatal \<and>
    worker_goroutine fuel env cfg ws w = (Return (Done (Some e)), w')"
  then show "has_as is_abort e \<or> has_as is_panic e"
    using worker_goroutine_stopper unfolding stopper_def by metis
qed

text \<open>A worker whose publisher aborts ends with the abort; one whose database fails stays at work.\<close>

theorem worker_results_witness:
  "public_env abort_env \<and> s_Fatal sample_cfg = Some neverFatal \<and>
   (\<exists>e w'. worker_goroutine 9 abort_env sample_cfg [WakeTick, WakeDone] sample_world = (Return (Done (Some e)), w') \<and>
      (has_as is_abort e \<or> has_as is_panic e)) \<and>
   \<not> (\<exists>w'. worker_goroutine 9 abort_env sample_cfg [WakeTick] sample_world = (Return (Done None), w'))"
proof -
  let ?run = "worker_goroutine 9 abort_env sample_cfg [WakeTick, WakeDone] sample_world"
  let ?e = "AbortError (Some (Plain ''stop''))"
  have ends: "?run = (Return (Done (Some ?e)), snd ?run)"
    by (rule prod_eqI) (code_simp, simp)
  have public: "public_env abort_env"
    by (simp add: public_env_def public_def abort_env_def sample_env_def has_as_def errors_as.simps)
  have default: "s_Fatal sample_cfg = Some neverFatal" by (simp add: sample_cfg_def)
  have "has_as is_abort ?e \<or> has_as is_panic ?e"
    using worker_results [of 9 abort_env sample_cfg "[WakeTick, WakeDone]" sample_world] public default ends
    by blast
  moreover have "\<not> (\<exists>w'. worker_goroutine 9 abort_env sample_cfg [WakeTick] sample_world = (Return (Done None), w'))"
    using worker_results [of 9 abort_env sample_cfg "[WakeTick]" sample_world] by auto
  ultimately show ?thesis using ends public default by blast
qed

text \<open>Notifications coalesce without being lost: after any sequence of connections there is at most
  one pending wake-up, and there is one exactly if one was pending before or some connection that
  was used delivered a notification.\<close>

theorem wakeups_coalesce:
  assumes "pending \<le> 1"
  shows "snd (listen conns pending) =
    (if pending = 1 \<or> (\<exists>c \<in> set (used conns). 0 < delivered (fst (snd c))) then 1 else 0)"
  using assms by (rule listen_wakes)

theorem wakeups_coalesce_witness:
  "snd (listen [(False, AcquireFails (Plain ''x''), False), (False, Delivers 3 (Plain ''y''), True),
     (True, Delivers 1 (Plain ''z''), True)] 0) = 1"
proof -
  let ?conns = "[(False, AcquireFails (Plain ''x''), False), (False, Delivers 3 (Plain ''y''), True),
     (True, Delivers 1 (Plain ''z''), True)]"
  have "\<exists>c \<in> set (used ?conns). 0 < delivered (fst (snd c))" by (simp add: used_def)
  then show ?thesis using wakeups_coalesce [of 0 ?conns] by simp
qed

text \<open>The facade's \<open>Run\<close> returns the first failure of the relay and the cleaner in the order they
  ended, and only without one the context's error.\<close>

theorem outbox_run_first_failure:
  "Outbox_Run r1 r2 ctx_err = first_some [r1, r2, ctx_err] \<and>
   Run_collect [r1, r2] (None, False) = (first_some [r1, r2], list_ex (\<lambda>r. r \<noteq> None) [r1, r2])"
  by (auto simp: Outbox_Run_first Run_collect_first)

section \<open>Construction\<close>

text \<open>C36. \<open>New\<close> fails exactly for a schema that is not a plain identifier (checked first) or a missing
  executor; what it builds has settings the engine can run with, and the table name it
  interpolates into every statement is the schema between double quotes, unaltered and without a
  quote inside.\<close>

theorem new_is_safe:
  assumes "New raw b hostname exec enq opts = Inr ob"
  shows "runnable (ob_set ob) \<and> CHR ''\"'' \<notin> set (s_Schema (ob_set ob)) \<and>
    st_table (ob_store ob) = Some (CHR ''\"'' # s_Schema (ob_set ob) @ CHR ''\"'' # ''.'' @ TableName) \<and>
    st_exec (ob_store ob) = exec \<and> exec \<noteq> None \<and> st_enq (ob_store ob) = enq"
  using New_accepts [OF assms] Resolve_runnable ValidSchema_no_quote by simp

theorem new_is_safe_witness:
  "CHR ''\"'' \<notin> set (s_Schema (ob_set (projr (New (\<lambda>_. 0) [1, 2] None (Some (PoolExecutor 3)) None [WithSchema ''app'']))))"
proof -
  let ?new = "New (\<lambda>_. 0) [1, 2] None (Some (PoolExecutor 3)) None [WithSchema ''app'']"
  have "ValidSchema (s_Schema (Resolve (\<lambda>_. 0) [1, 2] None [WithSchema ''app'']))"
    by (simp add: Resolve_def normalize_sel WithSchema_def ident_start_def ident_char_def)
  then have "?new = Inr (projr ?new)" by (auto simp: New_def Let_def)
  then show ?thesis using new_is_safe by blast
qed



section \<open>Transport publishers\<close>






end
